(* ===== verification/View_Prelude.thy ===== *)
theory View_Prelude
  imports Main "HOL-Library.Word" "HOL-Library.Monad_Syntax"
begin

text \<open>
  Shared vocabulary of the development: the names of the C types the sources under
  \<^verbatim>\<open>src/xmview-os/xmview\<close> use, the arithmetic of C's \<open>unsigned long\<close> counters on
  natural numbers, and the generic facts on options, lists and maps that the component
  theories share.  Failing C code (a dereference of an invalid pointer, a violated
  \<open>assert\<close>) and a loop that never ends are both the value \<open>None\<close> of the option type.
\<close>

unbundle bit_operations_syntax

section \<open>Names for the C types\<close>

type_synonym addr = nat          \<comment> \<open>the address of a heap object; a NULL pointer is \<open>None\<close>\<close>
type_synonym epoch_t = int       \<comment> \<open>\<open>long long\<close>, see \<^verbatim>\<open>treepoch.h\<close>\<close>
type_synonym u64 = "64 word"     \<comment> \<open>\<open>unsigned long\<close> and \<open>long\<close> of x86-64\<close>
type_synonym s32 = "32 word"     \<comment> \<open>\<open>int\<close>, read with \<open>sint\<close>\<close>

section \<open>Counters of type \<open>unsigned long\<close>\<close>

text \<open>Increment and decrement of an \<open>unsigned long\<close>, with the wrap-around written out.\<close>

definition ul_inc :: "nat \<Rightarrow> nat" where
  "ul_inc n = (n + 1) mod 2 ^ 64"

definition ul_dec :: "nat \<Rightarrow> nat" where
  "ul_dec n = (n + (2 ^ 64 - 1)) mod 2 ^ 64"

lemma ul_inc_eq: "n + 1 < 2 ^ 64 \<Longrightarrow> ul_inc n = n + 1"
  by (simp add: ul_inc_def)

lemma ul_dec_eq: "0 < n \<Longrightarrow> n < 2 ^ 64 \<Longrightarrow> ul_dec n = n - 1"
proof -
  assume "0 < n" "n < 2 ^ 64"
  then have "n + (2 ^ 64 - 1) = (n - 1) + 2 ^ 64" by simp
  then have "ul_dec n = (n - 1) mod 2 ^ 64" by (simp only: ul_dec_def mod_add_self2)
  with \<open>n < 2 ^ 64\<close> show ?thesis by simp
qed

lemma ul_dec_0: "ul_dec 0 = 2 ^ 64 - 1"
  by (simp add: ul_dec_def)

lemma ul_dec_inc: "n < 2 ^ 64 \<Longrightarrow> ul_dec (ul_inc n) = n"
  unfolding ul_dec_def ul_inc_def by (simp add: mod_simps)

section \<open>Facts on options and maps\<close>

lemma bind_SomeD: "Option.bind m f = Some y \<Longrightarrow> \<exists>x. m = Some x \<and> f x = Some y"
  by (cases m) auto

lemma the_Some_eq: "m = Some x \<Longrightarrow> the m = x"
  by simp

end
