(* ===== verification/Treepoch.thy ===== *)
theory Treepoch
  imports View_Prelude "HOL-Library.Sublist"
begin

text \<open>
  The epoch tree of \<^verbatim>\<open>treepoch.c\<close>: a binary tree of views kept on the heap with parent
  pointers, where every node carries the bit string of its path from the root.  A process
  belongs to a leaf; starting a nested hypervisor forks the leaf of the caller.  This
  theory holds the definitions, one per function of the source, on an explicit heap.
  The heap is a map from addresses to nodes; nodes are never freed by the source, so
  \<open>calloc\<close> hands out the address \<open>te_brk\<close> and increments it.
\<close>

section \<open>State\<close>

record treepoch =
  te_parent :: "addr option"
  te_sub0 :: "addr option"
  te_sub1 :: "addr option"
  te_rise :: epoch_t
  te_nproc :: nat
  te_nref :: nat
  te_subheight :: nat
  te_len :: nat
  te_bitstr :: "u64 list"
  te_viewid :: nat
  te_viewname :: "string option"

record timestamp =
  tst_epoch :: epoch_t
  tst_te :: "addr option"

record te_state =
  te_mem :: "addr \<rightharpoonup> treepoch"
  te_brk :: addr
  te_root :: "addr option"
  epoch_now :: epoch_t
  nextviewid :: nat

text \<open>\<open>MAXDEPTH\<close>, \<open>DEPTH_BYTES\<close> and \<open>DEPTH_WORDS\<close> for a 64 bit word.\<close>

definition MAXDEPTH :: nat where
  "MAXDEPTH = 8 * 8"

definition DEPTH_BYTES :: nat where
  "DEPTH_BYTES = (MAXDEPTH + 7) div 8"

definition DEPTH_WORDS :: nat where
  "DEPTH_WORDS = (DEPTH_BYTES + 8 - 1) div 8"

text \<open>A node as \<open>calloc\<close> returns it: all bytes zero.\<close>

definition te_zero :: treepoch where
  "te_zero = \<lparr>te_parent = None, te_sub0 = None, te_sub1 = None, te_rise = 0, te_nproc = 0,
     te_nref = 0, te_subheight = 0, te_len = 0, te_bitstr = replicate DEPTH_WORDS 0,
     te_viewid = 0, te_viewname = None\<rparr>"

definition te_init :: te_state where
  "te_init = \<lparr>te_mem = Map.empty, te_brk = 0, te_root = None, epoch_now = 2, nextviewid = 0\<rparr>"

text \<open>Writing a field of a node: invalid addresses fault.\<close>

definition te_upd :: "addr \<Rightarrow> (treepoch \<Rightarrow> treepoch) \<Rightarrow> te_state \<Rightarrow> te_state option" where
  "te_upd a f s = (case te_mem s a of
     None \<Rightarrow> None
   | Some n \<Rightarrow> Some (s\<lparr>te_mem := (te_mem s)(a \<mapsto> f n)\<rparr>))"

text \<open>\<open>node->sub[v]\<close> and its assignment.\<close>

definition te_sub :: "bool \<Rightarrow> treepoch \<Rightarrow> addr option" where
  "te_sub v n = (if v then te_sub1 n else te_sub0 n)"

definition te_set_sub :: "bool \<Rightarrow> addr option \<Rightarrow> treepoch \<Rightarrow> treepoch" where
  "te_set_sub v p n = (if v then n\<lparr>te_sub1 := p\<rparr> else n\<lparr>te_sub0 := p\<rparr>)"

section \<open>Bit strings\<close>

text \<open>
  \<open>1 << n\<close> is an \<open>int\<close> in the source.  For \<open>n < 31\<close> this is its value in C; beyond
  that C leaves it undefined and the definition has the value of x86-64's shift
  instruction, which uses the count modulo 32.  An \<open>int\<close> used with an \<open>unsigned long\<close>
  is sign extended (\<open>scast\<close>).
\<close>

definition shl1_int :: "nat \<Rightarrow> s32" where
  "shl1_int n = push_bit (n mod 32) 1"

definition getbit :: "u64 list \<Rightarrow> nat \<Rightarrow> bool" where
  "getbit v b = ((v ! (b div 64)) AND scast (shl1_int (b mod 64)) \<noteq> 0)"

definition setbit :: "u64 list \<Rightarrow> nat \<Rightarrow> bool \<Rightarrow> u64 list" where
  "setbit v b val =
     (let i = b div 64 in
      if val then v[i := (v ! i) OR scast (shl1_int (b mod 64))]
      else v[i := (v ! i) AND scast (NOT (shl1_int (b mod 64)))])"

function diffbitstr_loop :: "u64 list \<Rightarrow> u64 list \<Rightarrow> nat \<Rightarrow> nat \<Rightarrow> bool \<Rightarrow> nat \<times> bool" where
  "diffbitstr_loop a b w i rv =
     (if i < w \<and> rv then diffbitstr_loop a b w (i + 1) (a ! i \<noteq> b ! i) else (i, rv))"
  by pat_completeness auto
termination
  by (relation "measure (\<lambda>(a, b, w, i, rv). w - i)") auto

definition diffbitstr :: "u64 list \<Rightarrow> u64 list \<Rightarrow> nat \<Rightarrow> bool" where
  "diffbitstr a b len =
     (let w = len div 64;
          mask = (scast (shl1_int (len mod 64) - 1) :: u64);
          (i, rv) = diffbitstr_loop a b w 0 False
      in if mask \<noteq> 0 \<and> \<not> rv then (a ! i) AND mask \<noteq> (b ! i) AND mask else rv)"

section \<open>The global clock\<close>

definition new_epoch :: "te_state \<Rightarrow> epoch_t \<times> te_state" where
  "new_epoch s = (epoch_now s, s\<lparr>epoch_now := epoch_now s + 1\<rparr>)"

definition get_epoch :: "te_state \<Rightarrow> epoch_t" where
  "get_epoch s = epoch_now s"

section \<open>Matching a service against the calling process\<close>

text \<open>The two loops that move \<open>service_tst->treepoch\<close> towards the root.\<close>

partial_function (option) match_dead :: "te_state \<Rightarrow> addr \<Rightarrow> addr option" where
  "match_dead s a =
     Option.bind (te_mem s a) (\<lambda>n.
       case te_parent n of
         Some p \<Rightarrow> if te_nproc n = 0 then match_dead s p else Some a
       | None \<Rightarrow> Some a)"

partial_function (option) match_rise :: "te_state \<Rightarrow> epoch_t \<Rightarrow> addr \<Rightarrow> addr option" where
  "match_rise s e a =
     Option.bind (te_mem s a) (\<lambda>n.
       if e < te_rise n then
         (case te_parent n of Some p \<Rightarrow> match_rise s e p | None \<Rightarrow> None)
       else Some a)"

text \<open>
  \<open>um_x_gettst()\<close> is the argument \<open>process_tst\<close> (\<open>None\<close> for a NULL result).  The function
  also updates \<open>service_tst->treepoch\<close>, so it returns the new time stamp of the service.
\<close>

definition tst_matchingepoch ::
  "te_state \<Rightarrow> timestamp option \<Rightarrow> timestamp \<Rightarrow> (epoch_t \<times> timestamp) option" where
  "tst_matchingepoch s process_tst service_tst = do {
     a0 \<leftarrow> tst_te service_tst;
     a1 \<leftarrow> match_dead s a0;
     a2 \<leftarrow> match_rise s (tst_epoch service_tst) a1;
     sn \<leftarrow> te_mem s a2;
     let tst' = service_tst\<lparr>tst_te := Some a2\<rparr>;
     case process_tst of
       None \<Rightarrow> Some (tst_epoch service_tst, tst')
     | Some pt \<Rightarrow>
         (case tst_te pt of
            None \<Rightarrow> Some (0, tst')
          | Some pa \<Rightarrow> do {
              pn \<leftarrow> te_mem s pa;
              Some (if te_len sn > te_len pn \<or> diffbitstr (te_bitstr sn) (te_bitstr pn) (te_len sn)
                    then 0
                    else if tst_epoch service_tst < tst_epoch pt then tst_epoch service_tst
                    else 0, tst')
            })
   }"

definition tst_timestamp :: "te_state \<Rightarrow> timestamp \<Rightarrow> timestamp \<times> te_state" where
  "tst_timestamp s process_tst =
     (let (e, s') = new_epoch s in (\<lparr>tst_epoch = e, tst_te = tst_te process_tst\<rparr>, s'))"

section \<open>Maintenance of the tree\<close>

partial_function (option) de_update_substr ::
  "te_state \<Rightarrow> addr option \<Rightarrow> bool \<Rightarrow> te_state option" where
  "de_update_substr s node v01 =
     (case node of
        None \<Rightarrow> Some s
      | Some a \<Rightarrow> do {
          n \<leftarrow> te_mem s a;
          p \<leftarrow> te_parent n;
          pn \<leftarrow> te_mem s p;
          s1 \<leftarrow> te_upd a (\<lambda>n. n\<lparr>te_len := te_len pn + 1,
                                 te_bitstr := setbit (te_bitstr n) (te_len pn) v01\<rparr>) s;
          n1 \<leftarrow> te_mem s1 a;
          s2 \<leftarrow> de_update_substr s1 (te_sub0 n1) False;
          n2 \<leftarrow> te_mem s2 a;
          de_update_substr s2 (te_sub1 n2) True
        })"

partial_function (option) de_update_height :: "te_state \<Rightarrow> addr option \<Rightarrow> te_state option" where
  "de_update_height s node =
     (case node of
        None \<Rightarrow> Some s
      | Some a \<Rightarrow> do {
          n \<leftarrow> te_mem s a;
          a0 \<leftarrow> te_sub0 n;
          n0 \<leftarrow> te_mem s a0;
          a1 \<leftarrow> te_sub1 n;
          n1 \<leftarrow> te_mem s a1;
          let h = (if te_subheight n0 > te_subheight n1 then te_subheight n0
                   else te_subheight n1) + 1;
          if te_subheight n \<noteq> h then do {
            s1 \<leftarrow> te_upd a (\<lambda>n. n\<lparr>te_subheight := h\<rparr>) s;
            de_update_height s1 (te_parent n)
          } else Some s
        })"

text \<open>The removal of an empty leaf \<open>node\<close> and of its parent, in \<open>te_delproc\<close>.\<close>

definition te_remove :: "te_state \<Rightarrow> addr \<Rightarrow> addr \<Rightarrow> te_state option" where
  "te_remove s node parent = do {
     pn \<leftarrow> te_mem s parent;
     other \<leftarrow> (if te_sub0 pn = Some node then te_sub1 pn else te_sub0 pn);
     s1 \<leftarrow> te_upd other (\<lambda>n. n\<lparr>te_parent := te_parent pn, te_rise := te_rise pn\<rparr>) s;
     s2 \<leftarrow> (case te_parent pn of
              None \<Rightarrow> Some (s1\<lparr>te_root := Some other\<rparr>)
            | Some g \<Rightarrow> te_upd g (te_set_sub (getbit (te_bitstr pn) (te_len pn - 1)) (Some other)) s1);
     s3 \<leftarrow> te_upd other (\<lambda>n. n\<lparr>te_len := te_len pn, te_bitstr := te_bitstr pn\<rparr>) s2;
     s4 \<leftarrow> te_upd node (\<lambda>n. n\<lparr>te_parent := Some other, te_viewname := None\<rparr>) s3;
     n4 \<leftarrow> te_mem s4 other;
     s5 \<leftarrow> de_update_substr s4 (te_sub0 n4) False;
     n5 \<leftarrow> te_mem s5 other;
     s6 \<leftarrow> de_update_substr s5 (te_sub1 n5) True;
     n6 \<leftarrow> te_mem s6 other;
     de_update_height s6 (te_parent n6)
   }"

partial_function (option) te_delproc :: "te_state \<Rightarrow> addr option \<Rightarrow> te_state option" where
  "te_delproc s node =
     (case node of
        None \<Rightarrow> Some s
      | Some a \<Rightarrow> do {
          n \<leftarrow> te_mem s a;
          s1 \<leftarrow> te_upd a (\<lambda>n. n\<lparr>te_nproc := ul_dec (te_nproc n)\<rparr>) s;
          s2 \<leftarrow> (case te_parent n of
                   Some p \<Rightarrow> if ul_dec (te_nproc n) = 0 then te_remove s1 a p else Some s1
                 | None \<Rightarrow> Some s1);
          te_delproc s2 (te_parent n)
        })"

partial_function (option) te_newproc :: "te_state \<Rightarrow> addr option \<Rightarrow> te_state option" where
  "te_newproc s node =
     (case node of
        None \<Rightarrow> Some s
      | Some a \<Rightarrow> do {
          s1 \<leftarrow> te_upd a (\<lambda>n. n\<lparr>te_nproc := ul_inc (te_nproc n)\<rparr>) s;
          n \<leftarrow> te_mem s1 a;
          te_newproc s1 (te_parent n)
        })"

section \<open>Interface functions\<close>

definition te_calloc :: "te_state \<Rightarrow> addr \<times> te_state" where
  "te_calloc s = (te_brk s, s\<lparr>te_mem := (te_mem s)(te_brk s \<mapsto> te_zero), te_brk := te_brk s + 1\<rparr>)"

text \<open>The two nodes a fork creates around the leaf \<open>old_te\<close>.\<close>

definition te_split :: "te_state \<Rightarrow> addr \<Rightarrow> addr \<Rightarrow> te_state option" where
  "te_split s new_te old_te = (let (par_te, s0) = te_calloc s in do {
     old \<leftarrow> te_mem s0 old_te;
     new \<leftarrow> te_mem s0 new_te;
     s1 \<leftarrow> te_upd par_te (\<lambda>n. n\<lparr>te_rise := te_rise old, te_nproc := te_nproc old, te_nref := 2,
             te_sub0 := Some old_te, te_sub1 := Some new_te, te_parent := te_parent old,
             te_len := te_len old, te_bitstr := te_bitstr old,
             te_subheight := te_subheight old + 1\<rparr>) s0;
     s2 \<leftarrow> te_upd old_te (\<lambda>n. n\<lparr>te_rise := te_rise new, te_nproc := ul_dec (te_nproc old),
             te_parent := Some par_te\<rparr>) s1;
     s3 \<leftarrow> te_upd new_te (\<lambda>n. n\<lparr>te_nproc := 1, te_nref := 0, te_parent := Some par_te,
             te_bitstr := te_bitstr old, te_subheight := 0\<rparr>) s2;
     s4 \<leftarrow> (case te_parent old of
              None \<Rightarrow> Some (s3\<lparr>te_root := Some par_te\<rparr>)
            | Some g \<Rightarrow> te_upd g (te_set_sub (getbit (te_bitstr old) (te_len old - 1)) (Some par_te)) s3);
     s5 \<leftarrow> de_update_substr s4 (Some old_te) False;
     s6 \<leftarrow> de_update_substr s5 (Some new_te) True;
     de_update_height s6 (te_parent old)
   })"

definition tst_newfork :: "te_state \<Rightarrow> timestamp option \<Rightarrow> (timestamp \<times> te_state) option" where
  "tst_newfork s old_tst = do {
     nofork \<leftarrow> (case old_tst of
        None \<Rightarrow> if te_root s = None then Some False else None
      | Some t \<Rightarrow> do {
          a \<leftarrow> tst_te t;
          n \<leftarrow> te_mem s a;
          Some (te_nproc n = 1 \<or> te_subheight n + te_len n \<ge> MAXDEPTH)
        });
     if nofork then map_option (\<lambda>t. (t, s)) old_tst
     else (let (new_te, s1) = te_calloc s; (e, s2) = new_epoch s1 in do {
       s3 \<leftarrow> te_upd new_te (\<lambda>n. n\<lparr>te_rise := e, te_viewid := nextviewid s2\<rparr>) s2;
       let s4 = s3\<lparr>nextviewid := ul_inc (nextviewid s3)\<rparr>;
       let rv = \<lparr>tst_epoch = e, tst_te = Some new_te\<rparr>;
       if te_root s4 = None then Some (rv, s4\<lparr>te_root := Some new_te\<rparr>)
       else do {
         t \<leftarrow> old_tst;
         old_te \<leftarrow> tst_te t;
         s5 \<leftarrow> te_split s4 new_te old_te;
         Some (rv, s5)
       }
     })
   }"

definition tst_newproc :: "te_state \<Rightarrow> timestamp \<Rightarrow> (timestamp \<times> te_state) option" where
  "tst_newproc s parent_tst = do {
     s' \<leftarrow> te_newproc s (tst_te parent_tst);
     Some (parent_tst, s')
   }"

definition tst_delproc :: "te_state \<Rightarrow> timestamp \<Rightarrow> te_state option" where
  "tst_delproc s tst = te_delproc s (tst_te tst)"

definition te_getviewid :: "te_state \<Rightarrow> addr \<Rightarrow> nat option" where
  "te_getviewid s te = map_option te_viewid (te_mem s te)"

text \<open>\<open>strndup(name,_UTSNAME_LENGTH-1)\<close>, with \<open>_UTSNAME_LENGTH\<close> = 65 on Linux.\<close>

definition te_setviewname :: "te_state \<Rightarrow> addr \<Rightarrow> string \<Rightarrow> te_state option" where
  "te_setviewname s te name = te_upd te (\<lambda>n. n\<lparr>te_viewname := Some (take (65 - 1) name)\<rparr>) s"

definition te_getviewname :: "te_state \<Rightarrow> addr \<Rightarrow> string option option" where
  "te_getviewname s te = map_option te_viewname (te_mem s te)"

definition te_sameview :: "te_state \<Rightarrow> addr \<Rightarrow> addr \<Rightarrow> bool option" where
  "te_sameview s te1 te2 = do {
     n1 \<leftarrow> te_mem s te1;
     n2 \<leftarrow> te_mem s te2;
     Some (te_len n1 = te_len n2 \<and> \<not> diffbitstr (te_bitstr n1) (te_bitstr n2) (te_len n1))
   }"

definition te_sameview_or_next :: "te_state \<Rightarrow> addr \<Rightarrow> addr \<Rightarrow> bool option" where
  "te_sameview_or_next s te1 te2 = do {
     n1 \<leftarrow> te_mem s te1;
     n2 \<leftarrow> te_mem s te2;
     Some (\<not> diffbitstr (te_bitstr n1) (te_bitstr n2) (te_len n1))
   }"

text \<open>The recursive functions are executable by their own equations.\<close>

declare match_dead.simps [code] match_rise.simps [code] de_update_substr.simps [code]
  de_update_height.simps [code] te_delproc.simps [code] te_newproc.simps [code]

end
