(* ===== verification/Hashtab.thy ===== *)
theory Hashtab
  imports Treepoch
begin

text \<open>
  xmview/hashtab.c: the table of mounts, modules and other virtualised objects.  Elements live on
  a heap; each is on a hash chain (\<open>nexthash\<close>/\<open>pprevhash\<close>) and on the circular list of its type
  (\<open>next\<close>/\<open>prev\<close>).  A C string is the list of its characters with the final NUL; reading past the
  end of an object fails (\<open>None\<close>).  Function pointers are numbers; what the functions of modules
  answer is a parameter of the definitions that call them.
\<close>

section \<open>Constants (services.h, hashtab.h)\<close>

definition PSEUDO_CHECK :: nat where "PSEUDO_CHECK = 0x80"
definition CHECKMODULE :: nat where "CHECKMODULE = 0"
definition CHECKPATH :: nat where "CHECKPATH = 1"
definition CHECKSOCKET :: nat where "CHECKSOCKET = 2"
definition CHECKCHRDEVICE :: nat where "CHECKCHRDEVICE = 3"
definition CHECKBLKDEVICE :: nat where "CHECKBLKDEVICE = 4"
definition CHECKSC :: nat where "CHECKSC = 5"
definition CHECKBINFMT :: nat where "CHECKBINFMT = 6"
definition CHECKFSALIAS :: nat where "CHECKFSALIAS = 7"
definition NCHECKS :: nat where "NCHECKS = 8"
definition CHECKFSTYPE :: nat where "CHECKFSTYPE = (PSEUDO_CHECK OR CHECKMODULE)"
definition CHECKPATHEXACT :: nat where "CHECKPATHEXACT = (PSEUDO_CHECK OR CHECKPATH)"

lemmas check_defs = PSEUDO_CHECK_def CHECKMODULE_def CHECKPATH_def CHECKSOCKET_def CHECKCHRDEVICE_def
  CHECKBLKDEVICE_def CHECKSC_def CHECKBINFMT_def CHECKFSALIAS_def NCHECKS_def CHECKFSTYPE_def
  CHECKPATHEXACT_def

definition MNTTAB_HASH_SIZE :: nat where "MNTTAB_HASH_SIZE = 512"

section \<open>Elements and tables\<close>

text \<open>\<open>confirmfun_t\<close>: NULL, the mark of a negative mount, or a function of a module.\<close>

datatype confirmfun_t = NO_CONFIRM | NEGATIVE_MOUNT | CONFIRM nat

text \<open>\<open>struct ht_elem **\<close>: an entry of \<open>ht_hash\<close> or \<open>ht_hash0\<close>, or the field \<open>nexthash\<close> of an element.\<close>

datatype hptr = PHash nat | PHash0 nat | PNext addr

record ht_elem =
  ht_obj :: string
  ht_mtabline :: "string option"
  ht_mountflags :: u64
  ht_tst :: timestamp
  ht_type :: nat
  ht_trailingnumbers :: bool
  ht_invalid :: bool
  ht_service :: "addr option"
  ht_service_hte :: "addr option"
  ht_private_data :: "addr option"
  ht_objlen :: nat
  ht_hashsum :: u64
  ht_count :: s32
  ht_confirmfun :: confirmfun_t
  ht_prev :: addr
  ht_next :: addr
  ht_pprevhash :: hptr
  ht_nexthash :: "addr option"

text \<open>\<open>struct service\<close>: what this file reads of it.  A NULL function is \<open>None\<close>.\<close>

record service =
  sv_name :: string
  sv_destructor :: "nat option"
  sv_ioctlparms :: "nat option"
  sv_event_subscribe :: "nat option"
  sv_um_syscall :: "nat \<Rightarrow> nat option"
  sv_um_socket :: "nat \<Rightarrow> nat option"
  sv_um_virsc :: "(nat \<Rightarrow> nat option) option"

text \<open>Calls that leave the table: the upcall of \<open>ht_init\<close> and the destructors of the modules.\<close>

datatype ht_event =
    HT_ADD nat string u64
  | HT_DEL nat string u64
  | Destructor nat nat addr

record ht_tab =
  ht_mem :: "addr \<rightharpoonup> ht_elem"
  ht_brk :: addr
  ht_hash :: "nat \<Rightarrow> addr option"
  ht_hash0 :: "nat \<Rightarrow> addr option"
  ht_head :: "nat \<Rightarrow> addr option"
  ht_te :: te_state
  ht_services :: "addr \<rightharpoonup> service"
  ht_log :: "ht_event list"

definition ht_init_tab :: "te_state \<Rightarrow> (addr \<rightharpoonup> service) \<Rightarrow> ht_tab" where
  "ht_init_tab te sv = \<lparr>ht_mem = Map.empty, ht_brk = 0, ht_hash = (\<lambda>_. None), ht_hash0 = (\<lambda>_. None),
     ht_head = (\<lambda>_. None), ht_te = te, ht_services = sv, ht_log = []\<rparr>"

text \<open>Writing a field of an element, and reading and writing through a \<open>struct ht_elem **\<close>.\<close>

definition ht_upd :: "addr \<Rightarrow> (ht_elem \<Rightarrow> ht_elem) \<Rightarrow> ht_tab \<Rightarrow> ht_tab option" where
  "ht_upd a f s = (case ht_mem s a of None \<Rightarrow> None
     | Some e \<Rightarrow> Some (s\<lparr>ht_mem := (ht_mem s)(a \<mapsto> f e)\<rparr>))"

definition hp_get :: "ht_tab \<Rightarrow> hptr \<Rightarrow> addr option option" where
  "hp_get s p = (case p of PHash i \<Rightarrow> Some (ht_hash s i) | PHash0 t \<Rightarrow> Some (ht_hash0 s t)
     | PNext a \<Rightarrow> map_option ht_nexthash (ht_mem s a))"

definition hp_set :: "ht_tab \<Rightarrow> hptr \<Rightarrow> addr option \<Rightarrow> ht_tab option" where
  "hp_set s p v = (case p of PHash i \<Rightarrow> Some (s\<lparr>ht_hash := (ht_hash s)(i := v)\<rparr>)
     | PHash0 t \<Rightarrow> Some (s\<lparr>ht_hash0 := (ht_hash0 s)(t := v)\<rparr>)
     | PNext a \<Rightarrow> ht_upd a (\<lambda>e. e\<lparr>ht_nexthash := v\<rparr>) s)"

section \<open>Hash function\<close>

definition hashadd :: "u64 \<Rightarrow> char \<Rightarrow> u64" where
  "hashadd prevhash c =
     prevhash XOR (push_bit 5 prevhash + signed_drop_bit 2 prevhash + scast (of_char c :: 8 word))"

definition hashmod :: "u64 \<Rightarrow> nat" where
  "hashmod hashsum = unat (hashsum AND of_nat (MNTTAB_HASH_SIZE - 1))"

definition hashsum :: "nat \<Rightarrow> string \<Rightarrow> nat \<Rightarrow> u64" where
  "hashsum type c len = foldl hashadd (of_nat type) (take len c)"

section \<open>Carrots\<close>

type_synonym carrot = "(addr \<times> epoch_t) list"

definition ht_elem_has_exceptions :: "ht_tab \<Rightarrow> addr \<Rightarrow> bool" where
  "ht_elem_has_exceptions s a = (case ht_mem s a of None \<Rightarrow> False | Some e \<Rightarrow> ht_confirmfun e \<noteq> NO_CONFIRM)"

fun carrot_insert :: "(addr \<Rightarrow> bool) \<Rightarrow> carrot \<Rightarrow> addr \<Rightarrow> epoch_t \<Rightarrow> carrot" where
  "carrot_insert exc [] elem time = [(elem, time)]"
| "carrot_insert exc ((h, t) # car) elem time =
     (if t < time then (if exc elem then (elem, time) # (h, t) # car else [(elem, time)])
      else if exc h then (h, t) # carrot_insert exc car elem time
      else (h, t) # car)"

fun carrot_delete :: "carrot \<Rightarrow> addr option \<Rightarrow> carrot" where
  "carrot_delete [] elem = []"
| "carrot_delete ((h, t) # car) elem = (if Some h = elem then car else (h, t) # carrot_delete car elem)"

section \<open>Scanning a key\<close>

abbreviation NUL :: char where "NUL \<equiv> CHR 0x00"

definition is_digit :: "char \<Rightarrow> bool" where
  "is_digit c \<longleftrightarrow> 48 \<le> (of_char c :: nat) \<and> (of_char c :: nat) \<le> 57"

definition digit_val :: "char \<Rightarrow> nat" where
  "digit_val c = of_char c - 48"

fun trailnum_loop :: "string \<Rightarrow> nat \<Rightarrow> nat option" where
  "trailnum_loop [] nonzero = None"
| "trailnum_loop (c # s) nonzero =
     (if c = NUL then Some nonzero
      else if \<not> is_digit c then Some 0
      else trailnum_loop s (nonzero OR digit_val c))"

fun trailnum :: "string \<Rightarrow> nat option" where
  "trailnum [] = None"
| "trailnum (c # s) = (if \<not> is_digit c then Some 0 else trailnum_loop s (0 OR digit_val c))"

definition deref :: "string \<Rightarrow> char option" where
  "deref s = (case s of [] \<Rightarrow> None | c # _ \<Rightarrow> Some c)"

definition ht_scan_stop :: "nat \<Rightarrow> string \<Rightarrow> nat \<Rightarrow> bool \<Rightarrow> bool option" where
  "ht_scan_stop type objc len exact =
     (if type = CHECKPATH then do {
        c \<leftarrow> deref objc;
        if c = NUL then Some True
        else if exact then Some False
        else if c = CHR ''/'' then Some True
        else map_option (\<lambda>n. n \<noteq> 0) (trailnum objc)
      }
      else if type = CHECKBINFMT then do {
        c \<leftarrow> deref objc;
        Some (c = NUL \<or> (\<not> exact \<and> c = CHR ''/''))
      }
      else if type \<in> {CHECKSOCKET, CHECKCHRDEVICE, CHECKBLKDEVICE, CHECKSC} then Some (len mod 4 = 0)
      else if type = CHECKFSALIAS then map_option (\<lambda>c. c = NUL) (deref objc)
      else if type = CHECKMODULE then
        (if exact then map_option (\<lambda>c. c = NUL) (deref objc) else Some True)
      else Some False)"

definition ht_scan_terminate :: "nat \<Rightarrow> string \<Rightarrow> nat \<Rightarrow> nat \<Rightarrow> bool option" where
  "ht_scan_terminate type objc len objlen =
     (if type \<in> {CHECKPATH, CHECKBINFMT, CHECKFSALIAS, CHECKMODULE} then
        map_option (\<lambda>c. c = NUL) (deref objc)
      else if type \<in> {CHECKSOCKET, CHECKCHRDEVICE, CHECKBLKDEVICE, CHECKSC} then Some (len = objlen)
      else Some False)"

section \<open>Search\<close>

text \<open>The fields of the calling process (\<open>struct pcb\<close>) a search reads and writes.\<close>

record um_ctx =
  cx_tst :: timestamp            \<comment> \<open>\<open>um_x_gettst()\<close>\<close>
  cx_nestepoch :: epoch_t
  cx_hte :: "addr option"        \<comment> \<open>\<open>um_mod_get_hte()\<close>\<close>

definition um_setnestepoch :: "um_ctx \<Rightarrow> epoch_t \<Rightarrow> epoch_t \<times> um_ctx" where
  "um_setnestepoch cx epoch =
     (cx_nestepoch cx, if epoch > 0 then cx\<lparr>cx_nestepoch := epoch\<rparr> else cx)"

text \<open>What a confirmation function answers: function, type, key, length and element.\<close>

type_synonym confirms = "nat \<Rightarrow> um_ctx \<Rightarrow> nat \<Rightarrow> string \<Rightarrow> nat \<Rightarrow> addr \<Rightarrow> int"

definition call_confirmfun ::
  "confirms \<Rightarrow> um_ctx \<Rightarrow> nat \<Rightarrow> nat \<Rightarrow> string \<Rightarrow> nat \<Rightarrow> addr \<Rightarrow> ht_elem \<Rightarrow> int \<times> um_ctx" where
  "call_confirmfun cf cx confirmfun type checkobj len ht e =
     (let (epoch, cx1) = um_setnestepoch cx (tst_epoch (ht_tst e));
          ht_old = cx_hte cx1;
          cx2 = cx1\<lparr>cx_hte := Some ht\<rparr>;
          rv = cf confirmfun cx2 type checkobj len ht;
          (_, cx3) = um_setnestepoch cx2 epoch
      in (rv, if rv = 0 then cx3\<lparr>cx_hte := ht_old\<rparr> else cx3))"

text \<open>The condition on an element of the chain; \<open>Some e\<close> if it holds, with its epoch.\<close>

definition ht_elem_matches ::
  "ht_tab \<Rightarrow> timestamp \<Rightarrow> nat \<Rightarrow> string \<Rightarrow> nat \<Rightarrow> u64 \<Rightarrow> addr \<Rightarrow> (epoch_t option \<times> ht_tab) option" where
  "ht_elem_matches s tst type obj len hsum a = do {
     ht \<leftarrow> ht_mem s a;
     if \<not> (type = ht_type ht \<and> hsum = ht_hashsum ht \<and> ht_objlen ht \<ge> len \<and>
            take len obj = take len (ht_obj ht)) then Some (None, s)
     else do {
       tn \<leftarrow> (if ht_trailingnumbers ht then Some 0 else trailnum (drop len obj));
       if tn \<noteq> 0 \<or> \<not> (tst_epoch tst > tst_epoch (ht_tst ht)) then Some (None, s)
       else do {
         (e, st') \<leftarrow> tst_matchingepoch (ht_te s) (Some tst) (ht_tst ht);
         s1 \<leftarrow> ht_upd a (\<lambda>ht. ht\<lparr>ht_tst := st'\<rparr>) s;
         Some (if e > 0 \<and> \<not> ht_invalid ht then Some e else None, s1)
       }
     }
   }"

partial_function (option) ht_chain_scan ::
  "ht_tab \<Rightarrow> timestamp \<Rightarrow> nat \<Rightarrow> string \<Rightarrow> nat \<Rightarrow> u64 \<Rightarrow> addr option \<Rightarrow> carrot \<Rightarrow> (carrot \<times> ht_tab) option" where
  "ht_chain_scan s tst type obj len hsum p carh =
     (case p of
        None \<Rightarrow> Some (carh, s)
      | Some a \<Rightarrow> do {
          (me, s1) \<leftarrow> ht_elem_matches s tst type obj len hsum a;
          ht \<leftarrow> ht_mem s1 a;
          let carh1 = (case me of None \<Rightarrow> carh
                | Some e \<Rightarrow> if ht_confirmfun ht = NEGATIVE_MOUNT then carrot_delete carh (ht_private_data ht)
                            else carrot_insert (ht_elem_has_exceptions s1) carh a e);
          ht_chain_scan s1 tst type obj len hsum (ht_nexthash ht) carh1
        })"

text \<open>The loop over the key; it ends with the length reached and the carrot.\<close>

function ht_search_loop ::
  "ht_tab \<Rightarrow> timestamp \<Rightarrow> nat \<Rightarrow> string \<Rightarrow> nat \<Rightarrow> bool \<Rightarrow> nat \<Rightarrow> u64 \<Rightarrow> carrot \<Rightarrow> (nat \<times> carrot \<times> ht_tab) option" where
  "ht_search_loop s tst type obj objlen exact len hsum carh = do {
     stop \<leftarrow> ht_scan_stop type (drop len obj) len exact;
     (done, carh1, s1) \<leftarrow> (if stop then do {
         (carh1, s1) \<leftarrow> ht_chain_scan s tst type obj len hsum
            (if len \<noteq> 0 then ht_hash s (hashmod hsum) else ht_hash0 s type) carh;
         t \<leftarrow> ht_scan_terminate type (drop len obj) len objlen;
         Some (t, carh1, s1)
       } else Some (False, carh, s));
     if done then Some (len, carh1, s1)
     else if len < length obj then
       ht_search_loop s1 tst type obj objlen exact (len + 1) (hashadd hsum (obj ! len)) carh1
     else None
   }"
  by pat_completeness auto
termination
  by (relation "measure (\<lambda>(s, tst, type, obj, objlen, exact, len, hsum, carh). length obj - len)") auto

fun carrot_confirm ::
  "confirms \<Rightarrow> ht_tab \<Rightarrow> um_ctx \<Rightarrow> nat \<Rightarrow> string \<Rightarrow> nat \<Rightarrow> carrot \<Rightarrow> (addr option \<times> um_ctx) option" where
  "carrot_confirm cf s cx type checkobj len [] = Some (None, cx)"
| "carrot_confirm cf s cx type checkobj len ((a, t) # car) = (case ht_mem s a of None \<Rightarrow> None
     | Some ht \<Rightarrow>
         (case ht_confirmfun ht of
            NO_CONFIRM \<Rightarrow> Some (Some a, cx)
          | NEGATIVE_MOUNT \<Rightarrow> None
          | CONFIRM f \<Rightarrow>
              (let (rv, cx1) = call_confirmfun cf cx f type checkobj len a ht in
               if rv \<noteq> 0 then Some (Some a, cx1)
               else carrot_confirm cf s cx1 type checkobj len car)))"

definition ht_tab_internal_search ::
  "confirms \<Rightarrow> ht_tab \<Rightarrow> um_ctx \<Rightarrow> nat \<Rightarrow> string \<Rightarrow> nat \<Rightarrow> string \<Rightarrow> bool \<Rightarrow>
     (addr option \<times> um_ctx \<times> ht_tab) option" where
  "ht_tab_internal_search cf s cx type obj objlen checkobj exact = do {
     (len, carh, s1) \<leftarrow> ht_search_loop s (cx_tst cx) type obj objlen exact 0 (of_nat type) [];
     (rv, cx1) \<leftarrow> carrot_confirm cf s1 cx type checkobj len carh;
     Some (rv, cx1, s1)
   }"

definition ht_tab_pathsearch ::
  "confirms \<Rightarrow> ht_tab \<Rightarrow> um_ctx \<Rightarrow> nat \<Rightarrow> string \<Rightarrow> bool \<Rightarrow> (addr option \<times> um_ctx \<times> ht_tab) option" where
  "ht_tab_pathsearch cf s cx type obj exact = ht_tab_internal_search cf s cx type obj 0 obj exact"

text \<open>The path of a \<open>struct binfmt_req\<close> stands for the request.\<close>

definition ht_tab_binfmtsearch ::
  "confirms \<Rightarrow> ht_tab \<Rightarrow> um_ctx \<Rightarrow> nat \<Rightarrow> string \<Rightarrow> bool \<Rightarrow> (addr option \<times> um_ctx \<times> ht_tab) option" where
  "ht_tab_binfmtsearch cf s cx type req_path exact =
     ht_tab_internal_search cf s cx type req_path 0 req_path exact"

definition ht_tab_search ::
  "confirms \<Rightarrow> ht_tab \<Rightarrow> um_ctx \<Rightarrow> nat \<Rightarrow> string \<Rightarrow> nat \<Rightarrow> bool \<Rightarrow> (addr option \<times> um_ctx \<times> ht_tab) option" where
  "ht_tab_search cf s cx type obj objlen exact = ht_tab_internal_search cf s cx type obj objlen obj exact"

section \<open>Adding elements\<close>

text \<open>
  \<open>ht_is_obj_string\<close> is 0.  \<open>m1\<close> and \<open>m2\<close> say whether the two calls of \<open>malloc\<close> succeed; \<open>pt\<close> is
  the time stamp of the calling process.  A new element has all its fields set before it is
  linked.
\<close>

definition ht_new_elem ::
  "timestamp \<Rightarrow> nat \<Rightarrow> string \<Rightarrow> nat \<Rightarrow> u64 \<Rightarrow> string option \<Rightarrow> addr option \<Rightarrow> bool \<Rightarrow> confirmfun_t \<Rightarrow>
     addr option \<Rightarrow> ht_elem" where
  "ht_new_elem tst type obj objlen mountflags mtabline service trailingnumbers confirmfun private_data =
     \<lparr>ht_obj = take objlen obj, ht_mtabline = mtabline, ht_mountflags = mountflags, ht_tst = tst,
      ht_type = type, ht_trailingnumbers = trailingnumbers, ht_invalid = False, ht_service = service,
      ht_service_hte = None, ht_private_data = private_data, ht_objlen = objlen,
      ht_hashsum = hashsum type (take objlen obj) objlen, ht_count = 0, ht_confirmfun = confirmfun,
      ht_prev = 0, ht_next = 0, ht_pprevhash = PHash 0, ht_nexthash = None\<rparr>"

definition ht_link_type :: "addr \<Rightarrow> nat \<Rightarrow> ht_tab \<Rightarrow> ht_tab option" where
  "ht_link_type new type s = (case ht_head s type of
       Some h \<Rightarrow> do {
         hd \<leftarrow> ht_mem s h;
         s \<leftarrow> ht_upd new (\<lambda>e. e\<lparr>ht_next := ht_next hd, ht_prev := h\<rparr>) s;
         ne \<leftarrow> ht_mem s new;
         s \<leftarrow> ht_upd (ht_next ne) (\<lambda>e. e\<lparr>ht_prev := new\<rparr>) s;
         s \<leftarrow> ht_upd (ht_prev ne) (\<lambda>e. e\<lparr>ht_next := new\<rparr>) s;
         Some (s\<lparr>ht_head := (ht_head s)(type \<mapsto> new)\<rparr>)
       }
     | None \<Rightarrow> do {
         s \<leftarrow> ht_upd new (\<lambda>e. e\<lparr>ht_next := new, ht_prev := new\<rparr>) s;
         Some (s\<lparr>ht_head := (ht_head s)(type \<mapsto> new)\<rparr>)
       })"

definition ht_link_hash :: "addr \<Rightarrow> hptr \<Rightarrow> ht_tab \<Rightarrow> ht_tab option" where
  "ht_link_hash new hashhead s = do {
     old \<leftarrow> hp_get s hashhead;
     s \<leftarrow> (case old of Some o1 \<Rightarrow> ht_upd o1 (\<lambda>e. e\<lparr>ht_pprevhash := PNext new\<rparr>) s | None \<Rightarrow> Some s);
     s \<leftarrow> ht_upd new (\<lambda>e. e\<lparr>ht_nexthash := old, ht_pprevhash := hashhead\<rparr>) s;
     hp_set s hashhead (Some new)
   }"

definition internal_ht_tab_add ::
  "bool \<Rightarrow> bool \<Rightarrow> ht_tab \<Rightarrow> timestamp \<Rightarrow> nat \<Rightarrow> string \<Rightarrow> nat \<Rightarrow> u64 \<Rightarrow> string option \<Rightarrow> addr option \<Rightarrow> bool \<Rightarrow>
     confirmfun_t \<Rightarrow> addr option \<Rightarrow> (addr option \<times> ht_tab) option" where
  "internal_ht_tab_add m1 m2 s pt type obj objlen mountflags mtabline service trailingnumbers confirmfun
       private_data =
     (if \<not> type < NCHECKS then None
      else if \<not> m1 \<or> \<not> m2 then Some (None, s)
      else if length obj < objlen then None
      else
        let (tst, te) = tst_timestamp (ht_te s) pt;
            new = ht_brk s;
            e = ht_new_elem tst type obj objlen mountflags mtabline service trailingnumbers confirmfun
                  private_data;
            hashhead = (if objlen = 0 then PHash0 type else PHash (hashmod (ht_hashsum e)));
            s0 = s\<lparr>ht_mem := (ht_mem s)(new \<mapsto> e), ht_brk := new + 1, ht_te := te\<rparr>
        in do {
          s1 \<leftarrow> ht_link_type new type s0;
          s2 \<leftarrow> ht_link_hash new hashhead s1;
          Some (Some new, s2\<lparr>ht_log := ht_log s2 @ [HT_ADD type (take objlen obj) mountflags]\<rparr>)
        })"

definition ht_tab_add ::
  "bool \<Rightarrow> bool \<Rightarrow> ht_tab \<Rightarrow> timestamp \<Rightarrow> nat \<Rightarrow> string \<Rightarrow> nat \<Rightarrow> addr option \<Rightarrow> confirmfun_t \<Rightarrow> addr option \<Rightarrow>
     (addr option \<times> ht_tab) option" where
  "ht_tab_add m1 m2 s pt type obj objlen service confirmfun private_data =
     internal_ht_tab_add m1 m2 s pt type obj objlen 0 None service True confirmfun private_data"

text \<open>\<open>strstr\<close>: the position of the first occurrence.\<close>

fun strstr :: "string \<Rightarrow> string \<Rightarrow> nat option" where
  "strstr [] needle = (if needle = [] then Some 0 else None)"
| "strstr (c # s) needle = (if take (length needle) (c # s) = needle then Some 0
     else map_option Suc (strstr s needle))"

definition opt_word :: "string \<Rightarrow> string \<Rightarrow> bool" where
  "opt_word opts w = (case strstr opts w of None \<Rightarrow> False
     | Some i \<Rightarrow> (i = 0 \<or> opts ! (i - 1) = CHR '','') \<and>
         (i + length w = length opts \<or> opts ! (i + length w) = CHR '',''))"

definition permanent_mount :: "string option \<Rightarrow> bool" where
  "permanent_mount opts = (case opts of None \<Rightarrow> False
     | Some s \<Rightarrow> opt_word s ''permanent'' \<or> opt_word s ''perm'')"

definition PATH_MAX :: nat where "PATH_MAX = 4096"

definition MS_RDONLY :: u64 where "MS_RDONLY = 1"
definition MS_NOSUID :: u64 where "MS_NOSUID = 2"
definition MS_NODEV :: u64 where "MS_NODEV = 4"
definition MS_NOEXEC :: u64 where "MS_NOEXEC = 8"
definition MS_SYNCHRONOUS :: u64 where "MS_SYNCHRONOUS = 16"
definition MS_REMOUNT :: u64 where "MS_REMOUNT = 32"
definition MS_NOATIME :: u64 where "MS_NOATIME = 1024"

text \<open>\<open>strncat(opts,x,PATH_MAX)\<close> on the buffer \<open>char opts[PATH_MAX]\<close>: it fails when the result does not fit.\<close>

definition opts_cat :: "string \<Rightarrow> string \<Rightarrow> string option" where
  "opts_cat opts x = (let r = opts @ take PATH_MAX x in if length r < PATH_MAX then Some r else None)"

definition opts_flag :: "u64 \<Rightarrow> u64 \<Rightarrow> string \<Rightarrow> string \<Rightarrow> string option" where
  "opts_flag mountflags flag x opts = (if mountflags AND flag \<noteq> 0 then opts_cat opts x else Some opts)"

definition mount_options :: "u64 \<Rightarrow> string option \<Rightarrow> string option" where
  "mount_options mountflags mountopts = do {
     o1 \<leftarrow> opts_flag mountflags MS_REMOUNT ''remount,'' [];
     o2 \<leftarrow> opts_flag mountflags MS_RDONLY ''ro,'' o1;
     o3 \<leftarrow> opts_flag mountflags MS_NOATIME ''noatime,'' o2;
     o4 \<leftarrow> opts_flag mountflags MS_NODEV ''nodev,'' o3;
     o5 \<leftarrow> opts_flag mountflags MS_NOEXEC ''noexec,'' o4;
     o6 \<leftarrow> opts_flag mountflags MS_NOSUID ''nosuid,'' o5;
     o7 \<leftarrow> opts_flag mountflags MS_SYNCHRONOUS ''sync,'' o6;
     if mountopts \<noteq> None \<and> mountopts \<noteq> Some [] then opts_cat o7 (the mountopts)
     else if o7 \<noteq> [] then Some (butlast o7)
     else Some ''rw''
   }"

text \<open>The decimal representation of a \<open>long long\<close>.\<close>

fun dec_of_nat :: "nat \<Rightarrow> string" where
  "dec_of_nat n = (if n < 10 then [char_of (48 + n)] else dec_of_nat (n div 10) @ [char_of (48 + n mod 10)])"

definition dec_of_int :: "int \<Rightarrow> string" where
  "dec_of_int i = (if i < 0 then CHR ''-'' # dec_of_nat (nat (- i)) else dec_of_nat (nat i))"

definition mtab_line ::
  "confirmfun_t \<Rightarrow> string \<Rightarrow> string \<Rightarrow> string \<Rightarrow> string \<Rightarrow> epoch_t \<Rightarrow> string" where
  "mtab_line confirmfun source path fstype opts e =
     (if confirmfun = NEGATIVE_MOUNT then ''-'' else []) @ source @ '' '' @ path @ '' '' @ fstype @ '' '' @
     opts @ '' 0 '' @ dec_of_int e"

text \<open>\<open>path\<close> is a string without its NUL; reading \<open>path[1]\<close> of the empty string fails.\<close>

definition ht_tab_pathadd ::
  "bool \<Rightarrow> bool \<Rightarrow> ht_tab \<Rightarrow> timestamp \<Rightarrow> nat \<Rightarrow> string option \<Rightarrow> string \<Rightarrow> string \<Rightarrow> u64 \<Rightarrow> string option \<Rightarrow>
     addr option \<Rightarrow> bool \<Rightarrow> confirmfun_t \<Rightarrow> addr option \<Rightarrow> (addr option \<times> ht_tab) option" where
  "ht_tab_pathadd m1 m2 s pt type source path fstype mountflags mountopts service trailingnumbers confirmfun
       private_data = do {
     mtabline \<leftarrow> (case source of
         Some src \<Rightarrow> map_option (\<lambda>opts. Some (mtab_line confirmfun src path fstype opts (get_epoch (ht_te s))))
                       (mount_options mountflags mountopts)
       | None \<Rightarrow> Some None);
     addpath \<leftarrow> (if path = [] then None else Some (if path = ''/'' then [] else path));
     (rv, s1) \<leftarrow> internal_ht_tab_add m1 m2 s pt type addpath (length addpath) mountflags mtabline service
        trailingnumbers confirmfun private_data;
     if permanent_mount mountopts then do {
       a \<leftarrow> rv;
       s2 \<leftarrow> ht_upd a (\<lambda>e. e\<lparr>ht_count := ht_count e + 1\<rparr>) s1;
       Some (rv, s2)
     } else Some (rv, s1)
   }"

section \<open>Deleting elements\<close>

definition ht_tab_del_locked :: "ht_tab \<Rightarrow> addr \<Rightarrow> ht_tab option" where
  "ht_tab_del_locked s ht = do {
     e \<leftarrow> ht_mem s ht;
     let s1 = (if ht_head s (ht_type e) = Some ht then
         s\<lparr>ht_head := (ht_head s)(ht_type e := (if ht_next e = ht then None else Some (ht_prev e)))\<rparr> else s);
     s2 \<leftarrow> ht_upd (ht_prev e) (\<lambda>p. p\<lparr>ht_next := ht_next e\<rparr>) s1;
     e2 \<leftarrow> ht_mem s2 ht;
     s3 \<leftarrow> ht_upd (ht_next e2) (\<lambda>n. n\<lparr>ht_prev := ht_prev e2\<rparr>) s2;
     s4 \<leftarrow> hp_set s3 (ht_pprevhash e) (ht_nexthash e);
     s5 \<leftarrow> (case ht_nexthash e of
         Some n \<Rightarrow> ht_upd n (\<lambda>x. x\<lparr>ht_pprevhash := ht_pprevhash e\<rparr>) s4 | None \<Rightarrow> Some s4);
     Some (s5\<lparr>ht_mem := (ht_mem s5)(ht := None)\<rparr>)
   }"

definition ht_tab_invalidate :: "ht_tab \<Rightarrow> addr option \<Rightarrow> ht_tab option" where
  "ht_tab_invalidate s ht = (case ht of None \<Rightarrow> Some s | Some a \<Rightarrow> ht_upd a (\<lambda>e. e\<lparr>ht_invalid := True\<rparr>) s)"

text \<open>The destructor of the service, if it has one (the destructors do not change the table).\<close>

definition ht_destruct :: "ht_tab \<Rightarrow> addr \<Rightarrow> ht_elem \<Rightarrow> ht_tab option" where
  "ht_destruct s a e =
     (if ht_invalid e then Some s
      else case ht_service e of None \<Rightarrow> Some s
      | Some sv \<Rightarrow> do {
          srv \<leftarrow> ht_services s sv;
          Some (case sv_destructor srv of None \<Rightarrow> s
                | Some d \<Rightarrow> s\<lparr>ht_log := ht_log s @ [Destructor d (ht_type e) a]\<rparr>)
        })"

definition ENOENT :: int where "ENOENT = 2"

definition ht_tab_del :: "ht_tab \<Rightarrow> addr option \<Rightarrow> (int \<times> ht_tab) option" where
  "ht_tab_del s ht = (case ht of
     None \<Rightarrow> Some (- ENOENT, s)
   | Some a \<Rightarrow> do {
       e \<leftarrow> ht_mem s a;
       let s1 = s\<lparr>ht_log := ht_log s @ [HT_DEL (ht_type e) (ht_obj e) (ht_mountflags e)]\<rparr>;
       s2 \<leftarrow> ht_destruct s1 a e;
       s3 \<leftarrow> ht_tab_del_locked s2 a;
       Some (0, s3)
     })"

section \<open>Searching API\<close>

text \<open>What \<open>ht_check\<close> reads of a \<open>struct stat64\<close>.\<close>

record stat64 =
  st_mode :: nat
  st_rdev :: "64 word"

definition S_IFMT :: nat where "S_IFMT = 0xF000"
definition S_ISCHR :: "nat \<Rightarrow> bool" where "S_ISCHR mode \<longleftrightarrow> mode AND S_IFMT = 0x2000"
definition S_ISBLK :: "nat \<Rightarrow> bool" where "S_ISBLK mode \<longleftrightarrow> mode AND S_IFMT = 0x6000"

text \<open>The bytes of a \<open>dev_t\<close>, least significant first.\<close>

definition dev_bytes :: "64 word \<Rightarrow> string" where
  "dev_bytes d = map (\<lambda>i. char_of (unat (drop_bit (8 * i) d) mod 256)) [0..<8]"

definition ht_check_dev ::
  "confirms \<Rightarrow> ht_tab \<Rightarrow> um_ctx \<Rightarrow> nat \<Rightarrow> stat64 \<Rightarrow> addr option \<Rightarrow> (addr option \<times> um_ctx \<times> ht_tab) option" where
  "ht_check_dev cf s cx type st hte = do {
     (devhte, cx1, s1) \<leftarrow> ht_tab_search cf s cx type (dev_bytes (st_rdev st)) 8 False;
     Some (if devhte \<noteq> None then devhte else hte, cx1, s1)
   }"

definition ht_check ::
  "confirms \<Rightarrow> ht_tab \<Rightarrow> um_ctx \<Rightarrow> nat \<Rightarrow> string \<Rightarrow> stat64 option \<Rightarrow> bool \<Rightarrow> (addr option \<times> um_ctx \<times> ht_tab) option" where
  "ht_check cf s cx type arg st setepoch = do {
     (hte, cx1, s1) \<leftarrow>
       (if type = CHECKPATH then do {
          (hte, cx1, s1) \<leftarrow> ht_tab_pathsearch cf s cx type arg False;
          (case st of None \<Rightarrow> Some (hte, cx1, s1)
           | Some b \<Rightarrow> if S_ISCHR (st_mode b) then ht_check_dev cf s1 cx1 CHECKCHRDEVICE b hte
                      else if S_ISBLK (st_mode b) then ht_check_dev cf s1 cx1 CHECKBLKDEVICE b hte
                      else Some (hte, cx1, s1))
        }
        else if type = CHECKPATHEXACT then ht_tab_pathsearch cf s cx CHECKPATH arg True
        else if type \<in> {CHECKCHRDEVICE, CHECKBLKDEVICE} then ht_tab_search cf s cx type arg (2 * 4) False
        else if type \<in> {CHECKSOCKET, CHECKSC} then ht_tab_search cf s cx type arg (1 * 4) False
        else if type \<in> {CHECKFSALIAS, CHECKMODULE} then ht_tab_search cf s cx type arg 0 True
        else if type = CHECKFSTYPE then ht_tab_search cf s cx CHECKMODULE arg 0 False
        else if type = CHECKBINFMT then ht_tab_binfmtsearch cf s cx type arg False
        else Some (None, cx, s));
     (case hte of
        Some a \<Rightarrow> if setepoch then do {
            e \<leftarrow> ht_mem s1 a;
            Some (hte, snd (um_setnestepoch cx1 (tst_epoch (ht_tst e))), s1)
          } else Some (hte, cx1, s1)
      | None \<Rightarrow> Some (hte, cx1, s1))
   }"

section \<open>System call tables of the services\<close>

datatype sysfun = ERRNOSYS | SYSFUN nat

definition isnosys :: "sysfun \<Rightarrow> bool" where
  "isnosys f \<longleftrightarrow> f = ERRNOSYS"

definition or_errnosys :: "nat option \<Rightarrow> sysfun" where
  "or_errnosys f = (case f of None \<Rightarrow> ERRNOSYS | Some n \<Rightarrow> SYSFUN n)"

definition ht_service_of :: "ht_tab \<Rightarrow> addr \<Rightarrow> service option" where
  "ht_service_of s a = do {
     e \<leftarrow> ht_mem s a;
     sv \<leftarrow> ht_service e;
     ht_services s sv
   }"

text \<open>\<open>None\<close> inside is a NULL result; outside it is a failure (or a violated \<open>assert\<close>).\<close>

definition ht_syscall :: "ht_tab \<Rightarrow> addr option \<Rightarrow> nat \<Rightarrow> sysfun option option" where
  "ht_syscall s hte scno = (case hte of None \<Rightarrow> Some None
     | Some a \<Rightarrow> map_option (\<lambda>sv. Some (or_errnosys (sv_um_syscall sv scno))) (ht_service_of s a))"

definition ht_socketcall :: "ht_tab \<Rightarrow> addr option \<Rightarrow> nat \<Rightarrow> sysfun option option" where
  "ht_socketcall s hte scno = (case hte of None \<Rightarrow> Some None
     | Some a \<Rightarrow> map_option (\<lambda>sv. Some (or_errnosys (sv_um_socket sv scno))) (ht_service_of s a))"

definition ht_virsyscall :: "ht_tab \<Rightarrow> addr option \<Rightarrow> nat \<Rightarrow> sysfun option option" where
  "ht_virsyscall s hte scno = (case hte of None \<Rightarrow> Some None
     | Some a \<Rightarrow> map_option (\<lambda>sv. Some (case sv_um_virsc sv of None \<Rightarrow> ERRNOSYS
          | Some tab \<Rightarrow> or_errnosys (tab scno))) (ht_service_of s a))"

definition ht_ioctlparms :: "ht_tab \<Rightarrow> addr \<Rightarrow> nat option option" where
  "ht_ioctlparms s a = map_option sv_ioctlparms (ht_service_of s a)"

definition ht_event_subscribe :: "ht_tab \<Rightarrow> addr \<Rightarrow> nat option option" where
  "ht_event_subscribe s a = map_option sv_event_subscribe (ht_service_of s a)"

section \<open>Scanning a type\<close>

partial_function (option) ht_terminate_loop :: "ht_tab \<Rightarrow> nat \<Rightarrow> addr \<Rightarrow> ht_tab option" where
  "ht_terminate_loop s type scanht = do {
     e \<leftarrow> ht_mem s scanht;
     s1 \<leftarrow> ht_destruct s scanht e;
     e1 \<leftarrow> ht_mem s1 scanht;
     if ht_head s1 type \<noteq> None \<and> Some (ht_prev e1) \<noteq> ht_head s1 type
     then ht_terminate_loop s1 type (ht_prev e1)
     else Some s1
   }"

definition forall_ht_terminate :: "ht_tab \<Rightarrow> nat \<Rightarrow> ht_tab option" where
  "forall_ht_terminate s type = (case ht_head s type of None \<Rightarrow> Some s
     | Some h \<Rightarrow> ht_terminate_loop s type h)"

text \<open>\<open>fun\<close> is applied to an accumulator; \<open>pt\<close> is the time stamp of the calling process, if any.\<close>

partial_function (option) forall_ht_loop ::
  "ht_tab \<Rightarrow> timestamp option \<Rightarrow> nat \<Rightarrow> (addr \<Rightarrow> ht_elem \<Rightarrow> 'a \<Rightarrow> 'a) \<Rightarrow> addr \<Rightarrow> 'a \<Rightarrow> ('a \<times> ht_tab) option" where
  "forall_ht_loop s pt type f scanht acc = do {
     e0 \<leftarrow> ht_mem s scanht;
     let a = ht_next e0;
     e \<leftarrow> ht_mem s a;
     (acc1, s1) \<leftarrow> (if \<not> ht_invalid e then do {
         (m, st') \<leftarrow> tst_matchingepoch (ht_te s) pt (ht_tst e);
         s1 \<leftarrow> ht_upd a (\<lambda>x. x\<lparr>ht_tst := st'\<rparr>) s;
         Some (if m > 0 then f a (e\<lparr>ht_tst := st'\<rparr>) acc else acc, s1)
       } else Some (acc, s));
     if ht_head s1 type \<noteq> None \<and> Some a \<noteq> ht_head s1 type
     then forall_ht_loop s1 pt type f a acc1
     else Some (acc1, s1)
   }"

definition forall_ht_tab_do ::
  "ht_tab \<Rightarrow> timestamp option \<Rightarrow> nat \<Rightarrow> (addr \<Rightarrow> ht_elem \<Rightarrow> 'a \<Rightarrow> 'a) \<Rightarrow> 'a \<Rightarrow> ('a \<times> ht_tab) option" where
  "forall_ht_tab_do s pt type f acc = (case ht_head s type of None \<Rightarrow> Some (acc, s)
     | Some h \<Rightarrow> forall_ht_loop s pt type f h acc)"

definition ht_tab_getmtab_add :: "addr \<Rightarrow> ht_elem \<Rightarrow> string \<Rightarrow> string" where
  "ht_tab_getmtab_add a e out = (case ht_mtabline e of None \<Rightarrow> out | Some l \<Rightarrow> out @ l @ [CHR 0x0A])"

definition ht_tab_getmtab :: "ht_tab \<Rightarrow> timestamp option \<Rightarrow> string \<Rightarrow> (string \<times> ht_tab) option" where
  "ht_tab_getmtab s pt f = forall_ht_tab_do s pt CHECKPATH ht_tab_getmtab_add f"

section \<open>Fields of an element\<close>

definition ht_get_private_data :: "ht_tab \<Rightarrow> addr option \<Rightarrow> addr option option" where
  "ht_get_private_data s hte = (case hte of None \<Rightarrow> Some None
     | Some a \<Rightarrow> map_option ht_private_data (ht_mem s a))"

definition ht_set_private_data :: "ht_tab \<Rightarrow> addr option \<Rightarrow> addr option \<Rightarrow> ht_tab option" where
  "ht_set_private_data s hte pd = (case hte of None \<Rightarrow> Some s
     | Some a \<Rightarrow> ht_upd a (\<lambda>e. e\<lparr>ht_private_data := pd\<rparr>) s)"

definition ht_search ::
  "confirms \<Rightarrow> ht_tab \<Rightarrow> um_ctx \<Rightarrow> nat \<Rightarrow> string \<Rightarrow> nat \<Rightarrow> addr option \<Rightarrow> (addr option \<times> um_ctx \<times> ht_tab) option" where
  "ht_search cf s cx type arg objlen service = do {
     (hte, cx1, s1) \<leftarrow> ht_check cf s cx type arg None False;
     (case hte of None \<Rightarrow> Some (None, cx1, s1)
      | Some a \<Rightarrow> do {
          e \<leftarrow> ht_mem s1 a;
          Some (if (objlen > 0 \<and> objlen \<noteq> ht_objlen e) \<or> (service \<noteq> None \<and> service \<noteq> ht_service e)
                then None else hte, cx1, s1)
        })
   }"

definition ht_renew :: "ht_tab \<Rightarrow> timestamp \<Rightarrow> addr option \<Rightarrow> ht_tab option" where
  "ht_renew s pt hte = (case hte of None \<Rightarrow> Some s
     | Some a \<Rightarrow> (let (t, te) = tst_timestamp (ht_te s) pt in ht_upd a (\<lambda>e. e\<lparr>ht_tst := t\<rparr>) (s\<lparr>ht_te := te\<rparr>)))"

definition ht_get_servicename :: "ht_tab \<Rightarrow> addr option \<Rightarrow> string option option" where
  "ht_get_servicename s hte = (case hte of None \<Rightarrow> Some None
     | Some a \<Rightarrow> do {
         e \<leftarrow> ht_mem s a;
         (case ht_service e of None \<Rightarrow> Some None
          | Some sv \<Rightarrow> map_option (\<lambda>x. Some (sv_name x)) (ht_services s sv))
       })"

definition ht_get_service :: "ht_tab \<Rightarrow> addr option \<Rightarrow> addr option option" where
  "ht_get_service s hte = (case hte of None \<Rightarrow> Some None | Some a \<Rightarrow> map_option ht_service (ht_mem s a))"

definition ht_get_mountflags :: "ht_tab \<Rightarrow> addr option \<Rightarrow> u64 option" where
  "ht_get_mountflags s hte = (case hte of None \<Rightarrow> Some 0 | Some a \<Rightarrow> map_option ht_mountflags (ht_mem s a))"

definition ht_get_epoch :: "ht_tab \<Rightarrow> addr option \<Rightarrow> epoch_t option" where
  "ht_get_epoch s hte = (case hte of None \<Rightarrow> Some 0
     | Some a \<Rightarrow> map_option (\<lambda>e. tst_epoch (ht_tst e)) (ht_mem s a))"

definition ht_count_plus1 :: "confirms \<Rightarrow> ht_tab \<Rightarrow> um_ctx \<Rightarrow> addr \<Rightarrow> (um_ctx \<times> ht_tab) option" where
  "ht_count_plus1 cf s cx hte = do {
     e \<leftarrow> ht_mem s hte;
     (cx1, s1) \<leftarrow> (case (ht_service_hte e, ht_service e) of
         (None, Some sv) \<Rightarrow> do {
           srv \<leftarrow> ht_services s sv;
           (m, cx1, s1) \<leftarrow> ht_tab_search cf s cx CHECKMODULE (sv_name srv @ [NUL]) 0 True;
           s2 \<leftarrow> ht_upd hte (\<lambda>e. e\<lparr>ht_service_hte := m\<rparr>) s1;
           Some (cx1, s2)
         }
       | _ \<Rightarrow> Some (cx, s));
     e1 \<leftarrow> ht_mem s1 hte;
     s2 \<leftarrow> (case ht_service_hte e1 of None \<Rightarrow> Some s1
         | Some m \<Rightarrow> ht_upd m (\<lambda>e. e\<lparr>ht_count := ht_count e + 1\<rparr>) s1);
     s3 \<leftarrow> ht_upd hte (\<lambda>e. e\<lparr>ht_count := ht_count e + 1\<rparr>) s2;
     Some (cx1, s3)
   }"

definition ht_count_minus1 :: "ht_tab \<Rightarrow> addr \<Rightarrow> ht_tab option" where
  "ht_count_minus1 s hte = do {
     e \<leftarrow> ht_mem s hte;
     s1 \<leftarrow> (case ht_service_hte e of None \<Rightarrow> Some s
         | Some m \<Rightarrow> ht_upd m (\<lambda>e. e\<lparr>ht_count := ht_count e - 1\<rparr>) s);
     ht_upd hte (\<lambda>e. e\<lparr>ht_count := ht_count e - 1\<rparr>) s1
   }"

definition ht_get_count :: "ht_tab \<Rightarrow> addr \<Rightarrow> s32 option" where
  "ht_get_count s hte = map_option ht_count (ht_mem s hte)"

definition ht_terminate :: "ht_tab \<Rightarrow> ht_tab option" where
  "ht_terminate s = forall_ht_terminate s CHECKPATH"

declare ht_search_loop.simps [simp del] dec_of_nat.simps [simp del]

text \<open>The recursive functions are executable by their own equations.\<close>

declare ht_chain_scan.simps [code] ht_terminate_loop.simps [code] forall_ht_loop.simps [code]

end
