(* ===== verification/Hashtab_Inv.thy ===== *)
theory Hashtab_Inv
  imports Hashtab
begin

text \<open>
  The two families of linked lists of hashtab.c: the chains of the hash table, whose elements point
  back to the cell that points to them, and the circular lists of the elements of a type.  Adding
  and deleting an element changes the lists as expected, and nothing else.
\<close>

section \<open>Fields\<close>

type_synonym ht_heap = "addr \<rightharpoonup> ht_elem"

definition hl :: "ht_heap \<Rightarrow> addr \<Rightarrow> (hptr \<times> addr option) option" where
  "hl m a = map_option (\<lambda>e. (ht_pprevhash e, ht_nexthash e)) (m a)"

definition rl :: "ht_heap \<Rightarrow> addr \<Rightarrow> (addr \<times> addr) option" where
  "rl m a = map_option (\<lambda>e. (ht_prev e, ht_next e)) (m a)"

text \<open>An element without its links.\<close>

definition dat :: "ht_elem \<Rightarrow> ht_elem" where
  "dat e = e\<lparr>ht_prev := 0, ht_next := 0, ht_pprevhash := PHash 0, ht_nexthash := None\<rparr>"

definition da :: "ht_heap \<Rightarrow> addr \<Rightarrow> ht_elem option" where
  "da m a = map_option dat (m a)"

lemma dat_fields [simp]:
  "ht_obj (dat e) = ht_obj e" "ht_type (dat e) = ht_type e" "ht_objlen (dat e) = ht_objlen e"
  "ht_hashsum (dat e) = ht_hashsum e" "ht_tst (dat e) = ht_tst e" "ht_invalid (dat e) = ht_invalid e"
  "ht_confirmfun (dat e) = ht_confirmfun e" "ht_trailingnumbers (dat e) = ht_trailingnumbers e"
  "ht_mtabline (dat e) = ht_mtabline e" "ht_service (dat e) = ht_service e"
  "ht_private_data (dat e) = ht_private_data e" "ht_count (dat e) = ht_count e"
  by (simp_all add: dat_def)

lemma dat_links [simp]:
  "dat (e\<lparr>ht_prev := p\<rparr>) = dat e" "dat (e\<lparr>ht_next := p\<rparr>) = dat e"
  "dat (e\<lparr>ht_pprevhash := q\<rparr>) = dat e" "dat (e\<lparr>ht_nexthash := r\<rparr>) = dat e"
  by (simp_all add: dat_def)

lemma ht_upd_Some [simp]:
  "ht_mem s a = Some e \<Longrightarrow> ht_upd a f s = Some (s\<lparr>ht_mem := (ht_mem s)(a \<mapsto> f e)\<rparr>)"
  by (simp add: ht_upd_def)

lemma hl_Some: "hl m a = Some (p, q) \<longleftrightarrow> (\<exists>e. m a = Some e \<and> ht_pprevhash e = p \<and> ht_nexthash e = q)"
  by (auto simp: hl_def)

lemma rl_Some: "rl m a = Some (p, q) \<longleftrightarrow> (\<exists>e. m a = Some e \<and> ht_prev e = p \<and> ht_next e = q)"
  by (auto simp: rl_def)

lemma da_None: "da m a = None \<longleftrightarrow> m a = None"
  by (simp add: da_def)

section \<open>Hash chains\<close>

text \<open>\<open>hseg m c as p c' q\<close>: the cell \<open>c\<close> holds \<open>p\<close>, the elements \<open>as\<close> follow, and then the cell \<open>c'\<close> holds \<open>q\<close>.\<close>

fun hseg :: "ht_heap \<Rightarrow> hptr \<Rightarrow> addr list \<Rightarrow> addr option \<Rightarrow> hptr \<Rightarrow> addr option \<Rightarrow> bool" where
  "hseg m c [] p c' q \<longleftrightarrow> c = c' \<and> p = q"
| "hseg m c (a # as) p c' q \<longleftrightarrow> p = Some a \<and> (\<exists>r. hl m a = Some (c, r) \<and> hseg m (PNext a) as r c' q)"

abbreviation hchain :: "ht_heap \<Rightarrow> hptr \<Rightarrow> addr list \<Rightarrow> addr option \<Rightarrow> bool" where
  "hchain m c as p \<equiv> \<exists>c'. hseg m c as p c' None"

lemma hseg_append: "hseg m c (as @ bs) p c'' q \<longleftrightarrow> (\<exists>c' r. hseg m c as p c' r \<and> hseg m c' bs r c'' q)"
  by (induction as arbitrary: c p) auto

lemma hseg_cong: "(\<And>a. a \<in> set as \<Longrightarrow> hl m' a = hl m a) \<Longrightarrow> hseg m' c as p c' q = hseg m c as p c' q"
  by (induction as arbitrary: c p) auto

lemma hseg_last: "hseg m c as p c' q \<Longrightarrow> c' = (if as = [] then c else PNext (last as))"
  by (induction as arbitrary: c p) auto

lemma hseg_first: "hseg m c as p c' q \<Longrightarrow> p = (case as of [] \<Rightarrow> q | a # _ \<Rightarrow> Some a)"
  by (cases as) auto

text \<open>Moving the start of a chain to another cell.\<close>

lemma hseg_move:
  assumes "hseg m c as p c' None" "distinct as"
    and "\<And>b. b \<in> set as \<Longrightarrow> p \<noteq> Some b \<Longrightarrow> hl m' b = hl m b"
    and "\<And>b r. p = Some b \<Longrightarrow> hl m b = Some (c, r) \<Longrightarrow> hl m' b = Some (d, r)"
  shows "hchain m' d as p"
proof (cases as)
  case Nil
  then show ?thesis using assms(1) by auto
next
  case (Cons b bs)
  then obtain r where r: "p = Some b" "hl m b = Some (c, r)" "hseg m (PNext b) bs r c' None"
    using assms(1) by auto
  have "hseg m' (PNext b) bs r c' None = hseg m (PNext b) bs r c' None"
    by (rule hseg_cong) (use assms(2,3) Cons r in auto)
  then show ?thesis using r assms(4) Cons by auto
qed

section \<open>Circular lists\<close>

fun dseg :: "ht_heap \<Rightarrow> addr \<Rightarrow> addr list \<Rightarrow> addr \<Rightarrow> bool" where
  "dseg m p [] n \<longleftrightarrow> True"
| "dseg m p (a # as) n \<longleftrightarrow> rl m a = Some (p, hd (as @ [n])) \<and> dseg m a as n"

definition ring :: "ht_heap \<Rightarrow> addr list \<Rightarrow> bool" where
  "ring m as \<longleftrightarrow> dseg m (last as) as (hd as)"

lemma dseg_append: "dseg m p (as @ bs) n \<longleftrightarrow> dseg m p as (hd (bs @ [n])) \<and> dseg m (last (p # as)) bs n"
  by (induction as arbitrary: p) (auto simp: hd_append)

lemma dseg_cong: "(\<And>a. a \<in> set as \<Longrightarrow> rl m' a = rl m a) \<Longrightarrow> dseg m' p as n = dseg m p as n"
  by (induction as arbitrary: p) auto

lemma dseg_new_next:
  assumes "dseg m p as n" "distinct as" "as \<noteq> []"
    and "\<And>b. b \<in> set as \<Longrightarrow> b \<noteq> last as \<Longrightarrow> rl m' b = rl m b"
    and "\<And>q r. rl m (last as) = Some (q, r) \<Longrightarrow> rl m' (last as) = Some (q, n')"
  shows "dseg m' p as n'"
proof -
  obtain bs b where as: "as = bs @ [b]" using assms(3) by (metis rev_exhaust)
  have "dseg m' p bs b = dseg m p bs b" by (rule dseg_cong) (use assms(2,4) as in auto)
  then show ?thesis using assms(1,5) as by (auto simp: dseg_append)
qed

lemma dseg_new_prev:
  assumes "dseg m p as n" "distinct as" "as \<noteq> []"
    and "\<And>b. b \<in> set as \<Longrightarrow> b \<noteq> hd as \<Longrightarrow> rl m' b = rl m b"
    and "\<And>q r. rl m (hd as) = Some (q, r) \<Longrightarrow> rl m' (hd as) = Some (p', r)"
  shows "dseg m' p' as n"
proof -
  obtain b bs where as: "as = b # bs" using assms(3) by (cases as) auto
  have "dseg m' b bs n = dseg m b bs n" by (rule dseg_cong) (use assms(2,4) as in auto)
  then show ?thesis using assms(1,5) as by auto
qed

text \<open>The two links that join \<open>q\<close> to \<open>n\<close>; \<open>q\<close> and \<open>n\<close> may be the same element.\<close>

definition join :: "ht_heap \<Rightarrow> addr \<Rightarrow> addr \<Rightarrow> ht_heap" where
  "join m q n = (let m1 = m(q := map_option (\<lambda>e. e\<lparr>ht_next := n\<rparr>) (m q))
                 in m1(n := map_option (\<lambda>e. e\<lparr>ht_prev := q\<rparr>) (m1 n)))"

lemma join_other [simp]: "b \<noteq> q \<Longrightarrow> b \<noteq> n \<Longrightarrow> join m q n b = m b"
  by (simp add: join_def)

lemma join_hl [simp]: "hl (join m q n) b = hl m b"
  by (auto simp: hl_def join_def option.map_comp comp_def)

lemma join_da [simp]: "da (join m q n) b = da m b"
  by (auto simp: da_def join_def option.map_comp comp_def)

lemma join_rl_other [simp]: "b \<noteq> q \<Longrightarrow> b \<noteq> n \<Longrightarrow> rl (join m q n) b = rl m b"
  by (simp add: rl_def)

lemma join_rl_left: "q \<noteq> n \<Longrightarrow> rl m q = Some (x, y) \<Longrightarrow> rl (join m q n) q = Some (x, n)"
  by (auto simp: rl_def join_def)

lemma join_rl_right: "q \<noteq> n \<Longrightarrow> rl m n = Some (x, y) \<Longrightarrow> rl (join m q n) n = Some (q, y)"
  by (auto simp: rl_def join_def)

lemma join_rl_self: "rl m q = Some z \<Longrightarrow> rl (join m q q) q = Some (q, q)"
  by (auto simp: rl_def join_def)

text \<open>Joining the end of a segment to its start closes the ring.\<close>

lemma ring_join:
  assumes "dseg m p as n" "distinct as" "as \<noteq> []"
  shows "ring (join m (last as) (hd as)) as"
proof (cases "tl as = []")
  case True
  then obtain a where a: "as = [a]" using assms(3) by (cases as) auto
  then show ?thesis using assms(1) join_rl_self by (auto simp: ring_def)
next
  case False
  then obtain a bs b where as: "as = a # bs @ [b]"
    using assms(3) by (metis list.exhaust_sel rev_exhaust)
  have di: "a \<noteq> b" "a \<notin> set bs" "b \<notin> set bs" "distinct bs" using assms(2) as by auto
  let ?m = "join m b a"
  have d: "rl m a = Some (p, hd (bs @ [b]))" "dseg m a bs b" "rl m b = Some (last (a # bs), n)"
    using assms(1) unfolding as by (auto simp: dseg_append hd_append)
  have "rl ?m a = Some (b, hd (bs @ [b]))" using join_rl_right [of b a m] di d(1) by simp
  moreover have "rl ?m b = Some (last (a # bs), a)" using join_rl_left [of b a m] di d(3) by simp
  moreover have "dseg ?m a bs b = dseg m a bs b" by (rule dseg_cong, rule join_rl_other) (use di in auto)
  ultimately show ?thesis using d(2) unfolding as ring_def by (auto simp: dseg_append hd_append)
qed

lemma ring_add:
  assumes "ring m as" "distinct as" "as \<noteq> []" "new \<notin> set as" "m new \<noteq> None"
  shows "ring (join (join m (last as) new) new (hd as)) (as @ [new])"
proof -
  let ?m = "join m (last as) new"
  have ne: "last as \<noteq> new" "hd as \<noteq> new" using assms by auto
  have d: "dseg m (last as) as (hd as)" using assms(1) by (simp add: ring_def)
  have "dseg ?m (last as) as new"
  proof (rule dseg_new_next [OF d assms(2,3)])
    show "rl ?m b = rl m b" if "b \<in> set as" "b \<noteq> last as" for b
      by (rule join_rl_other) (use that assms(4) in auto)
    show "rl ?m (last as) = Some (q, new)" if "rl m (last as) = Some (q, r)" for q r
      using join_rl_left [OF ne(1) that] .
  qed
  moreover obtain x y where "rl m new = Some (x, y)" using assms(5) by (auto simp: rl_def)
  then have "rl ?m new = Some (last as, y)" by (rule join_rl_right [OF ne(1)])
  ultimately have "dseg ?m (last as) (as @ [new]) y" using assms(3) by (simp add: dseg_append)
  then have "ring (join ?m (last (as @ [new])) (hd (as @ [new]))) (as @ [new])"
    by (rule ring_join) (use assms in auto)
  then show ?thesis using assms(3) by simp
qed

lemma ring_add_first:
  "m new \<noteq> None \<Longrightarrow> ring (join m new new) [new]"
  using join_rl_self [of m new] by (auto simp: ring_def rl_def)

lemma ring_neighbours:
  assumes "ring m (us @ x # vs)"
  shows "rl m x = Some (last (x # vs @ us), hd (vs @ us @ [x]))"
proof -
  have "rl m x = Some (last (last (x # vs) # us), hd (vs @ [hd (us @ [x])]))"
    using assms unfolding ring_def dseg_append by (auto simp: hd_append split: if_splits)
  then show ?thesis by (auto simp: hd_append)
qed

lemma ring_del:
  assumes "ring m (us @ x # vs)" "distinct (us @ x # vs)" "us @ vs \<noteq> []"
  shows "ring (join m (last (vs @ us)) (hd (vs @ us))) (us @ vs)"
proof (cases "us = []")
  case True
  then have "dseg m x vs x" using assms(1) by (simp add: ring_def)
  then show ?thesis using ring_join [of m x vs x] assms True by simp
next
  case us: False
  show ?thesis
  proof (cases "vs = []")
    case True
    then have "dseg m x us x" using assms(1) us by (simp add: ring_def dseg_append)
    then show ?thesis using ring_join [of m x us x] assms us True by simp
  next
    case vs: False
    let ?m = "join m (last us) (hd vs)"
    have d: "dseg m (last vs) us x" "dseg m x vs (hd us)"
      using assms(1) us vs by (auto simp: ring_def dseg_append)
    have dj: "a \<noteq> b" if "a \<in> set us" "b \<in> set vs" for a b using that assms(2) by auto
    have ne: "last us \<noteq> hd vs" by (rule dj) (use us vs in auto)
    have 1: "dseg ?m (last vs) us (hd vs)"
    proof (rule dseg_new_next [OF d(1) _ us])
      show "rl ?m b = rl m b" if "b \<in> set us" "b \<noteq> last us" for b
        by (rule join_rl_other [OF that(2) dj [OF that(1)]]) (use vs in simp)
      show "rl ?m (last us) = Some (q, hd vs)" if "rl m (last us) = Some (q, r)" for q r
        using join_rl_left [OF ne that] .
    qed (use assms(2) in simp)
    have 2: "dseg ?m (last us) vs (hd us)"
    proof (rule dseg_new_prev [OF d(2) _ vs])
      show "rl ?m b = rl m b" if "b \<in> set vs" "b \<noteq> hd vs" for b
        by (rule join_rl_other [OF dj [OF _ that(1), symmetric] that(2)]) (use us in simp)
      show "rl ?m (hd vs) = Some (last us, r)" if "rl m (hd vs) = Some (q, r)" for q r
        using join_rl_right [OF ne that] .
    qed (use assms(2) in simp)
    show ?thesis using 1 2 us vs by (simp add: ring_def dseg_append)
  qed
qed

section \<open>Updates of a hash chain\<close>

definition hset :: "ht_heap \<Rightarrow> hptr \<Rightarrow> addr option \<Rightarrow> ht_heap" where
  "hset m c v = (case c of PNext a \<Rightarrow> m(a := map_option (\<lambda>e. e\<lparr>ht_nexthash := v\<rparr>) (m a)) | _ \<Rightarrow> m)"

definition hback :: "ht_heap \<Rightarrow> addr option \<Rightarrow> hptr \<Rightarrow> ht_heap" where
  "hback m p c = (case p of None \<Rightarrow> m | Some a \<Rightarrow> m(a := map_option (\<lambda>e. e\<lparr>ht_pprevhash := c\<rparr>) (m a)))"

lemma hset_rl [simp]: "rl (hset m c v) b = rl m b"
  and hset_da [simp]: "da (hset m c v) b = da m b"
  by (auto simp: hset_def rl_def da_def option.map_comp comp_def split: hptr.splits)

lemma hback_rl [simp]: "rl (hback m p c) b = rl m b"
  and hback_da [simp]: "da (hback m p c) b = da m b"
  by (auto simp: hback_def rl_def da_def option.map_comp comp_def split: option.splits)

lemma hset_hl: "hl (hset m c v) b = (if c = PNext b then map_option (\<lambda>(x, y). (x, v)) (hl m b) else hl m b)"
  by (auto simp: hset_def hl_def option.map_comp comp_def split: hptr.splits)

lemma hback_hl: "hl (hback m p c) b = (if p = Some b then map_option (\<lambda>(x, y). (c, y)) (hl m b) else hl m b)"
  by (auto simp: hback_def hl_def option.map_comp comp_def split: option.splits)

lemma hset_other: "c \<noteq> PNext b \<Longrightarrow> hset m c v b = m b"
  by (auto simp: hset_def split: hptr.splits)

lemma hback_other: "p \<noteq> Some b \<Longrightarrow> hback m p c b = m b"
  by (auto simp: hback_def split: option.splits)

lemma hchain_add:
  assumes "hchain m h as p" "distinct as" "new \<notin> set as" "hl m' new = Some (h, p)"
    and "\<And>b. b \<noteq> new \<Longrightarrow> hl m' b = hl (hback m p (PNext new)) b"
  shows "hchain m' h (new # as) (Some new)"
proof -
  obtain c' where c': "hseg m h as p c' None" using assms(1) by blast
  have pa: "b \<in> set as" if "p = Some b" for b
    using hseg_first [OF c'] that by (cases as) auto
  have "hchain m' (PNext new) as p"
  proof (rule hseg_move [OF c' assms(2)])
    show "hl m' b = hl m b" if "b \<in> set as" "p \<noteq> Some b" for b
      using that assms(3) assms(5) [of b] by (cases "b = new") (auto simp: hback_hl)
    show "hl m' b = Some (PNext new, r)" if "p = Some b" "hl m b = Some (h, r)" for b r
      using that assms(3) assms(5) [of b] pa [of b] by (cases "b = new") (auto simp: hback_hl)
  qed
  then show ?thesis using assms(4) by auto
qed

lemma hchain_del:
  assumes "hchain m h (us @ x # vs) p" "distinct (us @ x # vs)" "hl m x = Some (c, q)" "\<And>a. h \<noteq> PNext a"
  shows "hchain (hback (hset m c q) q c) h (us @ vs) (if us = [] then q else p)"
    and "c = (if us = [] then h else PNext (last us))" "q = (case vs of [] \<Rightarrow> None | b # _ \<Rightarrow> Some b)"
proof -
  obtain c' r where s: "hseg m h us p c' r" "hchain m c' (x # vs) r"
    using assms(1) unfolding hseg_append by blast
  then obtain d where d: "r = Some x" "c' = c" "hseg m (PNext x) vs q d None" using assms(3) by auto
  show c: "c = (if us = [] then h else PNext (last us))" using hseg_last [OF s(1)] d(2) by simp
  show q: "q = (case vs of [] \<Rightarrow> None | b # _ \<Rightarrow> Some b)" using hseg_first [OF d(3)] .
  let ?m = "hback (hset m c q) q c"
  have cu: "c = PNext b \<Longrightarrow> b \<in> set us" for b using c assms(4) by (auto split: if_splits)
  have qv: "q = Some b \<Longrightarrow> b \<in> set vs" for b using q by (auto split: list.splits)
  have "hchain ?m c vs q"
  proof (rule hseg_move [OF d(3)])
    show "hl ?m b = hl m b" if "b \<in> set vs" "q \<noteq> Some b" for b
      using that cu [of b] assms(2) by (auto simp: hback_hl hset_hl)
    show "hl ?m b = Some (c, r')" if "q = Some b" "hl m b = Some (PNext x, r')" for b r'
      using that cu [of b] qv [of b] assms(2) by (auto simp: hback_hl hset_hl)
  qed (use assms(2) in simp)
  moreover have "hseg ?m h us (if us = [] then q else p) c q"
  proof (cases us rule: rev_cases)
    case Nil
    then show ?thesis using c by simp
  next
    case (snoc us' l)
    then obtain c0 where "hseg m h us' p c0 (Some l)" "hl m l = Some (c0, Some x)"
      using s(1) d(1) by (auto simp: hseg_append)
    moreover have "hseg ?m h us' p c'' (Some l) = hseg m h us' p c'' (Some l)" for c''
    proof (rule hseg_cong)
      fix b assume "b \<in> set us'"
      then show "hl ?m b = hl m b" using c qv [of b] assms(2) snoc by (auto simp: hback_hl hset_hl)
    qed
    moreover have "hl ?m l = map_option (\<lambda>(x, y). (x, q)) (hl m l)"
      using c qv [of l] assms(2) snoc by (auto simp: hback_hl hset_hl)
    ultimately show ?thesis using c unfolding snoc hseg_append by auto
  qed
  ultimately show "hchain ?m h (us @ vs) (if us = [] then q else p)"
    unfolding hseg_append by blast
qed

section \<open>The operations on the heap\<close>

lemma ht_link_type_None:
  assumes "ht_head s t = None" "ht_mem s new \<noteq> None"
  shows "ht_link_type new t s = Some (s\<lparr>ht_mem := join (ht_mem s) new new, ht_head := (ht_head s)(t \<mapsto> new)\<rparr>)"
  using assms by (auto simp: ht_link_type_def ht_upd_def join_def)

lemma ht_link_type_Some:
  assumes "ht_head s t = Some h" "rl (ht_mem s) h = Some (p, n)" "ht_mem s n \<noteq> None"
    and "ht_mem s new \<noteq> None" "h \<noteq> new" "n \<noteq> new"
  shows "ht_link_type new t s =
    Some (s\<lparr>ht_mem := join (join (ht_mem s) h new) new n, ht_head := (ht_head s)(t \<mapsto> new)\<rparr>)"
proof -
  obtain he ne e where m: "ht_mem s h = Some he" "ht_next he = n" "ht_mem s n = Some ne" "ht_mem s new = Some e"
    using assms by (auto simp: rl_Some)
  let ?m = "(ht_mem s)(new \<mapsto> e\<lparr>ht_next := n, ht_prev := h\<rparr>)"
  let ?m2 = "?m(n \<mapsto> ne\<lparr>ht_prev := new\<rparr>)"
  define hx where "hx = (if h = n then ne\<lparr>ht_prev := new\<rparr> else he)"
  have hx: "?m2 h = Some hx" using m(1) assms(5) by (simp add: hx_def)
  let ?m3 = "?m2(h \<mapsto> hx\<lparr>ht_next := new\<rparr>)"
  have "?m3 = join (join (ht_mem s) h new) new n"
  proof
    fix b
    show "?m3 b = join (join (ht_mem s) h new) new n b"
      using m assms(5,6) unfolding hx_def
      by (cases "b = new"; cases "b = h"; cases "b = n") (simp_all add: join_def Let_def)
  qed
  moreover have "ht_link_type new t s = Some (s\<lparr>ht_mem := ?m3, ht_head := (ht_head s)(t \<mapsto> new)\<rparr>)"
  proof -
    let ?s1 = "s\<lparr>ht_mem := ?m\<rparr>"
    have 1: "ht_upd new (\<lambda>e. e\<lparr>ht_next := n, ht_prev := h\<rparr>) s = Some ?s1" using m by simp
    have 2: "ht_upd n (\<lambda>e. e\<lparr>ht_prev := new\<rparr>) ?s1 = Some (s\<lparr>ht_mem := ?m2\<rparr>)" using m assms(6) by (simp add: ht_upd_def)
    have 3: "ht_upd h (\<lambda>e. e\<lparr>ht_next := new\<rparr>) (s\<lparr>ht_mem := ?m2\<rparr>) = Some (s\<lparr>ht_mem := ?m3\<rparr>)" using hx by (simp add: ht_upd_def)
    show ?thesis unfolding ht_link_type_def using assms(1) m(1,2) 1 2 3 by simp
  qed
  ultimately show ?thesis by simp
qed

text \<open>The cells a chain starts from.\<close>

fun is_head :: "hptr \<Rightarrow> bool" where
  "is_head (PHash i) \<longleftrightarrow> i < MNTTAB_HASH_SIZE"
| "is_head (PHash0 t) \<longleftrightarrow> t < NCHECKS"
| "is_head (PNext a) \<longleftrightarrow> False"

fun hcell :: "ht_tab \<Rightarrow> hptr \<Rightarrow> addr option" where
  "hcell s (PHash i) = ht_hash s i"
| "hcell s (PHash0 t) = ht_hash0 s t"
| "hcell s (PNext a) = None"

fun hcell_set :: "ht_tab \<Rightarrow> hptr \<Rightarrow> addr option \<Rightarrow> ht_tab" where
  "hcell_set s (PHash i) v = s\<lparr>ht_hash := (ht_hash s)(i := v)\<rparr>"
| "hcell_set s (PHash0 t) v = s\<lparr>ht_hash0 := (ht_hash0 s)(t := v)\<rparr>"
| "hcell_set s (PNext a) v = s"

lemma hcell_set_fields [simp]:
  "ht_mem (hcell_set s h v) = ht_mem s" "ht_brk (hcell_set s h v) = ht_brk s"
  "ht_head (hcell_set s h v) = ht_head s" "ht_te (hcell_set s h v) = ht_te s"
  "ht_services (hcell_set s h v) = ht_services s" "ht_log (hcell_set s h v) = ht_log s"
  by (cases h; simp)+

lemma hcell_hcell_set: "is_head h \<Longrightarrow> hcell (hcell_set s h v) g = (if g = h then v else hcell s g)"
  by (cases h; cases g) auto

lemma hcell_upd [simp]:
  "hcell (s\<lparr>ht_mem := m\<rparr>) g = hcell s g" "hcell (s\<lparr>ht_head := hh\<rparr>) g = hcell s g"
  "hcell (s\<lparr>ht_log := l\<rparr>) g = hcell s g" "hcell (s\<lparr>ht_te := te\<rparr>) g = hcell s g"
  "hcell (s\<lparr>ht_brk := b\<rparr>) g = hcell s g"
  by (cases g; simp)+

lemma ht_link_hash_eq:
  assumes "is_head h" "ht_mem s new = Some e" "hcell s h \<noteq> Some new"
    and "\<And>a. hcell s h = Some a \<Longrightarrow> ht_mem s a \<noteq> None"
  shows "ht_link_hash new h s = Some (hcell_set (s\<lparr>ht_mem :=
     (hback (ht_mem s) (hcell s h) (PNext new))(new \<mapsto> e\<lparr>ht_nexthash := hcell s h, ht_pprevhash := h\<rparr>)\<rparr>) h (Some new))"
proof -
  have g: "hp_get s h = Some (hcell s h)" "\<And>s v. hp_set s h v = Some (hcell_set s h v)"
    using assms(1) by (cases h; simp add: hp_get_def hp_set_def)+
  show ?thesis
  proof (cases "hcell s h")
    case None
    then show ?thesis using assms g by (simp add: ht_link_hash_def hback_def)
  next
    case (Some a)
    then obtain ae where "ht_mem s a = Some ae" using assms(4) by auto
    then show ?thesis using assms g Some by (simp add: ht_link_hash_def hback_def)
  qed
qed

section \<open>The invariant of the table\<close>

text \<open>\<open>bk h\<close> is the chain that starts in the cell \<open>h\<close>, \<open>rg t\<close> the list of the type \<open>t\<close>, oldest element first.\<close>

definition khead :: "ht_elem \<Rightarrow> hptr" where
  "khead e = (if ht_objlen e = 0 then PHash0 (ht_type e) else PHash (hashmod (ht_hashsum e)))"

definition key_ok :: "ht_elem \<Rightarrow> bool" where
  "key_ok e \<longleftrightarrow> ht_type e < NCHECKS \<and> ht_objlen e = length (ht_obj e) \<and>
     ht_hashsum e = hashsum (ht_type e) (ht_obj e) (ht_objlen e)"

definition tring :: "ht_tab \<Rightarrow> nat \<Rightarrow> addr list \<Rightarrow> bool" where
  "tring s t as \<longleftrightarrow> (if as = [] then ht_head s t = None else ht_head s t = Some (last as) \<and> ring (ht_mem s) as)"

definition bucket_ok :: "ht_tab \<Rightarrow> hptr \<Rightarrow> addr list \<Rightarrow> bool" where
  "bucket_ok s h as \<longleftrightarrow> hchain (ht_mem s) h as (hcell s h) \<and> distinct as \<and>
     (\<forall>a \<in> set as. \<exists>d. da (ht_mem s) a = Some d \<and> khead d = h)"

definition type_ok :: "ht_tab \<Rightarrow> nat \<Rightarrow> addr list \<Rightarrow> bool" where
  "type_ok s t as \<longleftrightarrow> tring s t as \<and> distinct as \<and>
     (\<forall>a \<in> set as. \<exists>d. da (ht_mem s) a = Some d \<and> ht_type d = t)"

definition ht_ok :: "ht_tab \<Rightarrow> (hptr \<Rightarrow> addr list) \<Rightarrow> (nat \<Rightarrow> addr list) \<Rightarrow> bool" where
  "ht_ok s bk rg \<longleftrightarrow> (\<forall>h. is_head h \<longrightarrow> bucket_ok s h (bk h)) \<and> (\<forall>t<NCHECKS. type_ok s t (rg t)) \<and>
     (\<forall>a d. da (ht_mem s) a = Some d \<longrightarrow>
        a < ht_brk s \<and> key_ok d \<and> a \<in> set (bk (khead d)) \<and> a \<in> set (rg (ht_type d)))"

lemma hashmod_less: "hashmod h < MNTTAB_HASH_SIZE"
proof -
  have "h AND 511 \<le> 511" by (rule word_and_le1)
  then have "unat (h AND 511) \<le> 511" by (simp add: word_le_nat_alt)
  then show ?thesis by (simp add: hashmod_def MNTTAB_HASH_SIZE_def)
qed

lemma khead_head: "key_ok d \<Longrightarrow> is_head (khead d)"
  using hashmod_less by (auto simp: khead_def key_ok_def)

lemma khead_dat [simp]: "khead (dat e) = khead e" and key_ok_dat [simp]: "key_ok (dat e) = key_ok e"
  by (simp_all add: khead_def key_ok_def)

lemma key_hash: "key_ok (ht_new_elem tst type obj objlen mf ml sv tn cf pd)"
  if "type < NCHECKS" "objlen \<le> length obj"
  using that by (simp add: key_ok_def ht_new_elem_def)

text \<open>What other buckets and types keep when the heap changes elsewhere.\<close>

lemma bucket_ok_cong:
  assumes "bucket_ok s h as" "hcell s' h = hcell s h"
    and "\<And>a. a \<in> set as \<Longrightarrow> hl (ht_mem s') a = hl (ht_mem s) a \<and> da (ht_mem s') a = da (ht_mem s) a"
  shows "bucket_ok s' h as"
proof -
  have "hseg (ht_mem s') h as p c q = hseg (ht_mem s) h as p c q" for p c q
    by (rule hseg_cong) (use assms(3) in auto)
  then show ?thesis using assms unfolding bucket_ok_def by auto
qed

lemma type_ok_cong:
  assumes "type_ok s t as" "ht_head s' t = ht_head s t"
    and "\<And>a. a \<in> set as \<Longrightarrow> rl (ht_mem s') a = rl (ht_mem s) a \<and> da (ht_mem s') a = da (ht_mem s) a"
  shows "type_ok s' t as"
proof -
  have "dseg (ht_mem s') p as n = dseg (ht_mem s) p as n" for p n
    by (rule dseg_cong) (use assms(3) in auto)
  then show ?thesis using assms unfolding type_ok_def tring_def ring_def by auto
qed

lemma ht_okD:
  assumes "ht_ok s bk rg"
  shows "is_head h \<Longrightarrow> bucket_ok s h (bk h)" "t < NCHECKS \<Longrightarrow> type_ok s t (rg t)"
    "da (ht_mem s) a = Some d \<Longrightarrow> a < ht_brk s" "da (ht_mem s) a = Some d \<Longrightarrow> key_ok d"
    "da (ht_mem s) a = Some d \<Longrightarrow> a \<in> set (bk (khead d))"
    "da (ht_mem s) a = Some d \<Longrightarrow> a \<in> set (rg (ht_type d))"
  using assms unfolding ht_ok_def by blast+

lemma bucketD: "bucket_ok s h as \<Longrightarrow> a \<in> set as \<Longrightarrow> \<exists>d. da (ht_mem s) a = Some d \<and> khead d = h"
  unfolding bucket_ok_def by blast

lemma typeD: "type_ok s t as \<Longrightarrow> a \<in> set as \<Longrightarrow> \<exists>d. da (ht_mem s) a = Some d \<and> ht_type d = t"
  unfolding type_ok_def by blast

lemma bucket_disjoint:
  assumes "ht_ok s bk rg" "is_head h" "is_head h'" "h \<noteq> h'" "a \<in> set (bk h)"
  shows "a \<notin> set (bk h')"
  using bucketD [OF ht_okD(1) [OF assms(1,2)] assms(5)] bucketD [OF ht_okD(1) [OF assms(1,3)]] assms(4)
  by force

lemma type_disjoint:
  assumes "ht_ok s bk rg" "t < NCHECKS" "t' < NCHECKS" "t \<noteq> t'" "a \<in> set (rg t)"
  shows "a \<notin> set (rg t')"
  using typeD [OF ht_okD(2) [OF assms(1,2)] assms(5)] typeD [OF ht_okD(2) [OF assms(1,3)]] assms(4)
  by force

lemma hchain_mem: "hseg m c as p c' q \<Longrightarrow> a \<in> set as \<Longrightarrow> m a \<noteq> None"
  by (induction as arbitrary: c p) (auto simp: hl_Some)

lemma bucket_mem: "bucket_ok s h as \<Longrightarrow> a \<in> set as \<Longrightarrow> ht_mem s a \<noteq> None"
  unfolding bucket_ok_def by (auto dest: hchain_mem)

subsection \<open>Adding an element\<close>

lemma link_type_ok:
  assumes "type_ok s t as" "new \<notin> set as" "da (ht_mem s) new = Some d" "ht_type d = t"
  shows "\<exists>m'. ht_link_type new t s = Some (s\<lparr>ht_mem := m', ht_head := (ht_head s)(t \<mapsto> new)\<rparr>) \<and>
     type_ok (s\<lparr>ht_mem := m', ht_head := (ht_head s)(t \<mapsto> new)\<rparr>) t (as @ [new]) \<and>
     (\<forall>b. hl m' b = hl (ht_mem s) b \<and> da m' b = da (ht_mem s) b) \<and>
     (\<forall>b. b \<notin> set (as @ [new]) \<longrightarrow> rl m' b = rl (ht_mem s) b)"
proof -
  have nn: "ht_mem s new \<noteq> None" using assms(3) by (auto simp: da_def)
  have di: "distinct as" using assms(1) by (simp add: type_ok_def)
  show ?thesis
  proof (cases "as = []")
    case True
    let ?m = "join (ht_mem s) new new"
    have h: "ht_head s t = None" using assms(1) True by (simp add: type_ok_def tring_def)
    show ?thesis
      using ht_link_type_None [OF h nn] ring_add_first [of "ht_mem s" new] nn assms(3,4) True
      by (intro exI [of _ ?m]) (simp add: type_ok_def tring_def)
  next
    case False
    let ?h = "last as" and ?n = "hd as"
    let ?m = "join (join (ht_mem s) ?h new) new ?n"
    have h: "ht_head s t = Some ?h" "ring (ht_mem s) as" using assms(1) False by (auto simp: type_ok_def tring_def)
    obtain bs where as: "as = bs @ [?h]" using False by (metis append_butlast_last_id)
    obtain p where rh: "rl (ht_mem s) ?h = Some (p, ?n)"
      using h(2) unfolding ring_def by (subst (asm) (2) as) (auto simp: dseg_append)
    have "da (ht_mem s) ?n \<noteq> None" using assms(1) False by (auto simp: type_ok_def)
    then have hn: "ht_mem s ?n \<noteq> None" by (simp add: da_def)
    have ne: "?h \<noteq> new" "?n \<noteq> new" using assms(2) False by auto
    note eq = ht_link_type_Some [OF h(1) rh hn nn ne]
    have "ring ?m (as @ [new])" by (rule ring_add [OF h(2) di False assms(2) nn])
    moreover have "rl ?m b = rl (ht_mem s) b" if "b \<notin> set (as @ [new])" for b
    proof -
      have "b \<noteq> new" "b \<noteq> ?h" "b \<noteq> ?n" using that False by auto
      then show ?thesis by simp
    qed
    ultimately show ?thesis using eq assms False di
      by (intro exI [of _ ?m]) (auto simp: type_ok_def tring_def)
  qed
qed

lemma link_hash_ok:
  assumes "bucket_ok s h as" "is_head h" "new \<notin> set as" "da (ht_mem s) new = Some d" "khead d = h"
  shows "\<exists>s'. ht_link_hash new h s = Some s' \<and> bucket_ok s' h (new # as) \<and>
     (\<forall>b. rl (ht_mem s') b = rl (ht_mem s) b \<and> da (ht_mem s') b = da (ht_mem s) b) \<and>
     (\<forall>b. b \<notin> set (new # as) \<longrightarrow> hl (ht_mem s') b = hl (ht_mem s) b) \<and>
     (\<forall>g. g \<noteq> h \<longrightarrow> hcell s' g = hcell s g) \<and>
     ht_brk s' = ht_brk s \<and> ht_head s' = ht_head s \<and> ht_te s' = ht_te s \<and> ht_services s' = ht_services s \<and>
     ht_log s' = ht_log s"
proof -
  let ?p = "hcell s h"
  obtain e where e: "ht_mem s new = Some e" using assms(4) by (auto simp: da_def)
  obtain c' where ch: "hseg (ht_mem s) h as ?p c' None" using assms(1) by (auto simp: bucket_ok_def)
  have pa: "a \<in> set as" if "?p = Some a" for a
    using hseg_first [OF ch] that by (cases as) auto
  let ?m = "(hback (ht_mem s) ?p (PNext new))(new \<mapsto> e\<lparr>ht_nexthash := ?p, ht_pprevhash := h\<rparr>)"
  let ?s' = "hcell_set (s\<lparr>ht_mem := ?m\<rparr>) h (Some new)"
  have run: "ht_link_hash new h s = Some ?s'"
    by (rule ht_link_hash_eq [OF assms(2) e]) (use pa assms(3) bucket_mem [OF assms(1)] in auto)
  have hb: "hback (ht_mem s) ?p (PNext new) new = ht_mem s new"
    by (rule hback_other) (use pa assms(3) in auto)
  have rd: "rl ?m b = rl (ht_mem s) b" "da ?m b = da (ht_mem s) b" for b
  proof -
    have "rl ?m b = rl (hback (ht_mem s) ?p (PNext new)) b" "da ?m b = da (hback (ht_mem s) ?p (PNext new)) b"
      using hb e by (auto simp: rl_def da_def)
    then show "rl ?m b = rl (ht_mem s) b" "da ?m b = da (ht_mem s) b" by simp_all
  qed
  have hm: "hl ?m b = hl (hback (ht_mem s) ?p (PNext new)) b" if "b \<noteq> new" for b
    using that by (simp add: hl_def)
  have "hchain ?m h (new # as) (Some new)"
    by (rule hchain_add [of "ht_mem s" h as ?p]) (use ch assms(1,3) hm in \<open>auto simp: hl_def bucket_ok_def\<close>)
  then have "bucket_ok ?s' h (new # as)"
    using assms rd hcell_hcell_set [OF assms(2)] by (auto simp: bucket_ok_def)
  moreover have "hl ?m b = hl (ht_mem s) b" if "b \<notin> set (new # as)" for b
    using that hm [of b] pa [of b] by (auto simp: hback_hl)
  ultimately show ?thesis using run rd hcell_hcell_set [OF assms(2)] by (intro exI [of _ ?s']) simp
qed

lemma add_ok:
  assumes ok: "ht_ok s bk rg" and t: "type < NCHECKS" and ol: "objlen \<le> length obj"
    and e_def: "e = ht_new_elem (fst (tst_timestamp (ht_te s) pt)) type obj objlen mf ml sv tn cf pd"
  shows "\<exists>s'. internal_ht_tab_add True True s pt type obj objlen mf ml sv tn cf pd = Some (Some (ht_brk s), s') \<and>
     ht_ok s' (bk(khead e := ht_brk s # bk (khead e))) (rg(type := rg type @ [ht_brk s])) \<and>
     da (ht_mem s') (ht_brk s) = Some (dat e) \<and> (\<forall>b. b \<noteq> ht_brk s \<longrightarrow> da (ht_mem s') b = da (ht_mem s) b) \<and>
     ht_brk s' = ht_brk s + 1 \<and> ht_te s' = snd (tst_timestamp (ht_te s) pt) \<and> ht_services s' = ht_services s \<and>
     ht_log s' = ht_log s @ [HT_ADD type (take objlen obj) mf]"
proof -
  let ?new = "ht_brk s" and ?h = "khead e"
  let ?s0 = "s\<lparr>ht_mem := (ht_mem s)(?new \<mapsto> e), ht_brk := ?new + 1, ht_te := snd (tst_timestamp (ht_te s) pt)\<rparr>"
  have fr: "b \<noteq> ?new" if "da (ht_mem s) b = Some d" for b d using ht_okD(3) [OF ok that] by simp
  have key: "key_ok e" unfolding e_def by (rule key_hash [OF t ol])
  have hd: "is_head ?h" using khead_head [OF key] .
  have et: "ht_type e = type" by (simp add: e_def ht_new_elem_def)
  have da0: "da (ht_mem ?s0) ?new = Some (dat e)" by (simp add: da_def)
  have ne: "?new \<notin> set (bk h)" if "is_head h" for h using bucketD [OF ht_okD(1) [OF ok that], of ?new] fr by blast
  have nt: "?new \<notin> set (rg t)" if "t < NCHECKS" for t using typeD [OF ht_okD(2) [OF ok that], of ?new] fr by blast
  have b0: "bucket_ok ?s0 h (bk h)" if "is_head h" for h
  proof (rule bucket_ok_cong [OF ht_okD(1) [OF ok that]])
    fix a assume "a \<in> set (bk h)"
    then have "a \<noteq> ?new" using ne [OF that] by auto
    then show "hl (ht_mem ?s0) a = hl (ht_mem s) a \<and> da (ht_mem ?s0) a = da (ht_mem s) a"
      by (simp add: hl_def da_def)
  qed simp
  have t0: "type_ok ?s0 t (rg t)" if "t < NCHECKS" for t
  proof (rule type_ok_cong [OF ht_okD(2) [OF ok that]])
    fix a assume "a \<in> set (rg t)"
    then have "a \<noteq> ?new" using nt [OF that] by auto
    then show "rl (ht_mem ?s0) a = rl (ht_mem s) a \<and> da (ht_mem ?s0) a = da (ht_mem s) a"
      by (simp add: rl_def da_def)
  qed simp
  obtain m1 where m1: "ht_link_type ?new type ?s0 = Some (?s0\<lparr>ht_mem := m1, ht_head := (ht_head s)(type \<mapsto> ?new)\<rparr>)"
     "type_ok (?s0\<lparr>ht_mem := m1, ht_head := (ht_head s)(type \<mapsto> ?new)\<rparr>) type (rg type @ [?new])"
     "\<And>b. hl m1 b = hl (ht_mem ?s0) b \<and> da m1 b = da (ht_mem ?s0) b"
     "\<And>b. b \<notin> set (rg type @ [?new]) \<Longrightarrow> rl m1 b = rl (ht_mem ?s0) b"
    using link_type_ok [OF t0 [OF t] nt [OF t] da0] et by auto
  let ?s1 = "?s0\<lparr>ht_mem := m1, ht_head := (ht_head s)(type \<mapsto> ?new)\<rparr>"
  have b1: "bucket_ok ?s1 h (bk h)" if "is_head h" for h
    by (rule bucket_ok_cong [OF b0 [OF that]]) (use m1(3) in auto)
  have da1: "da (ht_mem ?s1) ?new = Some (dat e)" using m1(3) da0 by simp
  obtain s2 where s2: "ht_link_hash ?new ?h ?s1 = Some s2" "bucket_ok s2 ?h (?new # bk ?h)"
     "\<And>b. rl (ht_mem s2) b = rl m1 b \<and> da (ht_mem s2) b = da m1 b"
     "\<And>b. b \<notin> set (?new # bk ?h) \<Longrightarrow> hl (ht_mem s2) b = hl m1 b" "\<And>g. g \<noteq> ?h \<Longrightarrow> hcell s2 g = hcell s g"
     "ht_brk s2 = ?new + 1" "ht_head s2 = (ht_head s)(type \<mapsto> ?new)" "ht_te s2 = snd (tst_timestamp (ht_te s) pt)"
     "ht_services s2 = ht_services s" "ht_log s2 = ht_log s"
    using link_hash_ok [OF b1 [OF hd] hd ne [OF hd] da1] by auto
  let ?s' = "s2\<lparr>ht_log := ht_log s2 @ [HT_ADD type (take objlen obj) mf]\<rparr>"
  have run: "internal_ht_tab_add True True s pt type obj objlen mf ml sv tn cf pd = Some (Some ?new, ?s')"
  proof -
    have h: "?h = (if objlen = 0 then PHash0 type else PHash (hashmod (ht_hashsum e)))"
      by (simp add: khead_def e_def ht_new_elem_def)
    show ?thesis unfolding internal_ht_tab_add_def Let_def split_beta e_def [symmetric] h [symmetric]
      using t ol m1(1) s2(1) by simp
  qed
  have daF: "da (ht_mem ?s') b = (if b = ?new then Some (dat e) else da (ht_mem s) b)" for b
    using s2(3) m1(3) by (simp add: da_def)
  let ?bk = "bk(?h := ?new # bk ?h)" and ?rg = "rg(type := rg type @ [?new])"
  have "bucket_ok ?s' h (?bk h)" if "is_head h" for h
  proof (cases "h = ?h")
    case True
    then show ?thesis using bucket_ok_cong [OF s2(2), of ?s'] by simp
  next
    case False
    have "a \<notin> set (?new # bk ?h)" if "a \<in> set (bk h)" for a
      using bucket_disjoint [OF ok \<open>is_head h\<close> hd False that] ne [OF \<open>is_head h\<close>] that by auto
    then have "bucket_ok ?s' h (bk h)"
      by (intro bucket_ok_cong [OF b1 [OF that]]) (use s2 False in auto)
    then show ?thesis using False by simp
  qed
  moreover have "type_ok ?s' t (?rg t)" if "t < NCHECKS" for t
  proof (cases "t = type")
    case True
    then show ?thesis using type_ok_cong [OF m1(2), of ?s'] s2 by simp
  next
    case False
    have a: "a \<notin> set (rg type @ [?new])" if "a \<in> set (rg t)" for a
      using type_disjoint [OF ok \<open>t < NCHECKS\<close> assms(2) False that] nt [OF \<open>t < NCHECKS\<close>] that by auto
    have "type_ok ?s' t (rg t)"
    proof (rule type_ok_cong [OF t0 [OF that]])
      show "rl (ht_mem ?s') a = rl (ht_mem ?s0) a \<and> da (ht_mem ?s') a = da (ht_mem ?s0) a" if "a \<in> set (rg t)" for a
        using s2(3) m1(3) m1(4) [OF a [OF that]] by simp
    qed (use s2 False in simp)
    then show ?thesis using False by simp
  qed
  moreover have "a < ht_brk ?s' \<and> key_ok d \<and> a \<in> set (?bk (khead d)) \<and> a \<in> set (?rg (ht_type d))"
    if "da (ht_mem ?s') a = Some d" for a d
  proof (cases "a = ?new")
    case True
    then show ?thesis using that daF key et s2 by auto
  next
    case False
    then have "da (ht_mem s) a = Some d" using that daF by simp
    then show ?thesis using ht_okD(3-6) [OF ok, of a d] s2 by auto
  qed
  ultimately have "ht_ok ?s' ?bk ?rg" unfolding ht_ok_def by blast
  then show ?thesis using run daF s2 by (intro exI [of _ ?s']) simp
qed

subsection \<open>Deleting an element\<close>

definition del_heap :: "ht_heap \<Rightarrow> addr \<Rightarrow> ht_elem \<Rightarrow> ht_heap" where
  "del_heap m x e = (hback (hset (join m (ht_prev e) (ht_next e)) (ht_pprevhash e) (ht_nexthash e))
     (ht_nexthash e) (ht_pprevhash e))(x := None)"

definition del_head :: "ht_tab \<Rightarrow> addr \<Rightarrow> ht_elem \<Rightarrow> nat \<Rightarrow> addr option" where
  "del_head s x e = (if ht_head s (ht_type e) = Some x then
     (ht_head s)(ht_type e := (if ht_next e = x then None else Some (ht_prev e))) else ht_head s)"

lemma del_eq:
  assumes x: "ht_mem s x = Some e" and p: "ht_mem s (ht_prev e) \<noteq> None" and n: "ht_mem s (ht_next e) \<noteq> None"
    and c: "\<And>l. ht_pprevhash e = PNext l \<Longrightarrow> ht_mem s l \<noteq> None"
    and q: "\<And>b. ht_nexthash e = Some b \<Longrightarrow> ht_mem s b \<noteq> None"
    and single: "ht_prev e = x \<Longrightarrow> ht_next e = x"
  shows "ht_tab_del_locked s x = Some ((hcell_set (s\<lparr>ht_head := del_head s x e\<rparr>) (ht_pprevhash e)
     (ht_nexthash e))\<lparr>ht_mem := del_heap (ht_mem s) x e\<rparr>)"
proof -
  let ?p = "ht_prev e" and ?n = "ht_next e" and ?c = "ht_pprevhash e" and ?q = "ht_nexthash e"
  obtain pe ne where pn: "ht_mem s ?p = Some pe" "ht_mem s ?n = Some ne" using p n by auto
  let ?s1 = "s\<lparr>ht_head := del_head s x e\<rparr>"
  have s1: "(if ht_head s (ht_type e) = Some x then
         s\<lparr>ht_head := (ht_head s)(ht_type e := (if ht_next e = x then None else Some (ht_prev e)))\<rparr> else s) = ?s1"
    by (simp add: del_head_def)
  let ?m2 = "(ht_mem s)(?p \<mapsto> pe\<lparr>ht_next := ?n\<rparr>)"
  have u2: "ht_upd ?p (\<lambda>p. p\<lparr>ht_next := ?n\<rparr>) ?s1 = Some (?s1\<lparr>ht_mem := ?m2\<rparr>)" using pn by (simp add: ht_upd_def)
  obtain e2 where e2: "?m2 x = Some e2" "ht_next e2 = ?n" "ht_prev e2 = ?p"
    using x pn single by (cases "?p = x") auto
  let ?m3 = "join (ht_mem s) ?p ?n"
  have u3: "ht_upd ?n (\<lambda>n. n\<lparr>ht_prev := ?p\<rparr>) (?s1\<lparr>ht_mem := ?m2\<rparr>) = Some (?s1\<lparr>ht_mem := ?m3\<rparr>)"
    using pn by (simp add: ht_upd_def join_def)
  have dom3: "?m3 b \<noteq> None \<longleftrightarrow> ht_mem s b \<noteq> None" for b using join_da [of "ht_mem s" ?p ?n b] by (metis da_None)
  have u4: "hp_set (?s1\<lparr>ht_mem := ?m3\<rparr>) ?c ?q = Some ((hcell_set ?s1 ?c ?q)\<lparr>ht_mem := hset ?m3 ?c ?q\<rparr>)"
  proof (cases ?c)
    case (PNext l)
    then obtain le where "?m3 l = Some le" using c dom3 by auto
    then show ?thesis using PNext by (simp add: hp_set_def hset_def ht_upd_def)
  qed (simp_all add: hp_set_def hset_def)
  have dom4: "hset ?m3 ?c ?q b \<noteq> None \<longleftrightarrow> ht_mem s b \<noteq> None" for b
    using hset_da [of ?m3 ?c ?q b] dom3 by (metis da_None)
  have u5: "(case ?q of Some n \<Rightarrow> ht_upd n (\<lambda>x. x\<lparr>ht_pprevhash := ?c\<rparr>) ((hcell_set ?s1 ?c ?q)\<lparr>ht_mem := hset ?m3 ?c ?q\<rparr>)
       | None \<Rightarrow> Some ((hcell_set ?s1 ?c ?q)\<lparr>ht_mem := hset ?m3 ?c ?q\<rparr>)) =
      Some ((hcell_set ?s1 ?c ?q)\<lparr>ht_mem := hback (hset ?m3 ?c ?q) ?q ?c\<rparr>)"
  proof (cases ?q)
    case None
    then show ?thesis by (simp add: hback_def)
  next
    case (Some b)
    then obtain be where "hset ?m3 ?c ?q b = Some be" using q dom4 by fastforce
    then show ?thesis using Some by (simp add: hback_def ht_upd_def)
  qed
  show ?thesis
    unfolding ht_tab_del_locked_def Let_def using x s1 u2 e2 u3 u4 u5
    by (simp add: del_heap_def)
qed

lemma remove1_split: "distinct (us @ x # vs) \<Longrightarrow> remove1 x (us @ x # vs) = us @ vs"
  by (auto simp: remove1_append)

lemma del_ok:
  assumes ok: "ht_ok s bk rg" and x: "ht_mem s x = Some e"
  defines "h \<equiv> khead e" and "t \<equiv> ht_type e"
  shows "\<exists>s'. ht_tab_del_locked s x = Some s' \<and>
     ht_ok s' (bk(h := remove1 x (bk h))) (rg(t := remove1 x (rg t))) \<and>
     (\<forall>b. da (ht_mem s') b = (if b = x then None else da (ht_mem s) b)) \<and>
     ht_brk s' = ht_brk s \<and> ht_te s' = ht_te s \<and> ht_services s' = ht_services s \<and> ht_log s' = ht_log s"
proof -
  let ?m = "ht_mem s"
  have dx: "da ?m x = Some (dat e)" using x by (simp add: da_def)
  have key: "key_ok e" using ht_okD(4) [OF ok dx] by simp
  have hd: "is_head h" using khead_head [OF key] by (simp add: h_def)
  have tl: "t < NCHECKS" using key by (simp add: key_ok_def t_def)
  obtain us vs where bu: "bk h = us @ x # vs"
    using ht_okD(5) [OF ok dx] by (auto simp: h_def dest: split_list)
  obtain us' vs' where ru: "rg t = us' @ x # vs'"
    using ht_okD(6) [OF ok dx] by (auto simp: t_def dest: split_list)
  note B = ht_okD(1) [OF ok hd] and T = ht_okD(2) [OF ok tl]
  have bd: "distinct (us @ x # vs)" "hchain ?m h (us @ x # vs) (hcell s h)" using B bu by (auto simp: bucket_ok_def)
  have td: "distinct (us' @ x # vs')" "ring ?m (us' @ x # vs')" "ht_head s t = Some (last (rg t))"
    using T ru by (auto simp: type_ok_def tring_def)
  let ?c = "ht_pprevhash e" and ?q = "ht_nexthash e" and ?p = "ht_prev e" and ?n = "ht_next e"
  have hlx: "hl ?m x = Some (?c, ?q)" using x by (simp add: hl_def)
  have hn: "h \<noteq> PNext a" for a using hd by (cases h) auto
  note C = hchain_del [OF bd(2,1) hlx hn]
  have rlx: "?p = last (x # vs' @ us')" "?n = hd (vs' @ us' @ [x])"
    using ring_neighbours [OF td(2)] x by (simp_all add: rl_def)
  have tm: "?m a \<noteq> None" if "a \<in> set (rg t)" for a using typeD [OF T that] da_None [of ?m a] by auto
  have bm: "?m a \<noteq> None" if "a \<in> set (bk h)" for a using bucket_mem [OF B that] .
  have "?p \<in> set (x # vs' @ us')" unfolding rlx by (rule last_in_set) simp
  moreover have "?n \<in> set (vs' @ us' @ [x])" unfolding rlx by (rule hd_in_set) simp
  ultimately have pin: "?p \<in> set (rg t)" "?n \<in> set (rg t)" using ru by auto
  let ?s' = "(hcell_set (s\<lparr>ht_head := del_head s x e\<rparr>) ?c ?q)\<lparr>ht_mem := del_heap ?m x e\<rparr>"
  have cb: "?c = PNext l \<Longrightarrow> l \<in> set us" for l using C(2) hn by (auto split: if_splits)
  have qb: "?q = Some b \<Longrightarrow> b \<in> set vs" for b using C(3) by (auto split: list.splits)
  have run: "ht_tab_del_locked s x = Some ?s'"
  proof (rule del_eq [OF x])
    show "?m l \<noteq> None" if "?c = PNext l" for l using bm cb [OF that] bu by auto
    show "?m b \<noteq> None" if "?q = Some b" for b using bm qb [OF that] bu by auto
    show "?n = x" if px: "?p = x"
    proof -
      have "vs' @ us' = []"
      proof (rule ccontr)
        assume ne: "vs' @ us' \<noteq> []"
        then have "?p = last (vs' @ us')" using rlx by auto
        then have "?p \<in> set (vs' @ us')" using last_in_set [OF ne] by simp
        then show False using px td(1) by auto
      qed
      then show ?thesis using rlx by simp
    qed
  qed (use tm pin in auto)
  have da': "da (ht_mem ?s') b = (if b = x then None else da ?m b)" for b
  proof (cases "b = x")
    case False
    let ?h = "hback (hset (join ?m ?p ?n) ?c ?q) ?q ?c"
    have "da (ht_mem ?s') b = da ?h b" using False by (simp add: del_heap_def da_def)
    then show ?thesis using False by simp
  qed (simp add: del_heap_def da_def)
  have hl': "hl (ht_mem ?s') b = hl (hback (hset ?m ?c ?q) ?q ?c) b" if "b \<noteq> x" for b
  proof -
    have "hl (ht_mem ?s') b = hl (hback (hset (join ?m ?p ?n) ?c ?q) ?q ?c) b"
      using that by (simp add: del_heap_def hl_def)
    then show ?thesis by (simp add: hback_hl hset_hl)
  qed
  have rl': "rl (ht_mem ?s') b = rl (join ?m ?p ?n) b" if "b \<noteq> x" for b
  proof -
    have "rl (ht_mem ?s') b = rl (hback (hset (join ?m ?p ?n) ?c ?q) ?q ?c) b"
      using that by (simp add: del_heap_def rl_def)
    then show ?thesis by simp
  qed
  have cell: "hcell ?s' g = (if g = h then (if us = [] then ?q else hcell s h) else hcell s g)" if "is_head g" for g
  proof (cases "us = []")
    case True
    then have "?c = h" using C(2) by simp
    then show ?thesis using hcell_hcell_set [OF hd] True by simp
  next
    case False
    then obtain l where "?c = PNext l" using C(2) by auto
    then show ?thesis using False by simp
  qed
  let ?bk = "bk(h := remove1 x (bk h))" and ?rg = "rg(t := remove1 x (rg t))"
  have rb: "remove1 x (bk h) = us @ vs" "remove1 x (rg t) = us' @ vs'"
    using remove1_split bd(1) td(1) bu ru by simp_all
  have "bucket_ok ?s' g (?bk g)" if g: "is_head g" for g
  proof (cases "g = h")
    case True
    have "hseg (ht_mem ?s') h (us @ vs) p c' None = hseg (hback (hset ?m ?c ?q) ?q ?c) h (us @ vs) p c' None" for p c'
      by (rule hseg_cong, rule hl') (use bd(1) in auto)
    then have "hchain (ht_mem ?s') h (us @ vs) (hcell ?s' h)" using C(1) cell [OF hd] by simp
    then show ?thesis using B bd(1) bu rb(1) True da' by (auto simp: bucket_ok_def)
  next
    case False
    have "bucket_ok ?s' g (bk g)"
    proof (rule bucket_ok_cong [OF ht_okD(1) [OF ok g]])
      fix a assume "a \<in> set (bk g)"
      then have "a \<notin> set (bk h)" by (rule bucket_disjoint [OF ok g hd False])
      then have "a \<noteq> x" "?c \<noteq> PNext a" "?q \<noteq> Some a" using cb qb bu by auto
      then show "hl (ht_mem ?s') a = hl ?m a \<and> da (ht_mem ?s') a = da ?m a"
        using hl' da' by (simp add: hback_hl hset_hl)
    qed (use cell [OF g] False in simp)
    then show ?thesis using False by simp
  qed
  moreover have "type_ok ?s' u (?rg u)" if u: "u < NCHECKS" for u
  proof (cases "u = t")
    case True
    have hd': "ht_head ?s' t = (if us' @ vs' = [] then None else Some (last (us' @ vs')))"
    proof (cases "vs' = []")
      case v: True
      show ?thesis
      proof (cases "us' = []")
        case True
        then show ?thesis using v td(3) ru rlx by (simp add: del_head_def t_def)
      next
        case False
        then have "?n \<noteq> x" using v rlx td(1) by (auto simp: hd_append)
        then show ?thesis using v False td(3) ru rlx by (simp add: del_head_def t_def)
      qed
    next
      case False
      then have "last vs' \<noteq> x" using td(1) last_in_set [of vs'] by auto
      then show ?thesis using False td(3) ru by (simp add: del_head_def t_def)
    qed
    have "ring (ht_mem ?s') (us' @ vs')" if ne: "us' @ vs' \<noteq> []"
    proof -
      have "ring (join ?m (last (vs' @ us')) (hd (vs' @ us'))) (us' @ vs')"
        by (rule ring_del [OF td(2,1) ne])
      moreover have "last (vs' @ us') = ?p" "hd (vs' @ us') = ?n"
        using rlx ne by (auto simp: hd_append split: if_splits)
      moreover have "dseg (ht_mem ?s') p (us' @ vs') n = dseg (join ?m ?p ?n) p (us' @ vs') n" for p n
        by (rule dseg_cong, rule rl') (use td(1) in auto)
      ultimately show ?thesis by (simp add: ring_def)
    qed
    then show ?thesis using T td(1) ru rb(2) True da' hd' by (auto simp: type_ok_def tring_def)
  next
    case False
    have "type_ok ?s' u (rg u)"
    proof (rule type_ok_cong [OF ht_okD(2) [OF ok u]])
      fix a assume "a \<in> set (rg u)"
      then have "a \<notin> set (rg t)" by (rule type_disjoint [OF ok u tl False])
      then have "a \<noteq> x" "a \<noteq> ?p" "a \<noteq> ?n" using pin ru by auto
      then show "rl (ht_mem ?s') a = rl ?m a \<and> da (ht_mem ?s') a = da ?m a"
        using rl' da' by simp
    qed (use False in \<open>simp add: del_head_def t_def\<close>)
    then show ?thesis using False by simp
  qed
  moreover have "a < ht_brk ?s' \<and> key_ok d \<and> a \<in> set (?bk (khead d)) \<and> a \<in> set (?rg (ht_type d))"
    if "da (ht_mem ?s') a = Some d" for a d
  proof -
    have a: "a \<noteq> x" "da ?m a = Some d" using that da' by (auto split: if_splits)
    then show ?thesis using ht_okD(3-6) [OF ok a(2)] by auto
  qed
  ultimately have "ht_ok ?s' ?bk ?rg" unfolding ht_ok_def by blast
  then show ?thesis using run da' by (intro exI [of _ ?s']) simp
qed

end
