(* ===== verification/Treepoch_Tree.thy ===== *)
theory Treepoch_Tree
  imports Treepoch
begin

text \<open>
  The abstract tree behind the heap of \<^verbatim>\<open>Treepoch\<close>: a binary tree of addresses, read
  off the heap by one predicate per group of fields (links, heights, process counters,
  labels), together with the contexts that name a position in the tree.  The recursive
  functions of the source are characterised as pure updates of the heap.
\<close>

section \<open>Bit strings of one word\<close>

lemma scast_shl1: "n < 31 \<Longrightarrow> (scast (shl1_int n) :: u64) = push_bit n 1"
  by (rule bit_word_eqI) (auto simp: shl1_int_def bit_simps)

lemma scast_not_shl1: "n < 31 \<Longrightarrow> (scast (NOT (shl1_int n)) :: u64) = NOT (push_bit n 1)"
  by (rule bit_word_eqI) (auto simp: shl1_int_def bit_simps)

lemma scast_mask: "n \<le> 31 \<Longrightarrow> (scast (shl1_int n - 1) :: u64) = mask n"
  by (rule bit_word_eqI) (auto simp: shl1_int_def bit_simps simp flip: mask_eq_exp_minus_1)

lemma and_push_bit_1_neq_0: "b < 64 \<Longrightarrow> ((w :: u64) AND push_bit b 1 \<noteq> 0) = bit w b"
proof -
  assume "b < 64"
  then have "w AND push_bit b 1 = (if bit w b then push_bit b 1 else 0)"
    by (intro bit_word_eqI) (auto simp: bit_simps)
  moreover have "push_bit b (1 :: u64) \<noteq> 0"
    using \<open>b < 64\<close> by simp
  ultimately show ?thesis by simp
qed

lemma getbit_bit: "b < 31 \<Longrightarrow> getbit v b = bit (v ! 0) b"
  using and_push_bit_1_neq_0 [of b "v ! 0"] by (simp add: getbit_def scast_shl1)

lemma setbit_word:
  "b < 31 \<Longrightarrow> length v = 1 \<Longrightarrow>
   setbit v b val = [if val then (v ! 0) OR push_bit b 1 else (v ! 0) AND NOT (push_bit b 1)]"
  by (cases v) (auto simp: setbit_def Let_def scast_shl1 scast_not_shl1)

lemma bit_setbit:
  "b < 31 \<Longrightarrow> length v = 1 \<Longrightarrow> bit (setbit v b val ! 0) i = (if i = b then val else bit (v ! 0) i)"
  by (auto simp: setbit_word bit_simps dest: bit_imp_le_length)

lemma length_setbit [simp]: "length (setbit v b val) = length v"
  by (simp add: setbit_def Let_def)

lemma diffbitstr_loop_stop [simp]: "diffbitstr_loop a b w i False = (i, False)"
  by (subst diffbitstr_loop.simps) simp

declare diffbitstr_loop.simps [simp del]

lemma and_mask_neq_iff:
  "n \<le> 31 \<Longrightarrow> (a AND mask n \<noteq> b AND mask n) = (\<exists>i<n. bit a i \<noteq> bit (b :: u64) i)"
proof
  assume n: "n \<le> 31" and neq: "a AND mask n \<noteq> b AND mask n"
  show "\<exists>i<n. bit a i \<noteq> bit b i"
  proof (rule ccontr)
    assume "\<not> ?thesis"
    then have "a AND mask n = b AND mask n"
      by (intro bit_word_eqI) (auto simp: bit_simps)
    with neq show False by simp
  qed
next
  assume n: "n \<le> 31" and "\<exists>i<n. bit a i \<noteq> bit b i"
  then obtain i where i: "i < n" "bit a i \<noteq> bit b i" by blast
  with n have "bit (a AND mask n) i \<noteq> bit (b AND mask n) i" by (simp add: bit_simps)
  then show "a AND mask n \<noteq> b AND mask n" by metis
qed

lemma diffbitstr_iff:
  assumes "len \<le> 31"
  shows "diffbitstr a b len \<longleftrightarrow> (\<exists>i<len. bit (a ! 0) i \<noteq> bit (b ! 0) i)"
proof (cases "len = 0")
  case True
  then show ?thesis by (simp add: diffbitstr_def shl1_int_def)
next
  case False
  with assms have "mask len \<noteq> (0 :: u64)" by (auto simp: mask_eq_0_iff)
  with assms show ?thesis
    by (simp add: diffbitstr_def scast_mask and_mask_neq_iff)
qed

section \<open>Trees of addresses\<close>

datatype vtree = VLeaf addr | VNode addr vtree vtree

fun vroot :: "vtree \<Rightarrow> addr" where
  "vroot (VLeaf a) = a"
| "vroot (VNode a l r) = a"

fun vaddrs :: "vtree \<Rightarrow> addr list" where
  "vaddrs (VLeaf a) = [a]"
| "vaddrs (VNode a l r) = a # vaddrs l @ vaddrs r"

fun vleaves :: "vtree \<Rightarrow> addr list" where
  "vleaves (VLeaf a) = [a]"
| "vleaves (VNode a l r) = vleaves l @ vleaves r"

fun vheight :: "vtree \<Rightarrow> nat" where
  "vheight (VLeaf a) = 0"
| "vheight (VNode a l r) = max (vheight l) (vheight r) + 1"

lemma vroot_in [simp]: "vroot t \<in> set (vaddrs t)"
  by (cases t) auto

lemma vleaves_in: "a \<in> set (vleaves t) \<Longrightarrow> a \<in> set (vaddrs t)"
  by (induction t) auto

section \<open>Reading a tree off the heap\<close>

type_synonym te_heap = "addr \<rightharpoonup> treepoch"

definition lk :: "te_heap \<Rightarrow> addr \<Rightarrow> (addr option \<times> addr option \<times> addr option) option" where
  "lk m a = map_option (\<lambda>n. (te_parent n, te_sub0 n, te_sub1 n)) (m a)"

definition hgt :: "te_heap \<Rightarrow> addr \<Rightarrow> nat option" where
  "hgt m a = map_option te_subheight (m a)"

definition npr :: "te_heap \<Rightarrow> addr \<Rightarrow> nat option" where
  "npr m a = map_option te_nproc (m a)"

definition lab :: "te_heap \<Rightarrow> addr \<Rightarrow> (nat \<times> u64 list) option" where
  "lab m a = map_option (\<lambda>n. (te_len n, te_bitstr n)) (m a)"

definition ris :: "te_heap \<Rightarrow> addr \<Rightarrow> epoch_t option" where
  "ris m a = map_option te_rise (m a)"

lemmas proj_defs = lk_def hgt_def npr_def lab_def ris_def

fun links :: "te_heap \<Rightarrow> addr option \<Rightarrow> vtree \<Rightarrow> bool" where
  "links m par (VLeaf a) \<longleftrightarrow> lk m a = Some (par, None, None)"
| "links m par (VNode a l r) \<longleftrightarrow>
     lk m a = Some (par, Some (vroot l), Some (vroot r)) \<and> links m (Some a) l \<and> links m (Some a) r"

fun heights :: "te_heap \<Rightarrow> vtree \<Rightarrow> bool" where
  "heights m (VLeaf a) \<longleftrightarrow> hgt m a = Some 0"
| "heights m (VNode a l r) \<longleftrightarrow>
     hgt m a = Some (max (vheight l) (vheight r) + 1) \<and> heights m l \<and> heights m r"

fun total :: "(addr \<Rightarrow> nat) \<Rightarrow> vtree \<Rightarrow> nat" where
  "total c (VLeaf a) = c a"
| "total c (VNode a l r) = total c l + total c r"

fun counts :: "te_heap \<Rightarrow> (addr \<Rightarrow> nat) \<Rightarrow> vtree \<Rightarrow> bool" where
  "counts m c (VLeaf a) \<longleftrightarrow> npr m a = Some (c a)"
| "counts m c (VNode a l r) \<longleftrightarrow>
     npr m a = Some (total c l + total c r) \<and> counts m c l \<and> counts m c r"

text \<open>The label of a node at path \<open>p\<close>: its length, and its first bits.\<close>

definition label_ok :: "bool list \<Rightarrow> nat \<times> u64 list \<Rightarrow> bool" where
  "label_ok p lb \<longleftrightarrow> fst lb = length p \<and> length (snd lb) = 1 \<and>
     (\<forall>i<length p. bit (snd lb ! 0) i = p ! i)"

fun labels :: "te_heap \<Rightarrow> bool list \<Rightarrow> vtree \<Rightarrow> bool" where
  "labels m p (VLeaf a) \<longleftrightarrow> (\<exists>lb. lab m a = Some lb \<and> label_ok p lb)"
| "labels m p (VNode a l r) \<longleftrightarrow> (\<exists>lb. lab m a = Some lb \<and> label_ok p lb) \<and>
     labels m (p @ [False]) l \<and> labels m (p @ [True]) r"

text \<open>The weaker fact that survives every operation: the length and the last bit.\<close>

definition weak_ok :: "nat \<Rightarrow> bool \<Rightarrow> nat \<times> u64 list \<Rightarrow> bool" where
  "weak_ok d v lb \<longleftrightarrow> fst lb = d \<and> length (snd lb) = 1 \<and> (0 < d \<longrightarrow> bit (snd lb ! 0) (d - 1) = v)"

fun wlabels :: "te_heap \<Rightarrow> nat \<Rightarrow> bool \<Rightarrow> vtree \<Rightarrow> bool" where
  "wlabels m d v (VLeaf a) \<longleftrightarrow> (\<exists>lb. lab m a = Some lb \<and> weak_ok d v lb)"
| "wlabels m d v (VNode a l r) \<longleftrightarrow> (\<exists>lb. lab m a = Some lb \<and> weak_ok d v lb) \<and>
     wlabels m (d + 1) False l \<and> wlabels m (d + 1) True r"

fun rises :: "te_heap \<Rightarrow> epoch_t \<Rightarrow> vtree \<Rightarrow> bool" where
  "rises m lo (VLeaf a) \<longleftrightarrow> (\<exists>e. ris m a = Some e \<and> lo \<le> e)"
| "rises m lo (VNode a l r) \<longleftrightarrow> (\<exists>e. ris m a = Some e \<and> lo \<le> e \<and> rises m e l \<and> rises m e r)"

text \<open>Each predicate depends on its own fields of the tree's own addresses only.\<close>

lemma links_cong: "(\<And>a. a \<in> set (vaddrs t) \<Longrightarrow> lk m' a = lk m a) \<Longrightarrow> links m' par t = links m par t"
  by (induction t arbitrary: par) auto

lemma heights_cong: "(\<And>a. a \<in> set (vaddrs t) \<Longrightarrow> hgt m' a = hgt m a) \<Longrightarrow> heights m' t = heights m t"
  by (induction t) auto

lemma counts_cong:
  "(\<And>a. a \<in> set (vaddrs t) \<Longrightarrow> npr m' a = npr m a) \<Longrightarrow> counts m' c t = counts m c t"
  by (induction t) auto

lemma labels_cong: "(\<And>a. a \<in> set (vaddrs t) \<Longrightarrow> lab m' a = lab m a) \<Longrightarrow> labels m' p t = labels m p t"
  by (induction t arbitrary: p) auto

lemma wlabels_cong:
  "(\<And>a. a \<in> set (vaddrs t) \<Longrightarrow> lab m' a = lab m a) \<Longrightarrow> wlabels m' d v t = wlabels m d v t"
  by (induction t arbitrary: d v) auto

lemma rises_cong: "(\<And>a. a \<in> set (vaddrs t) \<Longrightarrow> ris m' a = ris m a) \<Longrightarrow> rises m' lo t = rises m lo t"
  by (induction t arbitrary: lo) auto

lemmas tree_congs = links_cong heights_cong counts_cong labels_cong wlabels_cong rises_cong

lemma total_cong: "(\<And>a. a \<in> set (vleaves t) \<Longrightarrow> c' a = c a) \<Longrightarrow> total c' t = total c t"
  by (induction t) auto

lemma counts_cong_fun:
  "(\<And>a. a \<in> set (vleaves t) \<Longrightarrow> c' a = c a) \<Longrightarrow> counts m c' t = counts m c t"
proof (induction t)
  case (VNode a l r)
  from VNode.prems have "total c' l = total c l" "total c' r = total c r"
    by (auto intro: total_cong)
  with VNode show ?case by simp
qed auto

lemma labels_weak: "labels m p t \<Longrightarrow> wlabels m (length p) (p \<noteq> [] \<and> last p) t"
proof (induction t arbitrary: p)
  case (VLeaf a)
  then show ?case by (auto simp: label_ok_def weak_ok_def last_conv_nth)
next
  case (VNode a l r)
  from VNode.IH(1) [of "p @ [False]"] VNode.IH(2) [of "p @ [True]"] VNode.prems show ?case
    by (auto simp: label_ok_def weak_ok_def last_conv_nth)
qed

section \<open>Contexts\<close>

text \<open>
  A position in the tree: the frames from the position up to the root, each with the
  address of the node, the side the position is on (\<open>True\<close> for \<open>sub[1]\<close>) and the
  other subtree.
\<close>

type_synonym frame = "addr \<times> bool \<times> vtree"

fun plug :: "frame list \<Rightarrow> vtree \<Rightarrow> vtree" where
  "plug [] t = t"
| "plug ((a, sd, sib) # c) t = plug c (if sd then VNode a sib t else VNode a t sib)"

fun cpar :: "frame list \<Rightarrow> addr option" where
  "cpar [] = None"
| "cpar (f # c) = Some (fst f)"

fun cpath :: "frame list \<Rightarrow> bool list" where
  "cpath [] = []"
| "cpath (f # c) = cpath c @ [fst (snd f)]"

abbreviation spine :: "frame list \<Rightarrow> addr list" where
  "spine c \<equiv> map fst c"

fun caddrs :: "frame list \<Rightarrow> addr list" where
  "caddrs [] = []"
| "caddrs ((a, sd, sib) # c) = a # vaddrs sib @ caddrs c"

fun cleaves :: "frame list \<Rightarrow> addr list" where
  "cleaves [] = []"
| "cleaves ((a, sd, sib) # c) = vleaves sib @ cleaves c"

fun clinks :: "te_heap \<Rightarrow> frame list \<Rightarrow> addr \<Rightarrow> bool" where
  "clinks m [] h \<longleftrightarrow> True"
| "clinks m ((a, sd, sib) # c) h \<longleftrightarrow>
     lk m a = Some (cpar c, Some (if sd then vroot sib else h), Some (if sd then h else vroot sib)) \<and>
     links m (Some a) sib \<and> clinks m c a"

fun cheights :: "te_heap \<Rightarrow> frame list \<Rightarrow> nat \<Rightarrow> bool" where
  "cheights m [] h \<longleftrightarrow> True"
| "cheights m ((a, sd, sib) # c) h \<longleftrightarrow>
     hgt m a = Some (max h (vheight sib) + 1) \<and> heights m sib \<and> cheights m c (max h (vheight sib) + 1)"

fun ccounts :: "te_heap \<Rightarrow> (addr \<Rightarrow> nat) \<Rightarrow> frame list \<Rightarrow> nat \<Rightarrow> bool" where
  "ccounts m cn [] k \<longleftrightarrow> True"
| "ccounts m cn ((a, sd, sib) # c) k \<longleftrightarrow>
     npr m a = Some (k + total cn sib) \<and> counts m cn sib \<and> ccounts m cn c (k + total cn sib)"

fun clabels :: "te_heap \<Rightarrow> frame list \<Rightarrow> bool" where
  "clabels m [] \<longleftrightarrow> True"
| "clabels m ((a, sd, sib) # c) \<longleftrightarrow> (\<exists>lb. lab m a = Some lb \<and> label_ok (cpath c) lb) \<and>
     labels m (cpath c @ [\<not> sd]) sib \<and> clabels m c"

definition side :: "frame list \<Rightarrow> bool" where
  "side c = (case c of [] \<Rightarrow> False | f # _ \<Rightarrow> fst (snd f))"

fun cwlabels :: "te_heap \<Rightarrow> frame list \<Rightarrow> bool" where
  "cwlabels m [] \<longleftrightarrow> True"
| "cwlabels m ((a, sd, sib) # c) \<longleftrightarrow>
     (\<exists>lb. lab m a = Some lb \<and> weak_ok (length c) (side c) lb) \<and>
     wlabels m (length c + 1) (\<not> sd) sib \<and> cwlabels m c"

fun crises :: "te_heap \<Rightarrow> epoch_t \<Rightarrow> frame list \<Rightarrow> epoch_t \<Rightarrow> bool" where
  "crises m lo [] e \<longleftrightarrow> lo = e"
| "crises m lo ((a, sd, sib) # c) e \<longleftrightarrow>
     ris m a = Some e \<and> rises m e sib \<and> (\<exists>e'. e' \<le> e \<and> crises m lo c e')"

lemma length_cpath [simp]: "length (cpath c) = length c"
  by (induction c) auto

lemma set_vaddrs_plug: "set (vaddrs (plug c t)) = set (caddrs c) \<union> set (vaddrs t)"
  by (induction c t rule: plug.induct) auto

lemma distinct_vaddrs_plug: "distinct (vaddrs (plug c t)) \<longleftrightarrow>
    distinct (caddrs c) \<and> distinct (vaddrs t) \<and> set (caddrs c) \<inter> set (vaddrs t) = {}"
proof (induction c t rule: plug.induct)
  case (2 a sd sib c t)
  then show ?case by (cases sd) auto
qed auto

lemma set_vleaves_plug: "set (vleaves (plug c t)) = set (cleaves c) \<union> set (vleaves t)"
  by (induction c t rule: plug.induct) auto

lemma links_plug: "links m None (plug c t) \<longleftrightarrow> clinks m c (vroot t) \<and> links m (cpar c) t"
proof (induction c t rule: plug.induct)
  case (2 a sd sib c t)
  then show ?case by (cases sd) auto
qed auto

lemma heights_plug: "heights m (plug c t) \<longleftrightarrow> cheights m c (vheight t) \<and> heights m t"
proof (induction c t rule: plug.induct)
  case (2 a sd sib c t)
  then show ?case by (cases sd) (auto simp: max.commute)
qed auto

lemma counts_plug: "counts m cn (plug c t) \<longleftrightarrow> ccounts m cn c (total cn t) \<and> counts m cn t"
proof (induction c t rule: plug.induct)
  case (2 a sd sib c t)
  then show ?case by (cases sd) (auto simp: add.commute)
qed auto

lemma labels_plug: "labels m [] (plug c t) \<longleftrightarrow> clabels m c \<and> labels m (cpath c) t"
proof (induction c t rule: plug.induct)
  case (2 a sd sib c t)
  then show ?case by (cases sd) auto
qed auto

lemma wlabels_plug: "wlabels m 0 v (plug c t) \<longleftrightarrow>
   cwlabels m c \<and> wlabels m (length c) (side c) t"
proof (induction c t rule: plug.induct)
  case (1 t)
  then show ?case by (cases t) (auto simp: weak_ok_def)
next
  case (2 a sd sib c t)
  then show ?case by (cases sd) (auto simp: side_def)
qed

lemma rises_plug: "rises m lo (plug c t) \<longleftrightarrow> (\<exists>e. crises m lo c e \<and> rises m e t)"
proof (induction c t rule: plug.induct)
  case (2 a sd sib c t)
  then show ?case by (cases sd) auto
qed auto

lemmas plug_simps = links_plug heights_plug counts_plug labels_plug wlabels_plug rises_plug

lemma plug_append: "plug (c @ d) t = plug d (plug c t)"
  by (induction c t rule: plug.induct) auto

lemma in_vaddrs_plug: "a \<in> set (vaddrs t) \<Longrightarrow> \<exists>c t'. t = plug c t' \<and> vroot t' = a"
proof (induction t)
  case (VLeaf b)
  then have "VLeaf b = plug [] (VLeaf b) \<and> vroot (VLeaf b) = a" by simp
  then show ?case by blast
next
  case (VNode b l r)
  show ?case
  proof (cases "a = b")
    case True
    then have "VNode b l r = plug [] (VNode b l r) \<and> vroot (VNode b l r) = a" by simp
    then show ?thesis by blast
  next
    case False
    with VNode.prems have "a \<in> set (vaddrs l) \<or> a \<in> set (vaddrs r)" by auto
    then show ?thesis
    proof
      assume "a \<in> set (vaddrs l)"
      with VNode.IH(1) obtain c t' where "l = plug c t'" "vroot t' = a" by blast
      then have "VNode b l r = plug (c @ [(b, False, r)]) t' \<and> vroot t' = a"
        by (simp add: plug_append)
      then show ?thesis by blast
    next
      assume "a \<in> set (vaddrs r)"
      with VNode.IH(2) obtain c t' where "r = plug c t'" "vroot t' = a" by blast
      then have "VNode b l r = plug (c @ [(b, True, l)]) t' \<and> vroot t' = a"
        by (simp add: plug_append)
      then show ?thesis by blast
    qed
  qed
qed

lemma in_vleaves_plug: "a \<in> set (vleaves t) \<Longrightarrow> \<exists>c. t = plug c (VLeaf a)"
proof (induction t)
  case (VLeaf b)
  then have "VLeaf b = plug [] (VLeaf a)" by simp
  then show ?case by blast
next
  case (VNode b l r)
  from VNode.prems consider "a \<in> set (vleaves l)" | "a \<in> set (vleaves r)" by auto
  then show ?case
  proof cases
    case 1
    with VNode.IH(1) obtain c where "l = plug c (VLeaf a)" by blast
    then have "VNode b l r = plug (c @ [(b, False, r)]) (VLeaf a)" by (simp add: plug_append)
    then show ?thesis by blast
  next
    case 2
    with VNode.IH(2) obtain c where "r = plug c (VLeaf a)" by blast
    then have "VNode b l r = plug (c @ [(b, True, l)]) (VLeaf a)" by (simp add: plug_append)
    then show ?thesis by blast
  qed
qed

section \<open>The recursive functions as updates of the heap\<close>

lemma te_upd_Some [simp]:
  "te_mem s a = Some n \<Longrightarrow> te_upd a f s = Some (s\<lparr>te_mem := (te_mem s)(a \<mapsto> f n)\<rparr>)"
  by (simp add: te_upd_def)

text \<open>Two heaps with the same links, counters, labels or rises.\<close>

definition relab1 :: "nat \<Rightarrow> bool \<Rightarrow> treepoch \<Rightarrow> treepoch" where
  "relab1 d v n = n\<lparr>te_len := d + 1, te_bitstr := setbit (te_bitstr n) d v\<rparr>"

fun relabel :: "te_heap \<Rightarrow> nat \<Rightarrow> bool \<Rightarrow> vtree \<Rightarrow> te_heap" where
  "relabel m d v (VLeaf a) = m(a := map_option (relab1 d v) (m a))"
| "relabel m d v (VNode a l r) =
     relabel (relabel (m(a := map_option (relab1 d v) (m a))) (d + 1) False l) (d + 1) True r"

lemma relabel_other [simp]: "b \<notin> set (vaddrs t) \<Longrightarrow> relabel m d v t b = m b"
  by (induction t arbitrary: m d v) auto

lemma relabel_lk [simp]: "lk (relabel m d v t) b = lk m b"
  by (induction t arbitrary: m d v) (auto simp: lk_def relab1_def option.map_comp comp_def)

lemma relabel_hgt [simp]: "hgt (relabel m d v t) b = hgt m b"
  by (induction t arbitrary: m d v) (auto simp: hgt_def relab1_def option.map_comp comp_def)

lemma relabel_npr [simp]: "npr (relabel m d v t) b = npr m b"
  by (induction t arbitrary: m d v) (auto simp: npr_def relab1_def option.map_comp comp_def)

lemma relabel_ris [simp]: "ris (relabel m d v t) b = ris m b"
  by (induction t arbitrary: m d v) (auto simp: ris_def relab1_def option.map_comp comp_def)

lemma links_root: "links m par t \<Longrightarrow> \<exists>x y. lk m (vroot t) = Some (par, x, y)"
  by (cases t) auto

lemma heights_root: "heights m t \<Longrightarrow> hgt m (vroot t) = Some (vheight t)"
  by (cases t) auto

lemma lkD: "lk m a = Some (p, x, y) \<Longrightarrow>
    \<exists>n. m a = Some n \<and> te_parent n = p \<and> te_sub0 n = x \<and> te_sub1 n = y"
  by (auto simp: lk_def)

lemma de_update_substr_None [simp]: "de_update_substr s None v = Some s"
  by (subst de_update_substr.simps) simp

lemma de_update_substr_eq:
  assumes "links (te_mem s) (Some p) t" "distinct (vaddrs t)" "p \<notin> set (vaddrs t)"
    and "te_mem s p = Some pn" "te_len pn = d"
  shows "de_update_substr s (Some (vroot t)) v = Some (s\<lparr>te_mem := relabel (te_mem s) d v t\<rparr>)"
  using assms
proof (induction t arbitrary: s p pn d v)
  case (VLeaf a)
  from VLeaf.prems(1) obtain n where n: "te_mem s a = Some n" "te_parent n = Some p"
    "te_sub0 n = None" "te_sub1 n = None" by (auto dest: lkD)
  with VLeaf.prems show ?case
    by (subst de_update_substr.simps) (auto simp: relab1_def fun_upd_def)
next
  case (VNode a l r)
  from VNode.prems(1) obtain n where n: "te_mem s a = Some n" "te_parent n = Some p"
    "te_sub0 n = Some (vroot l)" "te_sub1 n = Some (vroot r)" by (auto dest: lkD)
  let ?n = "relab1 d v n"
  let ?s1 = "s\<lparr>te_mem := (te_mem s)(a \<mapsto> ?n)\<rparr>"
  have nf: "a \<notin> set (vaddrs l)" "a \<notin> set (vaddrs r)" "set (vaddrs l) \<inter> set (vaddrs r) = {}"
    "distinct (vaddrs l)" "distinct (vaddrs r)"
    using VNode.prems(2) by auto
  have l1: "lk (te_mem ?s1) b = lk (te_mem s) b" for b
    using n by (auto simp: lk_def relab1_def)
  then have "links (te_mem ?s1) (Some a) l" "links (te_mem ?s1) (Some a) r"
    using VNode.prems(1) links_cong [of l "te_mem ?s1" "te_mem s"]
      links_cong [of r "te_mem ?s1" "te_mem s"] by auto
  note lr = this
  let ?s2 = "?s1\<lparr>te_mem := relabel (te_mem ?s1) (d + 1) False l\<rparr>"
  have 1: "de_update_substr ?s1 (Some (vroot l)) False = Some ?s2"
    by (rule VNode.IH(1) [OF lr(1) nf(4) nf(1), of ?n]) (simp_all add: relab1_def)
  have lr2: "links (te_mem ?s2) (Some a) r"
    using lr(2) links_cong [of r "te_mem ?s2" "te_mem ?s1"] by simp
  let ?s3 = "?s2\<lparr>te_mem := relabel (te_mem ?s2) (d + 1) True r\<rparr>"
  have 2: "de_update_substr ?s2 (Some (vroot r)) True = Some ?s3"
    by (rule VNode.IH(2) [OF lr2 nf(5) nf(2), of ?n]) (simp_all add: relab1_def nf)
  have "de_update_substr s (Some a) v = Some ?s3"
    using 1 2 n VNode.prems nf by (subst de_update_substr.simps) (simp add: relab1_def)
  then show ?case using n by simp
qed

definition one_word :: "te_heap \<Rightarrow> vtree \<Rightarrow> bool" where
  "one_word m t \<longleftrightarrow> (\<forall>a \<in> set (vaddrs t). \<exists>k bs. lab m a = Some (k, bs) \<and> length bs = 1)"

lemma wlabels_one_word: "wlabels m d v t \<Longrightarrow> one_word m t"
  by (induction t arbitrary: d v) (auto simp: one_word_def weak_ok_def)

lemma one_word_VNode: "one_word m (VNode a l r) \<longleftrightarrow>
    one_word m l \<and> one_word m r \<and> (\<exists>k bs. lab m a = Some (k, bs) \<and> length bs = 1)"
  by (auto simp: one_word_def)

lemma one_word_cong: "(\<And>a. a \<in> set (vaddrs t) \<Longrightarrow> lab m' a = lab m a) \<Longrightarrow> one_word m' t = one_word m t"
  by (auto simp: one_word_def)

lemma lab_relab1: "lab m a = Some (k, bs) \<Longrightarrow>
    lab (m(a := map_option (relab1 d v) (m a))) a = Some (d + 1, setbit bs d v)"
  by (auto simp: lab_def relab1_def)

lemma lab_other: "b \<noteq> a \<Longrightarrow> lab (m(a := x)) b = lab m b"
  by (simp add: lab_def)

lemma lab_relabel_other: "b \<notin> set (vaddrs t) \<Longrightarrow> lab (relabel m d v t) b = lab m b"
  by (simp add: lab_def)

lemma wlabels_relabel:
  assumes "one_word m t" "distinct (vaddrs t)" "d + vheight t < 31"
  shows "wlabels (relabel m d v t) (d + 1) v t"
  using assms
proof (induction t arbitrary: m d v)
  case (VLeaf a)
  then obtain k bs where "lab m a = Some (k, bs)" "length bs = 1" by (auto simp: one_word_def)
  with VLeaf.prems have "weak_ok (d + 1) v (d + 1, setbit bs d v)"
    by (simp add: weak_ok_def bit_setbit)
  with lab_relab1 [OF \<open>lab m a = Some (k, bs)\<close>] show ?case by (simp only: relabel.simps wlabels.simps) blast
next
  case (VNode a l r)
  then obtain k bs where k: "lab m a = Some (k, bs)" "length bs = 1" by (auto simp: one_word_def)
  let ?m = "m(a := map_option (relab1 d v) (m a))"
  let ?ml = "relabel ?m (d + 1) False l"
  let ?mr = "relabel ?ml (d + 1) True r"
  have nf: "a \<notin> set (vaddrs l)" "a \<notin> set (vaddrs r)" "set (vaddrs l) \<inter> set (vaddrs r) = {}"
    "distinct (vaddrs l)" "distinct (vaddrs r)"
    using VNode.prems(2) by auto
  have o: "one_word ?m l" "one_word ?m r"
    using VNode.prems(1) nf one_word_cong [of l ?m m] one_word_cong [of r ?m m]
    by (auto simp: one_word_VNode lab_other) (metis lab_other)+
  have "wlabels ?ml (d + 1 + 1) False l"
    by (rule VNode.IH(1) [OF o(1) nf(4)]) (use VNode.prems(3) in simp)
  moreover have "wlabels ?mr (d + 1 + 1) False l = wlabels ?ml (d + 1 + 1) False l"
    by (rule wlabels_cong) (use nf in \<open>auto intro: lab_relabel_other\<close>)
  moreover have "one_word ?ml r"
    using o(2) one_word_cong [of r ?ml ?m] nf by (metis disjoint_iff lab_relabel_other)
  then have "wlabels ?mr (d + 1 + 1) True r"
    by (rule VNode.IH(2) [OF _ nf(5)]) (use VNode.prems(3) in simp)
  moreover have "lab ?mr a = Some (d + 1, setbit bs d v)"
    using nf k by (simp add: lab_relabel_other lab_relab1)
  ultimately show ?case using k VNode.prems(3) by (simp add: weak_ok_def bit_setbit)
qed

lemma labels_relabel_leaf:
  assumes "lab m a = Some (k, bs)" "length bs = 1" "\<forall>i<length p. bit (bs ! 0) i = p ! i"
    and "length p < 31"
  shows "labels (relabel m (length p) v (VLeaf a)) (p @ [v]) (VLeaf a)"
proof -
  have "label_ok (p @ [v]) (length p + 1, setbit bs (length p) v)"
    using assms by (auto simp: label_ok_def bit_setbit nth_append less_Suc_eq)
  with assms show ?thesis by (simp add: lab_relab1)
qed

section \<open>Upward recursion\<close>

definition same_but_height :: "te_heap \<Rightarrow> te_heap \<Rightarrow> bool" where
  "same_but_height m' m \<longleftrightarrow> (\<forall>b. lk m' b = lk m b \<and> npr m' b = npr m b \<and> lab m' b = lab m b \<and> ris m' b = ris m b)"

lemma same_but_height_refl [simp]: "same_but_height m m"
  by (simp add: same_but_height_def)

lemma same_but_height_trans: "same_but_height m'' m' \<Longrightarrow> same_but_height m' m \<Longrightarrow> same_but_height m'' m"
  by (simp add: same_but_height_def)

lemma de_update_height_None [simp]: "de_update_height s None = Some s"
  by (subst de_update_height.simps) simp

lemma clinks_cong:
  "(\<And>a. a \<in> set (caddrs c) \<Longrightarrow> lk m' a = lk m a) \<Longrightarrow> clinks m' c h = clinks m c h"
proof (induction m c h rule: clinks.induct)
  case (2 m a sd sib c h)
  have "links m' (Some a) sib = links m (Some a) sib" using 2(2) by (intro links_cong) auto
  with 2 show ?case by simp
qed simp

lemma cheights_cong:
  "(\<And>a. a \<in> set (caddrs c) \<Longrightarrow> hgt m' a = hgt m a) \<Longrightarrow> cheights m' c h = cheights m c h"
proof (induction m c h rule: cheights.induct)
  case (2 m a sd sib c h)
  have "heights m' sib = heights m sib" using 2(2) by (intro heights_cong) auto
  with 2 show ?case by simp
qed simp

lemma ccounts_cong:
  "(\<And>a. a \<in> set (caddrs c) \<Longrightarrow> npr m' a = npr m a) \<Longrightarrow> ccounts m' cn c k = ccounts m cn c k"
proof (induction m cn c k rule: ccounts.induct)
  case (2 m cn a sd sib c k)
  have "counts m' cn sib = counts m cn sib" using 2(2) by (intro counts_cong) auto
  with 2 show ?case by simp
qed simp

lemma clabels_cong:
  "(\<And>a. a \<in> set (caddrs c) \<Longrightarrow> lab m' a = lab m a) \<Longrightarrow> clabels m' c = clabels m c"
proof (induction m c rule: clabels.induct)
  case (2 m a sd sib c)
  have "labels m' (cpath c @ [\<not> sd]) sib = labels m (cpath c @ [\<not> sd]) sib"
    using 2(2) by (intro labels_cong) auto
  with 2 show ?case by simp
qed simp

lemma cwlabels_cong:
  "(\<And>a. a \<in> set (caddrs c) \<Longrightarrow> lab m' a = lab m a) \<Longrightarrow> cwlabels m' c = cwlabels m c"
proof (induction m c rule: cwlabels.induct)
  case (2 m a sd sib c)
  have "wlabels m' (length c + 1) (\<not> sd) sib = wlabels m (length c + 1) (\<not> sd) sib"
    using 2(2) by (intro wlabels_cong) auto
  with 2 show ?case by simp
qed simp

lemma crises_cong:
  "(\<And>a. a \<in> set (caddrs c) \<Longrightarrow> ris m' a = ris m a) \<Longrightarrow> crises m' lo c e = crises m lo c e"
proof (induction m lo c e rule: crises.induct)
  case (2 m lo a sd sib c e)
  have "rises m' e sib = rises m e sib" using 2(2) by (intro rises_cong) auto
  with 2 show ?case by auto
qed simp

lemmas ctx_congs = clinks_cong cheights_cong ccounts_cong clabels_cong cwlabels_cong crises_cong

lemma de_update_height_ok:
  assumes "clinks (te_mem s) c h" "hgt (te_mem s) h = Some k" "cheights (te_mem s) c k0"
    and "distinct (h # caddrs c)"
  shows "\<exists>m'. de_update_height s (cpar c) = Some (s\<lparr>te_mem := m'\<rparr>) \<and> cheights m' c k \<and>
    same_but_height m' (te_mem s) \<and> (\<forall>b. b \<notin> set (spine c) \<longrightarrow> m' b = te_mem s b)"
  using assms
proof (induction c arbitrary: s h k k0)
  case Nil
  then show ?case by (auto intro: exI [of _ "te_mem s"])
next
  case (Cons f c)
  obtain a sd sib where f: "f = (a, sd, sib)" by (cases f)
  let ?k = "max k (vheight sib) + 1"
  from Cons.prems(1) f obtain n where n: "te_mem s a = Some n" "te_parent n = cpar c"
    "te_sub0 n = Some (if sd then vroot sib else h)" "te_sub1 n = Some (if sd then h else vroot sib)"
    by (auto dest!: lkD split: if_splits)
  from Cons.prems(2) obtain nh where nh: "te_mem s h = Some nh" "te_subheight nh = k"
    by (auto simp: hgt_def)
  from Cons.prems(3) f have "hgt (te_mem s) (vroot sib) = Some (vheight sib)"
    by (auto intro: heights_root)
  then obtain ns where ns: "te_mem s (vroot sib) = Some ns" "te_subheight ns = vheight sib"
    by (auto simp: hgt_def)
  from Cons.prems(3) f n have hn: "te_subheight n = max k0 (vheight sib) + 1" by (simp add: hgt_def)
  show ?case
  proof (cases "te_subheight n = ?k")
    case True
    with n nh ns have "de_update_height s (Some a) = Some s"
      by (subst de_update_height.simps) (auto simp: max_def)
    moreover from True hn Cons.prems(3) f have "cheights (te_mem s) (f # c) k" by auto
    ultimately show ?thesis using f by (auto intro!: exI [of _ "te_mem s"])
  next
    case False
    let ?s = "s\<lparr>te_mem := (te_mem s)(a \<mapsto> n\<lparr>te_subheight := ?k\<rparr>)\<rparr>"
    have "(if te_subheight nh > te_subheight ns then te_subheight nh else te_subheight ns) + 1 = ?k"
      "(if te_subheight ns > te_subheight nh then te_subheight ns else te_subheight nh) + 1 = ?k"
      using nh ns by (auto simp: max_def)
    with False n nh ns have step: "de_update_height s (Some a) = de_update_height ?s (cpar c)"
      by (subst de_update_height.simps) (auto simp del: One_nat_def)
    have same: "same_but_height (te_mem ?s) (te_mem s)"
      using n by (auto simp: same_but_height_def proj_defs)
    have dis: "a \<notin> set (vaddrs sib)" "a \<notin> set (caddrs c)" "distinct (a # caddrs c)"
      using Cons.prems(4) f by auto
    have "\<exists>m'. de_update_height ?s (cpar c) = Some (?s\<lparr>te_mem := m'\<rparr>) \<and> cheights m' c ?k \<and>
        same_but_height m' (te_mem ?s) \<and> (\<forall>b. b \<notin> set (spine c) \<longrightarrow> m' b = te_mem ?s b)"
    proof (rule Cons.IH)
      show "clinks (te_mem ?s) c a"
      proof (subst clinks_cong)
        show "clinks (te_mem s) c a" using Cons.prems(1) f by simp
      qed (use same in \<open>auto simp: same_but_height_def\<close>)
      show "cheights (te_mem ?s) c (max k0 (vheight sib) + 1)"
      proof (subst cheights_cong)
        show "cheights (te_mem s) c (max k0 (vheight sib) + 1)" using Cons.prems(3) f by simp
      qed (use dis in \<open>auto simp: hgt_def\<close>)
    qed (use dis in \<open>auto simp: hgt_def\<close>)
    then obtain m' where m': "de_update_height ?s (cpar c) = Some (?s\<lparr>te_mem := m'\<rparr>)"
      "cheights m' c ?k" "same_but_height m' (te_mem ?s)"
      "\<forall>b. b \<notin> set (spine c) \<longrightarrow> m' b = te_mem ?s b" by blast
    have sp: "set (spine c) \<subseteq> set (caddrs c)" by (induction c rule: caddrs.induct) auto
    have disj: "set (vaddrs sib) \<inter> set (caddrs c) = {}" using Cons.prems(4) f by auto
    have out: "m' b = te_mem s b" if "b \<in> set (vaddrs sib)" for b
    proof -
      from that disj sp have "b \<notin> set (spine c)" by auto
      moreover from that dis have "b \<noteq> a" by auto
      ultimately show ?thesis using m'(4) by simp
    qed
    have "heights m' sib = heights (te_mem s) sib"
      by (rule heights_cong) (simp add: hgt_def out)
    moreover have "a \<notin> set (spine c)" using dis sp by blast
    then have "m' a = te_mem ?s a" using m'(4) by blast
    then have "hgt m' a = Some ?k" by (simp add: hgt_def)
    ultimately have "cheights m' (f # c) k" using m'(2) Cons.prems(3) f by auto
    moreover have "same_but_height m' (te_mem s)" using m'(3) same by (rule same_but_height_trans)
    ultimately show ?thesis
      using m'(1,4) step f by (auto intro!: exI [of _ m'])
  qed
qed

definition bump :: "(nat \<Rightarrow> nat) \<Rightarrow> addr list \<Rightarrow> te_heap \<Rightarrow> te_heap" where
  "bump g as m b = (if b \<in> set as then map_option (\<lambda>n. n\<lparr>te_nproc := g (te_nproc n)\<rparr>) (m b) else m b)"

lemma bump_lk [simp]: "lk (bump g as m) b = lk m b"
  and bump_hgt [simp]: "hgt (bump g as m) b = hgt m b"
  and bump_lab [simp]: "lab (bump g as m) b = lab m b"
  and bump_ris [simp]: "ris (bump g as m) b = ris m b"
  by (auto simp: bump_def proj_defs option.map_comp comp_def)

lemma bump_npr: "npr (bump g as m) b = (if b \<in> set as then map_option g (npr m b) else npr m b)"
  by (auto simp: bump_def npr_def option.map_comp comp_def)

lemma bump_Nil [simp]: "bump g [] m = m"
  by (rule ext) (simp add: bump_def)

lemma bump_Cons: "a \<notin> set as \<Longrightarrow> m a = Some n \<Longrightarrow>
    bump g (a # as) m = bump g as (m(a \<mapsto> n\<lparr>te_nproc := g (te_nproc n)\<rparr>))"
  by (rule ext) (auto simp: bump_def)

lemma spine_caddrs: "set (spine c) \<subseteq> set (caddrs c)"
  by (induction c rule: caddrs.induct) auto

lemma distinct_spine: "distinct (caddrs c) \<Longrightarrow> distinct (spine c)"
  using spine_caddrs by (induction c rule: caddrs.induct) fastforce+

fun pchain :: "te_heap \<Rightarrow> addr list \<Rightarrow> bool" where
  "pchain m [] \<longleftrightarrow> True"
| "pchain m (a # as) \<longleftrightarrow>
     (\<exists>n. m a = Some n \<and> te_parent n = (case as of [] \<Rightarrow> None | b # _ \<Rightarrow> Some b)) \<and> pchain m as"

lemma pchain_cong: "(\<And>a. a \<in> set as \<Longrightarrow> lk m' a = lk m a) \<Longrightarrow> pchain m as \<Longrightarrow> pchain m' as"
proof (induction as)
  case (Cons a as)
  then obtain n where n: "m a = Some n" "te_parent n = (case as of [] \<Rightarrow> None | b # _ \<Rightarrow> Some b)" by auto
  moreover have "lk m' a = lk m a" using Cons.prems by simp
  ultimately obtain n' where "m' a = Some n'" "te_parent n' = te_parent n"
    by (auto simp: lk_def)
  with n Cons show ?case by auto
qed simp

lemma clinks_pchain: "clinks m c h \<Longrightarrow> pchain m (spine c)"
proof (induction m c h rule: clinks.induct)
  case (2 m a sd sib c h)
  moreover have "cpar c = (case spine c of [] \<Rightarrow> None | b # _ \<Rightarrow> Some b)"
    by (cases c) auto
  ultimately show ?case by (auto dest!: lkD)
qed simp

lemma te_newproc_eq:
  assumes "pchain (te_mem s) as" "distinct as"
  shows "te_newproc s (case as of [] \<Rightarrow> None | b # _ \<Rightarrow> Some b) =
    Some (s\<lparr>te_mem := bump ul_inc as (te_mem s)\<rparr>)"
  using assms
proof (induction as arbitrary: s)
  case Nil
  then show ?case by (subst te_newproc.simps) simp
next
  case (Cons a as)
  then obtain n where n: "te_mem s a = Some n"
    "te_parent n = (case as of [] \<Rightarrow> None | b # _ \<Rightarrow> Some b)" by auto
  let ?s = "s\<lparr>te_mem := (te_mem s)(a \<mapsto> n\<lparr>te_nproc := ul_inc (te_nproc n)\<rparr>)\<rparr>"
  have "pchain (te_mem ?s) as"
    using Cons.prems n by (intro pchain_cong [of as "te_mem ?s" "te_mem s"]) (auto simp: lk_def)
  then have "te_newproc ?s (te_parent n) = Some (?s\<lparr>te_mem := bump ul_inc as (te_mem ?s)\<rparr>)"
    unfolding n(2) by (rule Cons.IH) (use Cons.prems in simp)
  then show ?case using n Cons.prems
    by (subst te_newproc.simps) (simp add: bump_Cons)
qed

lemma te_delproc_eq:
  assumes "pchain (te_mem s) as" "distinct as"
    and "\<And>b n. b \<in> set (butlast as) \<Longrightarrow> te_mem s b = Some n \<Longrightarrow> ul_dec (te_nproc n) \<noteq> 0"
  shows "te_delproc s (case as of [] \<Rightarrow> None | b # _ \<Rightarrow> Some b) =
    Some (s\<lparr>te_mem := bump ul_dec as (te_mem s)\<rparr>)"
  using assms
proof (induction as arbitrary: s)
  case Nil
  then show ?case by (subst te_delproc.simps) simp
next
  case (Cons a as)
  then obtain n where n: "te_mem s a = Some n"
    "te_parent n = (case as of [] \<Rightarrow> None | b # _ \<Rightarrow> Some b)" by auto
  let ?s = "s\<lparr>te_mem := (te_mem s)(a \<mapsto> n\<lparr>te_nproc := ul_dec (te_nproc n)\<rparr>)\<rparr>"
  have 1: "pchain (te_mem ?s) as"
    using Cons.prems n by (intro pchain_cong [of as "te_mem ?s" "te_mem s"]) (auto simp: lk_def)
  have 2: "ul_dec (te_nproc n') \<noteq> 0" if "b \<in> set (butlast as)" "te_mem ?s b = Some n'" for b n'
    using Cons.prems(2,3) that by (cases as) (auto split: if_splits dest: in_set_butlastD)
  have "te_delproc ?s (te_parent n) = Some (?s\<lparr>te_mem := bump ul_dec as (te_mem ?s)\<rparr>)"
    unfolding n(2) by (rule Cons.IH [OF 1 _ 2]) (use Cons.prems in simp_all)
  moreover have "as \<noteq> [] \<Longrightarrow> ul_dec (te_nproc n) \<noteq> 0"
    using Cons.prems(3) [of a n] n by simp
  ultimately show ?case using n Cons.prems
    by (subst te_delproc.simps) (auto simp: bump_Cons split: list.splits)
qed

section \<open>Forking a leaf\<close>

text \<open>The assignment to the grandparent's son pointer.\<close>

definition relink :: "te_heap \<Rightarrow> frame list \<Rightarrow> addr \<Rightarrow> te_heap" where
  "relink m c h = (case c of [] \<Rightarrow> m
     | (g, sd, sib) # _ \<Rightarrow> m(g := map_option (te_set_sub sd (Some h)) (m g)))"

lemma relink_Nil [simp]: "relink m [] h = m"
  by (simp add: relink_def)

lemma relink_other [simp]: "b \<notin> set (spine c) \<Longrightarrow> relink m c h b = m b"
  by (auto simp: relink_def split: list.splits prod.splits)

lemma te_set_sub_fields [simp]:
  "te_parent (te_set_sub v p n) = te_parent n" "te_subheight (te_set_sub v p n) = te_subheight n"
  "te_nproc (te_set_sub v p n) = te_nproc n" "te_len (te_set_sub v p n) = te_len n"
  "te_bitstr (te_set_sub v p n) = te_bitstr n" "te_rise (te_set_sub v p n) = te_rise n"
  by (simp_all add: te_set_sub_def)

lemma relink_hgt [simp]: "hgt (relink m c h) b = hgt m b"
  and relink_npr [simp]: "npr (relink m c h) b = npr m b"
  and relink_lab [simp]: "lab (relink m c h) b = lab m b"
  and relink_ris [simp]: "ris (relink m c h) b = ris m b"
  by (auto simp: relink_def proj_defs option.map_comp comp_def
      split: list.splits prod.splits)

lemma relink_lk_other: "(\<And>a. c \<noteq> [] \<Longrightarrow> cpar c = Some a \<Longrightarrow> b \<noteq> a) \<Longrightarrow> lk (relink m c h) b = lk m b"
  by (auto simp: relink_def proj_defs split: list.splits prod.splits)

lemma clinks_relink:
  assumes "clinks m c h" "distinct (caddrs c)"
  shows "clinks (relink m c h') c h'"
proof (cases c)
  case Nil
  then show ?thesis by simp
next
  case (Cons f d)
  obtain a sd sib where f: "f = (a, sd, sib)" by (cases f)
  let ?m = "relink m c h'"
  from assms Cons f have old: "lk m a = Some (cpar d, Some (if sd then vroot sib else h), Some (if sd then h else vroot sib))"
    "links m (Some a) sib" "clinks m d a" by auto
  then obtain n where n: "m a = Some n" "te_parent n = cpar d"
    "te_sub0 n = Some (if sd then vroot sib else h)" "te_sub1 n = Some (if sd then h else vroot sib)"
    by (auto dest: lkD)
  then have "lk ?m a = Some (cpar d, Some (if sd then vroot sib else h'), Some (if sd then h' else vroot sib))"
    using Cons f by (auto simp: relink_def lk_def te_set_sub_def)
  moreover have same: "lk ?m b = lk m b" if "b \<noteq> a" for b
    by (rule relink_lk_other) (use that Cons f in auto)
  have "links ?m (Some a) sib = links m (Some a) sib"
    by (rule links_cong, rule same) (use assms(2) Cons f in auto)
  moreover have "clinks ?m d a = clinks m d a"
    by (rule clinks_cong, rule same) (use assms(2) Cons f in auto)
  ultimately show ?thesis using Cons f old by auto
qed

lemma side_cpar: "c \<noteq> [] \<Longrightarrow> cpar c = Some g \<Longrightarrow> m g = Some n \<Longrightarrow>
    relink m c h = m(g \<mapsto> te_set_sub (side c) (Some h) n)"
  by (cases c) (auto simp: relink_def side_def)

lemma getbit_side:
  assumes "weak_ok (length c) (side c) (k, bs)" "c \<noteq> []" "length c \<le> 31"
  shows "getbit bs (k - 1) = side c"
  using assms by (auto simp: weak_ok_def getbit_bit Suc_le_eq)

text \<open>The heap just before the labels and the heights are brought up to date.\<close>

definition split_heap :: "te_heap \<Rightarrow> frame list \<Rightarrow> addr \<Rightarrow> addr \<Rightarrow> addr \<Rightarrow> te_heap" where
  "split_heap m c old new par =
     (let ol = the (m old); z = the (m new) in
      relink (m(par \<mapsto> te_zero\<lparr>te_rise := te_rise ol, te_nproc := te_nproc ol, te_nref := 2,
                  te_sub0 := Some old, te_sub1 := Some new, te_parent := te_parent ol,
                  te_len := te_len ol, te_bitstr := te_bitstr ol, te_subheight := te_subheight ol + 1\<rparr>,
                old \<mapsto> ol\<lparr>te_rise := te_rise z, te_nproc := ul_dec (te_nproc ol), te_parent := Some par\<rparr>,
                new \<mapsto> z\<lparr>te_nproc := 1, te_nref := 0, te_parent := Some par,
                  te_bitstr := te_bitstr ol, te_subheight := 0\<rparr>)) c par)"

definition fork_heap :: "te_heap \<Rightarrow> frame list \<Rightarrow> addr \<Rightarrow> addr \<Rightarrow> addr \<Rightarrow> te_heap" where
  "fork_heap m c old new par =
     relabel (relabel (split_heap m c old new par) (length c) False (VLeaf old)) (length c) True (VLeaf new)"

lemma te_split_run:
  assumes lo: "lk (te_mem s) old = Some (cpar c, None, None)"
    and lz: "\<exists>p. lk (te_mem s) new = Some (p, None, None)"
    and cl: "clinks (te_mem s) c old" and dis: "distinct (new # old # caddrs c)"
    and fresh: "te_brk s \<notin> set (new # old # caddrs c)"
    and lab: "lab (te_mem s) old = Some lb" "weak_ok (length c) (side c) lb" "length c \<le> 31"
  shows "te_split s new old =
     de_update_height (s\<lparr>te_brk := te_brk s + 1, te_root := (if c = [] then Some (te_brk s) else te_root s),
       te_mem := fork_heap (te_mem s) c old new (te_brk s)\<rparr>) (cpar c)"
proof -
  let ?par = "te_brk s" and ?m = "te_mem s"
  from lo obtain ol where ol: "?m old = Some ol" "te_parent ol = cpar c" "te_sub0 ol = None" "te_sub1 ol = None"
    by (auto dest: lkD)
  from lz obtain z where z: "?m new = Some z" "te_sub0 z = None" "te_sub1 z = None"
    by (auto dest: lkD)
  from lab(1) ol have lb: "lb = (te_len ol, te_bitstr ol)" by (simp add: lab_def)
  from lab(2) lb have len: "te_len ol = length c" by (simp add: weak_ok_def)
  have ne: "new \<noteq> old" "?par \<noteq> new" "?par \<noteq> old" "old \<notin> set (caddrs c)" "new \<notin> set (caddrs c)"
    "?par \<notin> set (caddrs c)" using dis fresh by auto
  let ?P = "te_zero\<lparr>te_rise := te_rise ol, te_nproc := te_nproc ol, te_nref := 2,
                  te_sub0 := Some old, te_sub1 := Some new, te_parent := te_parent ol,
                  te_len := te_len ol, te_bitstr := te_bitstr ol, te_subheight := te_subheight ol + 1\<rparr>"
  let ?O = "ol\<lparr>te_rise := te_rise z, te_nproc := ul_dec (te_nproc ol), te_parent := Some ?par\<rparr>"
  let ?Z = "z\<lparr>te_nproc := 1, te_nref := 0, te_parent := Some ?par, te_bitstr := te_bitstr ol, te_subheight := 0\<rparr>"
  define m3 where "m3 = ?m(?par \<mapsto> ?P, old \<mapsto> ?O, new \<mapsto> ?Z)"
  let ?s3 = "s\<lparr>te_brk := ?par + 1, te_mem := m3\<rparr>"
  let ?m4 = "split_heap ?m c old new ?par"
  let ?s4 = "s\<lparr>te_brk := ?par + 1, te_root := (if c = [] then Some ?par else te_root s), te_mem := ?m4\<rparr>"
  have m4: "?m4 = relink m3 c ?par" using ol z by (simp add: split_heap_def Let_def m3_def)
  have "(case te_parent ol of None \<Rightarrow> Some (?s3\<lparr>te_root := Some ?par\<rparr>)
       | Some g \<Rightarrow> te_upd g (te_set_sub (getbit (te_bitstr ol) (te_len ol - 1)) (Some ?par)) ?s3) = Some ?s4"
  proof (cases c)
    case Nil
    then show ?thesis using ol m4 by simp
  next
    case (Cons f d)
    obtain g sd sib where f: "f = (g, sd, sib)" by (cases f)
    with Cons cl obtain n where n: "?m g = Some n" by (auto dest: lkD)
    have g: "cpar c = Some g" "g \<in> set (caddrs c)" using Cons f by auto
    then have m3g: "m3 g = Some n" using n ne by (auto simp: m3_def)
    then have "?m4 = m3(g \<mapsto> te_set_sub (side c) (Some ?par) n)"
      unfolding m4 using Cons g by (intro side_cpar) auto
    moreover have "getbit (te_bitstr ol) (te_len ol - 1) = side c"
      by (rule getbit_side) (use lab lb Cons in auto)
    moreover have "te_upd g h ?s3 = Some (?s3\<lparr>te_mem := m3(g \<mapsto> h n)\<rparr>)" for h
      using m3g by simp
    ultimately show ?thesis using ol g Cons by simp
  qed
  note s4 = this
  have sp: "x \<notin> set (spine c)" if "x \<notin> set (caddrs c)" for x using spine_caddrs that by blast
  have in4: "?m4 ?par = Some ?P" "?m4 old = Some ?O" "?m4 new = Some ?Z"
    using ne sp by (simp_all add: m4 m3_def)
  let ?m5 = "relabel ?m4 (length c) False (VLeaf old)"
  have s5: "de_update_substr ?s4 (Some old) False = Some (?s4\<lparr>te_mem := ?m5\<rparr>)"
    using de_update_substr_eq [of ?s4 ?par "VLeaf old" ?P "length c" False] in4 ne ol len
    by (simp add: lk_def)
  have in5: "?m5 ?par = Some ?P" "?m5 new = Some ?Z" using in4 ne by simp_all
  have s6: "de_update_substr (?s4\<lparr>te_mem := ?m5\<rparr>) (Some new) True =
      Some (?s4\<lparr>te_mem := fork_heap ?m c old new ?par\<rparr>)"
    using de_update_substr_eq [of "?s4\<lparr>te_mem := ?m5\<rparr>" ?par "VLeaf new" ?P "length c" True] in5 ne z len
    by (simp add: lk_def fork_heap_def)
  have "te_split s new old = Option.bind
     (case te_parent ol of None \<Rightarrow> Some (?s3\<lparr>te_root := Some ?par\<rparr>)
       | Some g \<Rightarrow> te_upd g (te_set_sub (getbit (te_bitstr ol) (te_len ol - 1)) (Some ?par)) ?s3)
     (\<lambda>s4. Option.bind (de_update_substr s4 (Some old) False) (\<lambda>s5.
        Option.bind (de_update_substr s5 (Some new) True) (\<lambda>s6. de_update_height s6 (te_parent ol))))"
    using ol(1) z(1) ne by (cases "te_parent ol") (simp_all add: te_split_def te_calloc_def Let_def m3_def)
  also have "\<dots> = de_update_height (?s4\<lparr>te_mem := fork_heap ?m c old new ?par\<rparr>) (cpar c)"
    unfolding s4 using s5 s6 ol(2) by simp
  finally show ?thesis by simp
qed

lemma fork_heap_node:
  assumes "m old = Some ol" "m new = Some z" "distinct [old, new, par]" "old \<notin> set (spine c)"
    "new \<notin> set (spine c)" "par \<notin> set (spine c)" "lab m old = Some (length c, bs)"
  shows "lk (fork_heap m c old new par) par = Some (te_parent ol, Some old, Some new)"
    and "lk (fork_heap m c old new par) old = Some (Some par, te_sub0 ol, te_sub1 ol)"
    and "lk (fork_heap m c old new par) new = Some (Some par, te_sub0 z, te_sub1 z)"
    and "hgt (fork_heap m c old new par) par = Some (te_subheight ol + 1)"
    and "hgt (fork_heap m c old new par) old = Some (te_subheight ol)"
    and "hgt (fork_heap m c old new par) new = Some 0"
    and "npr (fork_heap m c old new par) par = Some (te_nproc ol)"
    and "npr (fork_heap m c old new par) old = Some (ul_dec (te_nproc ol))"
    and "npr (fork_heap m c old new par) new = Some 1"
    and "ris (fork_heap m c old new par) par = Some (te_rise ol)"
    and "ris (fork_heap m c old new par) old = Some (te_rise z)"
    and "ris (fork_heap m c old new par) new = Some (te_rise z)"
    and "lab (fork_heap m c old new par) par = Some (length c, bs)"
    and "lab (fork_heap m c old new par) old = Some (length c + 1, setbit bs (length c) False)"
    and "lab (fork_heap m c old new par) new = Some (length c + 1, setbit bs (length c) True)"
  using assms
  by (simp_all add: fork_heap_def split_heap_def Let_def proj_defs relab1_def te_zero_def)

lemma fork_heap_other:
  "b \<notin> {old, new, par} \<Longrightarrow> b \<notin> set (spine c) \<Longrightarrow> fork_heap m c old new par b = m b"
  by (simp add: fork_heap_def split_heap_def Let_def)

lemma fork_heap_ctx:
  assumes "b \<notin> {old, new, par}"
  shows "hgt (fork_heap m c old new par) b = hgt m b" "npr (fork_heap m c old new par) b = npr m b"
    "ris (fork_heap m c old new par) b = ris m b" "lab (fork_heap m c old new par) b = lab m b"
    "lk (fork_heap m c old new par) b = lk (relink m c par) b"
proof -
  have 1: "fork_heap m c old new par b = split_heap m c old new par b"
    using assms by (simp add: fork_heap_def)
  let ?r = "\<lambda>P Q Z. relink (m(par := P, old := Q, new := Z)) c par"
  have "hgt (?r P Q Z) b = hgt m b \<and> npr (?r P Q Z) b = npr m b \<and> ris (?r P Q Z) b = ris m b \<and>
      lab (?r P Q Z) b = lab m b" for P Q Z
    unfolding relink_hgt relink_npr relink_ris relink_lab using assms by (simp add: proj_defs)
  moreover have "lk (?r P Q Z) b = lk (relink m c par) b" for P Q Z
    using assms by (auto simp: relink_def lk_def split: list.splits)
  ultimately show "hgt (fork_heap m c old new par) b = hgt m b" "npr (fork_heap m c old new par) b = npr m b"
    "ris (fork_heap m c old new par) b = ris m b" "lab (fork_heap m c old new par) b = lab m b"
    "lk (fork_heap m c old new par) b = lk (relink m c par) b"
    using 1 unfolding hgt_def npr_def ris_def lab_def lk_def split_heap_def Let_def by simp_all
qed

lemma cleaves_caddrs: "set (cleaves c) \<subseteq> set (caddrs c)"
  by (induction c rule: caddrs.induct) (auto dest: vleaves_in)

lemma ccounts_cong_fun:
  "(\<And>a. a \<in> set (cleaves c) \<Longrightarrow> cn' a = cn a) \<Longrightarrow> ccounts m cn' c k = ccounts m cn c k"
proof (induction m cn c k rule: ccounts.induct)
  case (2 m cn a sd sib c k)
  then have "total cn' sib = total cn sib" "counts m cn' sib = counts m cn sib"
    by (auto intro!: total_cong counts_cong_fun)
  with 2 show ?case by simp
qed simp

lemma te_split_ok:
  assumes lk: "links (te_mem s) None (plug c (VLeaf old))"
    and z: "te_mem s new = Some z" "te_sub0 z = None" "te_sub1 z = None"
    and dis: "distinct (vaddrs (plug c (VLeaf old)))" "new \<notin> set (vaddrs (plug c (VLeaf old)))"
    and fresh: "te_brk s \<notin> insert new (set (vaddrs (plug c (VLeaf old))))"
    and hg: "heights (te_mem s) (plug c (VLeaf old))"
    and wl: "wlabels (te_mem s) 0 False (plug c (VLeaf old))" and len: "length c < 31"
  defines "t' \<equiv> plug c (VNode (te_brk s) (VLeaf old) (VLeaf new))"
  shows "\<exists>m'. te_split s new old = Some (s\<lparr>te_brk := te_brk s + 1,
            te_root := (if c = [] then Some (te_brk s) else te_root s), te_mem := m'\<rparr>) \<and>
     links m' None t' \<and> heights m' t' \<and> wlabels m' 0 False t' \<and>
     (labels (te_mem s) [] (plug c (VLeaf old)) \<longrightarrow> labels m' [] t') \<and>
     (\<forall>cn. counts (te_mem s) cn (plug c (VLeaf old)) \<longrightarrow> 1 < cn old \<longrightarrow> cn old < 2 ^ 64 \<longrightarrow>
        counts m' (cn(old := cn old - 1, new := 1)) t') \<and>
     (\<forall>lo. rises (te_mem s) lo (plug c (VLeaf old)) \<longrightarrow> (\<forall>e. ris (te_mem s) old = Some e \<longrightarrow> e \<le> te_rise z) \<longrightarrow>
        rises m' lo t') \<and>
     (\<forall>b. ris m' b = (if b = te_brk s then ris (te_mem s) old
        else if b = old \<or> b = new then Some (te_rise z) else ris (te_mem s) b)) \<and>
     (\<forall>b. b \<notin> set (vaddrs t') \<longrightarrow> m' b = te_mem s b)"
proof -
  let ?m = "te_mem s" and ?par = "te_brk s"
  let ?M = "fork_heap ?m c old new ?par"
  from lk have lkp: "clinks ?m c old" "lk ?m old = Some (cpar c, None, None)"
    by (auto simp: links_plug)
  then obtain ol where ol: "?m old = Some ol" "te_parent ol = cpar c" "te_sub0 ol = None" "te_sub1 ol = None"
    by (auto dest: lkD)
  from wl obtain lb where lb: "lab ?m old = Some lb" "weak_ok (length c) (side c) lb"
    by (auto simp: wlabels_plug)
  then obtain bs where bs: "lab ?m old = Some (length c, bs)" "length bs = 1"
    by (cases lb) (auto simp: weak_ok_def)
  from dis have dd: "distinct (new # old # caddrs c)"
    by (auto simp: distinct_vaddrs_plug set_vaddrs_plug)
  from fresh have ff: "?par \<notin> set (new # old # caddrs c)" by (auto simp: set_vaddrs_plug)
  have nsp: "old \<notin> set (spine c)" "new \<notin> set (spine c)" "?par \<notin> set (spine c)"
    using dd ff spine_caddrs [of c] by auto
  have d3: "distinct [old, new, ?par]" using dd ff by auto
  note N = fork_heap_node [OF ol(1) z(1) d3 nsp bs(1)]
  have B: "b \<notin> {old, new, ?par}" if "b \<in> set (caddrs c)" for b using that dd ff by auto
  have ho: "te_subheight ol = 0" using hg ol by (simp add: heights_plug hgt_def)
  let ?s = "s\<lparr>te_brk := ?par + 1, te_root := (if c = [] then Some ?par else te_root s), te_mem := ?M\<rparr>"
  have run: "te_split s new old = de_update_height ?s (cpar c)"
    by (rule te_split_run) (use lkp z dd ff lb len in \<open>auto simp: lk_def\<close>)
  have cl: "clinks ?M c ?par"
  proof (subst clinks_cong)
    show "clinks (relink ?m c ?par) c ?par" by (rule clinks_relink [OF lkp(1)]) (use dd in simp)
  qed (use B in \<open>simp add: fork_heap_ctx\<close>)
  have ch: "cheights ?M c 0"
    using hg B cheights_cong [of c ?M ?m] by (simp add: heights_plug fork_heap_ctx)
  have "\<exists>m'. de_update_height ?s (cpar c) = Some (?s\<lparr>te_mem := m'\<rparr>) \<and> cheights m' c 1 \<and>
    same_but_height m' (te_mem ?s) \<and> (\<forall>b. b \<notin> set (spine c) \<longrightarrow> m' b = te_mem ?s b)"
    by (rule de_update_height_ok) (use cl ch N(4) ho dd ff in auto)
  then obtain m' where m': "de_update_height ?s (cpar c) = Some (?s\<lparr>te_mem := m'\<rparr>)"
    "cheights m' c 1" "same_but_height m' ?M" "\<And>b. b \<notin> set (spine c) \<Longrightarrow> m' b = ?M b" by auto
  have S: "lk m' b = lk ?M b" "npr m' b = npr ?M b" "lab m' b = lab ?M b" "ris m' b = ris ?M b" for b
    using m'(3) by (auto simp: same_but_height_def)
  have H: "hgt m' old = Some 0" "hgt m' new = Some 0" "hgt m' ?par = Some 1"
    using m'(4) nsp N ho by (simp_all add: hgt_def)
  have "links m' None t'"
    using cl S N ol z clinks_cong [of c m' ?M] by (simp add: t'_def links_plug)
  moreover have "heights m' t'" using m'(2) H by (simp add: t'_def heights_plug)
  moreover have "wlabels m' 0 False t'"
  proof -
    have "cwlabels m' c" using wl B cwlabels_cong [of c m' ?m]
      by (simp add: wlabels_plug S fork_heap_ctx)
    then show ?thesis using N S lb bs len
      by (simp add: t'_def wlabels_plug weak_ok_def bit_setbit)
  qed
  moreover have "labels m' [] t'" if "labels ?m [] (plug c (VLeaf old))"
  proof -
    have "clabels m' c" using that B clabels_cong [of c m' ?m]
      by (simp add: labels_plug S fork_heap_ctx)
    moreover have "label_ok (cpath c) (length c, bs)" using that bs by (simp add: labels_plug)
    ultimately show ?thesis using N S bs len
      by (auto simp: t'_def labels_plug label_ok_def bit_setbit nth_append less_Suc_eq)
  qed
  moreover have "counts m' (cn(old := cn old - 1, new := 1)) t'"
    if cn: "counts ?m cn (plug c (VLeaf old))" "1 < cn old" "cn old < 2 ^ 64" for cn
  proof -
    let ?cn = "cn(old := cn old - 1, new := 1)"
    have nl: "old \<notin> set (cleaves c)" "new \<notin> set (cleaves c)" using cleaves_caddrs [of c] dd by auto
    have "ccounts m' cn c (cn old)" using cn B ccounts_cong [of c m' ?m]
      by (simp add: counts_plug S fork_heap_ctx)
    then have "ccounts m' ?cn c (cn old)" by (subst ccounts_cong_fun) (use nl in auto)
    moreover have "te_nproc ol = cn old" using cn(1) ol by (simp add: counts_plug npr_def)
    ultimately show ?thesis using N S cn d3 ul_dec_eq [of "cn old"]
      by (simp add: t'_def counts_plug)
  qed
  moreover have "rises m' lo t'" if r: "rises ?m lo (plug c (VLeaf old))"
    "\<forall>e. ris ?m old = Some e \<longrightarrow> e \<le> te_rise z" for lo
  proof -
    from r(1) obtain e where e: "crises ?m lo c e" "e \<le> te_rise ol"
      using ol by (auto simp: rises_plug ris_def)
    then have "crises m' lo c e" using B crises_cong [of c m' ?m] by (simp add: S fork_heap_ctx)
    then show ?thesis using N S e r(2) ol by (auto simp: t'_def rises_plug ris_def)
  qed
  moreover have "ris m' b = (if b = ?par then ris ?m old else if b = old \<or> b = new then Some (te_rise z)
      else ris ?m b)" for b
    using fork_heap_ctx(3) [of b old new ?par ?m c] N(10,11,12) d3 ol unfolding S
    by (cases "b \<in> {old, new, ?par}") (auto simp: ris_def)
  moreover have "m' b = ?m b" if "b \<notin> set (vaddrs t')" for b
  proof -
    from that have "b \<notin> {old, new, ?par}" "b \<notin> set (caddrs c)" by (auto simp: t'_def set_vaddrs_plug)
    moreover then have "b \<notin> set (spine c)" using spine_caddrs by blast
    ultimately show ?thesis using m'(4) by (simp add: fork_heap_other)
  qed
  ultimately show ?thesis using run m'(1) by (auto intro!: exI [of _ m'])
qed

section \<open>Removing a leaf\<close>

definition drop_heap :: "te_heap \<Rightarrow> frame list \<Rightarrow> addr \<Rightarrow> addr \<Rightarrow> addr \<Rightarrow> te_heap" where
  "drop_heap m c par x other =
     (let pn = the (m par); on = the (m other); xn = the (m x) in
      relink (m(other \<mapsto> on\<lparr>te_parent := te_parent pn, te_rise := te_rise pn, te_len := te_len pn,
                  te_bitstr := te_bitstr pn\<rparr>,
                x \<mapsto> xn\<lparr>te_parent := Some other, te_viewname := None\<rparr>)) c other)"

fun relabel_subs :: "te_heap \<Rightarrow> nat \<Rightarrow> vtree \<Rightarrow> te_heap" where
  "relabel_subs m d (VLeaf a) = m"
| "relabel_subs m d (VNode a l r) = relabel (relabel m d False l) d True r"

definition remove_heap :: "te_heap \<Rightarrow> frame list \<Rightarrow> addr \<Rightarrow> addr \<Rightarrow> vtree \<Rightarrow> te_heap" where
  "remove_heap m c par x sib = relabel_subs (drop_heap m c par x (vroot sib)) (length c) sib"

lemma relabel_subs_proj [simp]:
  "lk (relabel_subs m d t) b = lk m b" "hgt (relabel_subs m d t) b = hgt m b"
  "npr (relabel_subs m d t) b = npr m b" "ris (relabel_subs m d t) b = ris m b"
  by (cases t; simp)+

lemma relabel_subs_other: "b \<notin> set (vaddrs t) \<Longrightarrow> relabel_subs m d t b = m b"
  by (cases t) auto

lemma relabel_subs_root: "distinct (vaddrs t) \<Longrightarrow> relabel_subs m d t (vroot t) = m (vroot t)"
  by (cases t) auto

text \<open>The two recursive calls on the branches of \<open>other\<close>.\<close>

lemma de_update_subs:
  assumes "links (te_mem s) p t" "distinct (vaddrs t)" "te_mem s (vroot t) = Some n" "te_len n = d"
  shows "do {
     n4 \<leftarrow> te_mem s (vroot t);
     s5 \<leftarrow> de_update_substr s (te_sub0 n4) False;
     n5 \<leftarrow> te_mem s5 (vroot t);
     s6 \<leftarrow> de_update_substr s5 (te_sub1 n5) True;
     n6 \<leftarrow> te_mem s6 (vroot t);
     de_update_height s6 (te_parent n6)
   } = de_update_height (s\<lparr>te_mem := relabel_subs (te_mem s) d t\<rparr>) p"
proof (cases t)
  case (VLeaf a)
  then show ?thesis using assms by (auto dest: lkD)
next
  case (VNode a l r)
  from assms VNode have ln: "links (te_mem s) (Some a) l" "links (te_mem s) (Some a) r"
    "te_mem s a = Some n" "te_sub0 n = Some (vroot l)" "te_sub1 n = Some (vroot r)" "te_parent n = p"
    by (auto dest: lkD)
  have di: "a \<notin> set (vaddrs l)" "a \<notin> set (vaddrs r)" "distinct (vaddrs l)" "distinct (vaddrs r)"
    "set (vaddrs l) \<inter> set (vaddrs r) = {}" using assms(2) VNode by auto
  let ?m5 = "relabel (te_mem s) d False l"
  have 5: "de_update_substr s (Some (vroot l)) False = Some (s\<lparr>te_mem := ?m5\<rparr>)"
    by (rule de_update_substr_eq [OF ln(1)]) (use di ln assms(4) in auto)
  have lr: "links ?m5 (Some a) r"
    using ln(2) links_cong [of r ?m5 "te_mem s" "Some a"] by simp
  have 6: "de_update_substr (s\<lparr>te_mem := ?m5\<rparr>) (Some (vroot r)) True =
      Some (s\<lparr>te_mem := relabel ?m5 d True r\<rparr>)"
    using de_update_substr_eq [of "s\<lparr>te_mem := ?m5\<rparr>" a r n d True] lr di ln assms(4) by simp
  show ?thesis using VNode ln 5 6 di by simp
qed

lemma te_remove_run:
  assumes lp: "lk (te_mem s) par = Some (cpar c, Some (if sd then vroot sib else x), Some (if sd then x else vroot sib))"
    and ls: "links (te_mem s) (Some par) sib" and lx: "te_mem s x = Some xn" and cl: "clinks (te_mem s) c par"
    and dis: "distinct (x # par # vaddrs sib @ caddrs c)"
    and lab: "lab (te_mem s) par = Some lb" "weak_ok (length c) (side c) lb" "length c \<le> 31"
  shows "te_remove s x par =
     de_update_height (s\<lparr>te_root := (if c = [] then Some (vroot sib) else te_root s),
       te_mem := remove_heap (te_mem s) c par x sib\<rparr>) (cpar c)"
proof -
  let ?m = "te_mem s" and ?o = "vroot sib"
  from lp obtain pn where pn: "?m par = Some pn" "te_parent pn = cpar c"
    "te_sub0 pn = Some (if sd then ?o else x)" "te_sub1 pn = Some (if sd then x else ?o)"
    by (auto dest: lkD)
  from ls obtain on where on: "?m ?o = Some on" by (auto dest!: links_root lkD)
  from lab(1) pn have lb: "lb = (te_len pn, te_bitstr pn)" by (simp add: lab_def)
  from lab(2) lb have len: "te_len pn = length c" by (simp add: weak_ok_def)
  have ne: "x \<noteq> ?o" "par \<noteq> x" "par \<noteq> ?o" "x \<notin> set (caddrs c)" "?o \<notin> set (caddrs c)"
    "par \<notin> set (caddrs c)" using dis vroot_in [of sib] by (auto simp del: vroot_in simp: disjoint_iff)
  have oth: "(if te_sub0 pn = Some x then te_sub1 pn else te_sub0 pn) = Some ?o"
    using pn ne by auto
  let ?N = "on\<lparr>te_parent := te_parent pn, te_rise := te_rise pn\<rparr>"
  let ?N' = "on\<lparr>te_parent := te_parent pn, te_rise := te_rise pn, te_len := te_len pn, te_bitstr := te_bitstr pn\<rparr>"
  let ?X = "xn\<lparr>te_parent := Some ?o, te_viewname := None\<rparr>"
  let ?s1 = "s\<lparr>te_mem := ?m(?o \<mapsto> ?N)\<rparr>"
  let ?r = "if c = [] then Some ?o else te_root s"
  let ?m2 = "relink (?m(?o \<mapsto> ?N)) c ?o"
  let ?m4 = "drop_heap ?m c par x ?o"
  have sp: "b \<notin> set (spine c)" if "b \<notin> set (caddrs c)" for b using spine_caddrs that by blast
  have rl: "relink (m(b := v)) c ?o = (relink m c ?o)(b := v)" if "b \<notin> set (spine c)" for m v b
    using that by (auto simp: relink_def fun_upd_twist split: list.splits prod.splits)
  have s2: "(case te_parent pn of None \<Rightarrow> Some (?s1\<lparr>te_root := Some ?o\<rparr>)
       | Some g \<Rightarrow> te_upd g (te_set_sub (getbit (te_bitstr pn) (te_len pn - 1)) (Some ?o)) ?s1) =
      Some (s\<lparr>te_root := ?r, te_mem := ?m2\<rparr>)"
  proof (cases c)
    case Nil
    then show ?thesis using pn by simp
  next
    case (Cons f d)
    obtain g sd' sib' where f: "f = (g, sd', sib')" by (cases f)
    with Cons cl obtain n where n: "?m g = Some n" by (auto dest: lkD)
    have g: "cpar c = Some g" "g \<in> set (caddrs c)" using Cons f by auto
    then have mg: "(?m(?o \<mapsto> ?N)) g = Some n" using n ne by auto
    then have "?m2 = (?m(?o \<mapsto> ?N))(g \<mapsto> te_set_sub (side c) (Some ?o) n)"
      using Cons g by (intro side_cpar) auto
    moreover have "getbit (te_bitstr pn) (te_len pn - 1) = side c"
      by (rule getbit_side) (use lab lb Cons in auto)
    moreover have "te_upd g h ?s1 = Some (?s1\<lparr>te_mem := (?m(?o \<mapsto> ?N))(g \<mapsto> h n)\<rparr>)" for h
      using mg by simp
    ultimately show ?thesis using pn g Cons by simp
  qed
  have m2: "?m2 = (relink ?m c ?o)(?o \<mapsto> ?N)" by (rule rl) (use sp ne in auto)
  have m4: "?m4 = (relink ?m c ?o)(?o \<mapsto> ?N', x \<mapsto> ?X)"
    using pn on lx sp ne by (simp add: drop_heap_def Let_def rl)
  have m2x: "relink ?m c ?o x = Some xn" using lx sp ne by simp
  let ?s4 = "s\<lparr>te_root := ?r, te_mem := ?m4\<rparr>"
  have "te_remove s x par = Option.bind
     (case te_parent pn of None \<Rightarrow> Some (?s1\<lparr>te_root := Some ?o\<rparr>)
       | Some g \<Rightarrow> te_upd g (te_set_sub (getbit (te_bitstr pn) (te_len pn - 1)) (Some ?o)) ?s1)
     (\<lambda>s2. do {
       s3 \<leftarrow> te_upd ?o (\<lambda>n. n\<lparr>te_len := te_len pn, te_bitstr := te_bitstr pn\<rparr>) s2;
       s4 \<leftarrow> te_upd x (\<lambda>n. n\<lparr>te_parent := Some ?o, te_viewname := None\<rparr>) s3;
       n4 \<leftarrow> te_mem s4 ?o;
       s5 \<leftarrow> de_update_substr s4 (te_sub0 n4) False;
       n5 \<leftarrow> te_mem s5 ?o;
       s6 \<leftarrow> de_update_substr s5 (te_sub1 n5) True;
       n6 \<leftarrow> te_mem s6 ?o;
       de_update_height s6 (te_parent n6)
     })"
    using pn(1) on oth by (simp add: te_remove_def)
  also have "\<dots> = do {
       n4 \<leftarrow> te_mem ?s4 ?o;
       s5 \<leftarrow> de_update_substr ?s4 (te_sub0 n4) False;
       n5 \<leftarrow> te_mem s5 ?o;
       s6 \<leftarrow> de_update_substr s5 (te_sub1 n5) True;
       n6 \<leftarrow> te_mem s6 ?o;
       de_update_height s6 (te_parent n6)
     }"
    unfolding s2 using m2x ne by (simp add: m2 m4)
  also have "\<dots> = de_update_height (?s4\<lparr>te_mem := relabel_subs (te_mem ?s4) (length c) sib\<rparr>) (cpar c)"
  proof (rule de_update_subs [of _ _ _ ?N'])
    show "links (te_mem ?s4) (cpar c) sib"
    proof (cases sib)
      case (VLeaf a)
      have "lk ?m4 ?o = Some (cpar c, te_sub0 on, te_sub1 on)" using ne pn by (simp add: m4 lk_def)
      then show ?thesis using ls on VLeaf by (auto simp: lk_def)
    next
      case (VNode a l r)
      have same: "lk ?m4 b = lk ?m b" if "b \<in> set (vaddrs l) \<union> set (vaddrs r)" for b
      proof -
        have "b \<noteq> ?o" "b \<noteq> x" "b \<notin> set (caddrs c)" using that dis VNode by auto
        then show ?thesis using sp by (simp add: m4 lk_def)
      qed
      then have "links ?m4 (Some a) l" "links ?m4 (Some a) r"
        using ls VNode links_cong [of l ?m4 ?m] links_cong [of r ?m4 ?m] by auto
      moreover have "lk ?m4 a = Some (cpar c, Some (vroot l), Some (vroot r))"
      proof -
        have "lk ?m4 ?o = Some (cpar c, te_sub0 on, te_sub1 on)" using ne pn by (simp add: m4 lk_def)
        then show ?thesis using ls on VNode by (auto simp: lk_def)
      qed
      ultimately show ?thesis using VNode by simp
    qed
  qed (use m4 ne dis len in auto)
  finally show ?thesis by (simp add: remove_heap_def)
qed

lemma drop_heap_other:
  assumes "b \<notin> {x, other}" "b \<notin> set (spine c)"
  shows "drop_heap m c par x other b = m b"
  using assms by (simp add: drop_heap_def Let_def)

lemma drop_heap_node:
  assumes "m par = Some pn" "m other = Some on" "m x = Some xn" "x \<noteq> other"
    "x \<notin> set (spine c)" "other \<notin> set (spine c)"
  shows "drop_heap m c par x other x = Some (xn\<lparr>te_parent := Some other, te_viewname := None\<rparr>)"
    and "drop_heap m c par x other other = Some (on\<lparr>te_parent := te_parent pn, te_rise := te_rise pn,
           te_len := te_len pn, te_bitstr := te_bitstr pn\<rparr>)"
  using assms by (simp_all add: drop_heap_def Let_def)

lemma drop_heap_ctx:
  assumes "b \<notin> {x, other}"
  shows "hgt (drop_heap m c par x other) b = hgt m b" "npr (drop_heap m c par x other) b = npr m b"
    "ris (drop_heap m c par x other) b = ris m b" "lab (drop_heap m c par x other) b = lab m b"
    "lk (drop_heap m c par x other) b = lk (relink m c other) b"
proof -
  let ?r = "\<lambda>P Q. relink (m(other := P, x := Q)) c other"
  have "hgt (?r P Q) b = hgt m b \<and> npr (?r P Q) b = npr m b \<and> ris (?r P Q) b = ris m b \<and>
      lab (?r P Q) b = lab m b" for P Q
    unfolding relink_hgt relink_npr relink_ris relink_lab using assms by (simp add: proj_defs)
  moreover have "lk (?r P Q) b = lk (relink m c other) b" for P Q
    using assms by (auto simp: relink_def lk_def split: list.splits)
  ultimately show "hgt (drop_heap m c par x other) b = hgt m b"
    "npr (drop_heap m c par x other) b = npr m b" "ris (drop_heap m c par x other) b = ris m b"
    "lab (drop_heap m c par x other) b = lab m b"
    "lk (drop_heap m c par x other) b = lk (relink m c other) b"
    unfolding drop_heap_def Let_def by simp_all
qed

text \<open>The labels below \<open>other\<close>: only those of its two branches' roots are rewritten right.\<close>

lemma wlabels_relabel_subs:
  assumes "one_word m t" "distinct (vaddrs t)" "d + vheight t \<le> 31"
    and "lab m (vroot t) = Some lb" "weak_ok d v lb"
  shows "wlabels (relabel_subs m d t) d v t"
proof (cases t)
  case (VLeaf a)
  then show ?thesis using assms by simp
next
  case (VNode a l r)
  let ?m1 = "relabel m d False l"
  from assms(2) VNode have di: "a \<notin> set (vaddrs l)" "a \<notin> set (vaddrs r)" "distinct (vaddrs l)"
    "distinct (vaddrs r)" "set (vaddrs l) \<inter> set (vaddrs r) = {}" by auto
  have "wlabels ?m1 (d + 1) False l"
    by (rule wlabels_relabel) (use assms VNode di in \<open>auto simp: one_word_VNode\<close>)
  moreover have "wlabels (relabel ?m1 d True r) (d + 1) False l = wlabels ?m1 (d + 1) False l"
    by (rule wlabels_cong) (use di in \<open>auto intro: lab_relabel_other\<close>)
  moreover have "one_word ?m1 r = one_word m r"
    by (rule one_word_cong, rule lab_relabel_other) (use di in auto)
  then have "one_word ?m1 r" using assms(1) VNode by (simp add: one_word_VNode)
  then have "wlabels (relabel ?m1 d True r) (d + 1) True r"
    by (rule wlabels_relabel) (use assms VNode di in auto)
  moreover have "lab (relabel ?m1 d True r) a = Some lb"
    using di assms(4) VNode by (simp add: lab_relabel_other)
  ultimately show ?thesis using VNode assms(5) by simp
qed

lemma labels_relabel_subs:
  assumes "labels m0 q t" "length q = length p + 1" "\<forall>i<length p. q ! i = p ! i" "distinct (vaddrs t)"
    and "\<And>b. b \<in> set (vaddrs t) \<Longrightarrow> b \<noteq> vroot t \<Longrightarrow> lab m b = lab m0 b"
    and "vheight t \<le> 1" "length p < 31" "lab m (vroot t) = Some lb" "label_ok p lb"
  shows "labels (relabel_subs m (length p) t) p t"
proof (cases t)
  case (VLeaf a)
  then show ?thesis using assms by simp
next
  case (VNode a l r)
  with assms(6) obtain x y where xy: "l = VLeaf x" "r = VLeaf y" by (cases l; cases r) auto
  have di: "x \<noteq> y" "a \<noteq> x" "a \<noteq> y" using assms(4) VNode xy by auto
  let ?m1 = "relabel m (length p) False l"
  have m0: "lab m x = lab m0 x" "lab m y = lab m0 y" using assms(5) VNode xy di by auto
  obtain k bs where x: "lab m x = Some (k, bs)" "label_ok (q @ [False]) (k, bs)"
    using assms(1) m0 VNode xy by auto
  have "labels ?m1 (p @ [False]) (VLeaf x)"
    unfolding xy by (rule labels_relabel_leaf [OF x(1)])
      (use x(2) assms(2,3,7) in \<open>auto simp: label_ok_def nth_append\<close>)
  moreover have "lab (relabel ?m1 (length p) True r) x = lab ?m1 x"
    by (rule lab_relabel_other) (use di xy in simp)
  ultimately have X: "labels (relabel ?m1 (length p) True r) (p @ [False]) (VLeaf x)" by simp
  obtain k' bs' where y: "lab m y = Some (k', bs')" "label_ok (q @ [True]) (k', bs')"
    using assms(1) m0 VNode xy by auto
  have "lab ?m1 y = lab m y" by (rule lab_relabel_other) (use di xy in simp)
  then have "labels (relabel ?m1 (length p) True r) (p @ [True]) (VLeaf y)"
    unfolding xy using y assms(2,3,7)
    by (intro labels_relabel_leaf) (auto simp: label_ok_def nth_append xy)
  moreover have "lab (relabel ?m1 (length p) True r) a = Some lb"
    using di assms(8) VNode xy by (simp add: lab_def)
  ultimately show ?thesis using VNode X xy assms(9) by simp
qed

lemma rises_mono: "rises m lo t \<Longrightarrow> lo' \<le> lo \<Longrightarrow> rises m lo' t"
  by (cases t) auto

lemma te_remove_ok:
  assumes lk: "links (te_mem s) None (plug ((par, sd, sib) # c) (VLeaf x))"
    and dis: "distinct (vaddrs (plug ((par, sd, sib) # c) (VLeaf x)))"
    and hg: "heights (te_mem s) (plug ((par, sd, sib) # c) (VLeaf x))"
    and wl: "wlabels (te_mem s) 0 False (plug ((par, sd, sib) # c) (VLeaf x))"
    and dep: "length c + 1 + vheight sib \<le> 31" and xn: "te_mem s x = Some xn"
  defines "t' \<equiv> plug c sib" and "t \<equiv> plug ((par, sd, sib) # c) (VLeaf x)"
  shows "\<exists>m'. te_remove s x par = Some (s\<lparr>te_root := (if c = [] then Some (vroot sib) else te_root s),
        te_mem := m'\<rparr>) \<and>
     links m' None t' \<and> heights m' t' \<and> wlabels m' 0 False t' \<and>
     (labels (te_mem s) [] t \<longrightarrow> vheight sib \<le> 1 \<longrightarrow> labels m' [] t') \<and>
     (\<forall>lo. rises (te_mem s) lo t \<longrightarrow> rises m' lo t') \<and>
     (\<forall>b. npr m' b = npr (te_mem s) b) \<and>
     (\<forall>b. ris m' b = ris (te_mem s) (if b = vroot sib then par else b)) \<and> m' par = te_mem s par \<and>
     m' x = Some (xn\<lparr>te_parent := Some (vroot sib), te_viewname := None\<rparr>) \<and>
     (\<forall>b. b \<notin> set (vaddrs t) \<longrightarrow> m' b = te_mem s b)"
proof -
  let ?m = "te_mem s" and ?o = "vroot sib"
  let ?M = "remove_heap ?m c par x sib" and ?D = "drop_heap ?m c par x ?o"
  from lk have cl: "clinks ?m c par"
      "lk ?m par = Some (cpar c, Some (if sd then ?o else x), Some (if sd then x else ?o))"
      "links ?m (Some par) sib"
    unfolding links_plug by simp_all
  from wl have wlp: "cwlabels ?m c" "wlabels ?m (length c + 1) (\<not> sd) sib"
      "\<exists>lb. lab ?m par = Some lb \<and> weak_ok (length c) (side c) lb"
    unfolding wlabels_plug by simp_all
  then obtain lb where lb: "lab ?m par = Some lb" "weak_ok (length c) (side c) lb" by blast
  from dis have dd: "distinct (x # par # vaddrs sib @ caddrs c)"
    unfolding distinct_vaddrs_plug by auto
  have sd: "?o \<noteq> x" "par \<noteq> x" "par \<noteq> ?o" "?o \<notin> set (caddrs c)" "x \<notin> set (caddrs c)" "par \<notin> set (caddrs c)"
    "x \<notin> set (vaddrs sib)" "par \<notin> set (vaddrs sib)"
    using dd vroot_in [of sib] by (auto simp del: vroot_in simp: disjoint_iff)
  have sp: "b \<notin> set (spine c)" if "b \<notin> set (caddrs c)" for b using spine_caddrs that by blast
  from cl obtain pn where pn: "?m par = Some pn" "te_parent pn = cpar c" by (auto dest: lkD)
  from cl(3) obtain on where on: "?m ?o = Some on" by (auto dest!: links_root lkD)
  note N = drop_heap_node [OF pn(1) on xn sd(1) [symmetric] sp [OF sd(5)] sp [OF sd(4)]]
  have B: "b \<notin> {x, ?o} \<and> b \<notin> set (vaddrs sib)" if "b \<in> set (caddrs c)" for b
    using that dd sd by auto
  have labM: "lab ?M b = lab ?D b" if "b \<notin> set (vaddrs sib)" for b
    using that by (simp add: remove_heap_def lab_def relabel_subs_other)
  have projM: "lk ?M b = lk ?D b" "hgt ?M b = hgt ?D b" "npr ?M b = npr ?D b" "ris ?M b = ris ?D b" for b
    by (simp_all add: remove_heap_def)
  have npD: "npr ?D b = npr ?m b" "hgt ?D b = hgt ?m b" for b
    using drop_heap_ctx [of b x ?o] N on xn by (cases "b \<in> {x, ?o}"; auto simp: npr_def hgt_def)+
  have lb': "lb = (te_len pn, te_bitstr pn)" using lb pn by (simp add: lab_def)
  have labo: "lab ?D ?o = Some lb" using N lb' by (simp add: lab_def)
  have sib_ne: "?D b = ?m b" if "b \<in> set (vaddrs sib)" "b \<noteq> ?o" for b
    by (rule drop_heap_other) (use that dd sd sp in auto)
  have run: "te_remove s x par = de_update_height (s\<lparr>te_root := (if c = [] then Some ?o else te_root s),
       te_mem := ?M\<rparr>) (cpar c)"
    by (rule te_remove_run [OF cl(2,3) xn cl(1) dd lb]) (use dep in simp)
  let ?s = "s\<lparr>te_root := (if c = [] then Some ?o else te_root s), te_mem := ?M\<rparr>"
  have clM: "clinks ?M c ?o"
  proof (subst clinks_cong)
    show "clinks (relink ?m c ?o) c ?o" by (rule clinks_relink [OF cl(1)]) (use dd in simp)
  qed (use B in \<open>simp add: projM drop_heap_ctx\<close>)
  have hs: "heights ?m sib" "cheights ?m c (vheight sib + 1)"
    using hg unfolding heights_plug by simp_all
  have "cheights ?M c (vheight sib + 1)"
    using hs(2) cheights_cong [of c ?M ?m] by (simp add: projM npD)
  moreover have "hgt ?M ?o = Some (vheight sib)" using heights_root [OF hs(1)] by (simp add: projM npD)
  ultimately have "\<exists>m'. de_update_height ?s (cpar c) = Some (?s\<lparr>te_mem := m'\<rparr>) \<and> cheights m' c (vheight sib) \<and>
    same_but_height m' (te_mem ?s) \<and> (\<forall>b. b \<notin> set (spine c) \<longrightarrow> m' b = te_mem ?s b)"
    by (intro de_update_height_ok) (use clM dd sd in auto)
  then obtain m' where m': "de_update_height ?s (cpar c) = Some (?s\<lparr>te_mem := m'\<rparr>)"
    "cheights m' c (vheight sib)" "same_but_height m' ?M" "\<And>b. b \<notin> set (spine c) \<Longrightarrow> m' b = ?M b" by auto
  have S: "lk m' b = lk ?M b" "npr m' b = npr ?M b" "lab m' b = lab ?M b" "ris m' b = ris ?M b" for b
    using m'(3) by (auto simp: same_but_height_def)
  have onew: "one_word ?D sib"
  proof -
    have "\<exists>k bs. lab ?D b = Some (k, bs) \<and> length bs = 1" if "b \<in> set (vaddrs sib)" for b
    proof (cases "b = ?o")
      case True
      then show ?thesis using labo lb(2) lb' by (simp add: weak_ok_def)
    next
      case False
      then have "lab ?D b = lab ?m b" using sib_ne that by (simp add: lab_def)
      then show ?thesis using wlabels_one_word [OF wlp(2)] that by (simp add: one_word_def)
    qed
    then show ?thesis by (simp add: one_word_def)
  qed
  have lko: "lk m' ?o = Some (cpar c, te_sub0 on, te_sub1 on)" "ris m' ?o = Some (te_rise pn)"
    unfolding S projM using N(2) pn by (simp_all add: lk_def ris_def)
  have lris: "lk m' b = lk ?m b" "ris m' b = ris ?m b" if "b \<in> set (vaddrs sib)" "b \<noteq> ?o" for b
    unfolding S projM using sib_ne [OF that] by (simp_all add: lk_def ris_def)
  have lon: "lk ?m ?o = Some (te_parent on, te_sub0 on, te_sub1 on)" "ris ?m ?o = Some (te_rise on)"
    using on by (simp_all add: lk_def ris_def)
  have "links m' None t'"
  proof -
    have "links m' (cpar c) sib"
    proof (cases sib)
      case (VLeaf a)
      then show ?thesis using cl(3) lko lon by simp
    next
      case (VNode a l r)
      have same: "lk m' b = lk ?m b" if "b \<in> set (vaddrs l) \<union> set (vaddrs r)" for b
        by (rule lris) (use that dd VNode in auto)
      then have "links m' (Some a) l" "links m' (Some a) r"
        using cl(3) VNode links_cong [of l m' ?m] links_cong [of r m' ?m] by auto
      moreover have "lk m' a = Some (cpar c, Some (vroot l), Some (vroot r))"
        using cl(3) lko lon VNode by simp
      ultimately show ?thesis using VNode by simp
    qed
    moreover have "clinks m' c ?o" using clM S clinks_cong [of c m' ?M] by simp
    ultimately show ?thesis by (simp add: t'_def links_plug)
  qed
  moreover have "heights m' t'"
  proof -
    have "hgt m' b = hgt ?m b" if "b \<in> set (vaddrs sib)" for b
    proof -
      have "m' b = ?M b" by (rule m'(4)) (use that sp [of b] B [of b] in auto)
      then have "hgt m' b = hgt ?M b" by (simp add: hgt_def)
      then show ?thesis by (simp add: projM npD)
    qed
    then show ?thesis using m'(2) hs heights_cong [of sib m' ?m] by (simp add: t'_def heights_plug)
  qed
  moreover have "wlabels m' 0 False t'"
  proof -
    have "cwlabels m' c" using wlp(1) B cwlabels_cong [of c m' ?m]
      by (simp add: S labM drop_heap_ctx)
    moreover have "wlabels ?M (length c) (side c) sib"
      unfolding remove_heap_def by (rule wlabels_relabel_subs [OF onew _ _ labo lb(2)]) (use dd dep in auto)
    ultimately show ?thesis using wlabels_cong [of sib m' ?M] S by (simp add: t'_def wlabels_plug)
  qed
  moreover have "labels m' [] t'" if lt: "labels ?m [] t" "vheight sib \<le> 1"
  proof -
    have ls: "clabels ?m c" "labels ?m (cpath c @ [\<not> sd]) sib" "label_ok (cpath c) lb"
      using lt(1) lb unfolding t_def labels_plug by simp_all
    have "clabels m' c" using ls(1) B clabels_cong [of c m' ?m] by (simp add: S labM drop_heap_ctx)
    moreover have "labels ?M (cpath c) sib"
      using labels_relabel_subs [OF ls(2), of "cpath c" ?D lb] ls(3) labo lt(2) dep dd sib_ne
      by (simp add: remove_heap_def nth_append lab_def)
    ultimately show ?thesis using labels_cong [of sib m' ?M] S by (simp add: t'_def labels_plug)
  qed
  moreover have "rises m' lo t'" if r: "rises ?m lo t" for lo
  proof -
    from r pn obtain e where e: "rises ?m (te_rise pn) sib" "e \<le> te_rise pn" "crises ?m lo c e"
      unfolding t_def rises_plug by (auto simp: ris_def)
    have "crises m' lo c e" using e(3) B crises_cong [of c m' ?m] by (simp add: S projM drop_heap_ctx)
    moreover have "rises m' e sib"
    proof (cases sib)
      case (VLeaf a)
      then show ?thesis using lko e(2) by simp
    next
      case (VNode a l r)
      have same: "ris m' b = ris ?m b" if "b \<in> set (vaddrs l) \<union> set (vaddrs r)" for b
        by (rule lris) (use that dd VNode in auto)
      from e(1) VNode lon have le: "te_rise pn \<le> te_rise on" "rises ?m (te_rise on) l" "rises ?m (te_rise on) r"
        by auto
      then have "rises ?m (te_rise pn) l" "rises ?m (te_rise pn) r" by (auto intro: rises_mono)
      then have "rises m' (te_rise pn) l" "rises m' (te_rise pn) r"
        using same rises_cong [of l m' ?m] rises_cong [of r m' ?m] by auto
      then show ?thesis using lko e(2) VNode by simp
    qed
    ultimately show ?thesis unfolding t'_def rises_plug by blast
  qed
  moreover have "npr m' b = npr ?m b" for b by (simp add: S projM npD)
  moreover have "ris m' b = ris ?m (if b = ?o then par else b)" for b
  proof (cases "b \<in> {x, ?o}")
    case True
    then show ?thesis using N sd pn xn by (auto simp: S projM) (auto simp: ris_def)
  next
    case False
    then show ?thesis using drop_heap_ctx(3) [of b x ?o ?m c par] by (simp add: S projM)
  qed
  moreover have out: "m' b = ?D b" if "b \<notin> set (vaddrs sib)" "b \<notin> set (caddrs c)" for b
    using m'(4) [of b] sp that by (simp add: remove_heap_def relabel_subs_other)
  moreover have "m' b = ?m b" if "b \<notin> set (vaddrs t)" for b
  proof -
    have "b \<notin> set (vaddrs sib)" "b \<notin> set (caddrs c)" "b \<noteq> x"
      using that by (auto simp: t_def set_vaddrs_plug split: if_splits)
    moreover from this have "?D b = ?m b" using sp vroot_in [of sib] by (intro drop_heap_other) auto
    ultimately show ?thesis using out by simp
  qed
  ultimately show ?thesis using run m'(1) N sd sp drop_heap_other [of par x ?o c] 
    by (intro exI [of _ m']) simp
qed

end
