(* ===== verification/Treepoch_Views.thy ===== *)
theory Treepoch_Views
  imports Treepoch_Tree "HOL-Library.Sublist"
begin

text \<open>
  What the operations of treepoch.c do to a whole tree of views, and the life of a set of
  processes: \<open>pcb_plus\<close>, \<open>pcb_minus\<close> and \<open>pcb_newfork\<close> of sctab.c as the steps of a
  transition system.
\<close>

section \<open>Counters of a whole tree\<close>

lemma total_upd: "distinct (vaddrs t) \<Longrightarrow> a \<in> set (vleaves t) \<Longrightarrow>
    total (cn(a := k)) t + cn a = total cn t + k"
proof (induction t)
  case (VNode b l r)
  from VNode.prems consider "a \<in> set (vleaves l)" "a \<notin> set (vleaves r)" | "a \<in> set (vleaves r)" "a \<notin> set (vleaves l)"
    by (auto dest: vleaves_in)
  then show ?case
  proof cases
    case 1
    then have "total (cn(a := k)) r = total cn r" by (intro total_cong) auto
    with 1 VNode show ?thesis by (simp add: fun_upd_def)
  next
    case 2
    then have "total (cn(a := k)) l = total cn l" by (intro total_cong) auto
    with 2 VNode show ?thesis by (simp add: fun_upd_def)
  qed
qed auto

lemma total_pos: "(\<And>b. b \<in> set (vleaves t) \<Longrightarrow> 1 \<le> cn b) \<Longrightarrow> 1 \<le> total cn t"
  by (induction t) fastforce+

lemma total_le: "b \<in> set (vleaves t) \<Longrightarrow> cn b \<le> total cn t"
  by (induction t) auto

lemma total_plug: "total cn t \<le> total cn (plug c t)"
proof (induction c t rule: plug.induct)
  case (2 a sd sib c t)
  then show ?case by (cases sd) auto
qed simp

lemma vleaves_ne: "\<exists>b. b \<in> set (vleaves t)"
  by (induction t) auto

text \<open>A path of nodes whose counters all change by one.\<close>

lemma ccounts_shift:
  assumes "ccounts m cn c k" "distinct (caddrs c)" "total cn (plug c t) < 2 ^ 64" "total cn t = k"
    and "\<And>b. b \<in> set (caddrs c) \<Longrightarrow> b \<in> set as \<longleftrightarrow> b \<in> set (spine c)"
    and "\<And>j. k \<le> j \<Longrightarrow> j \<le> total cn (plug c t) \<Longrightarrow> g j = j - k + k'"
  shows "ccounts (bump g as m) cn c k'"
  using assms
proof (induction m cn c k arbitrary: t k' rule: ccounts.induct)
  case (2 m cn a sd sib c k)
  let ?t = "if sd then VNode a sib t else VNode a t sib"
  have tot: "total cn ?t = k + total cn sib" using 2 by auto
  have le: "k + total cn sib \<le> total cn (plug c ?t)" using total_plug [of cn ?t c] tot by simp
  have "counts (bump g as m) cn sib = counts m cn sib"
  proof (rule counts_cong)
    fix b assume b: "b \<in> set (vaddrs sib)"
    have "b \<notin> set (spine ((a, sd, sib) # c))"
      using "2.prems"(2) b spine_caddrs [of c] by auto
    then have "b \<notin> set as" using "2.prems"(5) [of b] b by simp
    then show "npr (bump g as m) b = npr m b" by (simp add: bump_npr)
  qed
  moreover have "a \<in> set as" using "2.prems"(5) [of a] by simp
  then have "npr (bump g as m) a = Some (k' + total cn sib)"
    using "2.prems"(1) "2.prems"(6) [of "k + total cn sib"] le by (simp add: bump_npr)
  moreover have "ccounts (bump g as m) cn c (k' + total cn sib)"
  proof (rule "2.IH" [of ?t])
    show "b \<in> set as \<longleftrightarrow> b \<in> set (spine c)" if "b \<in> set (caddrs c)" for b
      using "2.prems"(2) "2.prems"(5) [of b] that by auto
    show "g j = j - (k + total cn sib) + (k' + total cn sib)"
      if "k + total cn sib \<le> j" "j \<le> total cn (plug c ?t)" for j
      using "2.prems"(6) [of j] that by simp
  qed (use "2.prems" tot in auto)
  ultimately show ?case using "2.prems"(1) by simp
qed simp

lemma ccounts_spine:
  assumes "ccounts m cn c k" "b \<in> set (spine c)" "\<And>a. a \<in> set (cleaves c) \<Longrightarrow> 1 \<le> cn a"
  shows "\<exists>j. npr m b = Some j \<and> k + 1 \<le> j"
  using assms
proof (induction m cn c k rule: ccounts.induct)
  case (2 m cn a sd sib c k)
  have "1 \<le> total cn sib" using "2.prems"(3) by (intro total_pos) auto
  with 2 show ?case by (cases "b = a") fastforce+
qed simp

lemma ccounts_le:
  assumes "ccounts m cn c k" "b \<in> set (spine c)" "total cn t = k"
  shows "\<exists>j. npr m b = Some j \<and> j \<le> total cn (plug c t)"
  using assms
proof (induction m cn c k arbitrary: t rule: ccounts.induct)
  case (2 m cn a sd sib c k)
  let ?t = "if sd then VNode a sib t else VNode a t sib"
  have tot: "total cn ?t = k + total cn sib" using 2 by auto
  show ?case
  proof (cases "b = a")
    case True
    then show ?thesis using "2.prems" total_plug [of cn ?t c] tot by simp
  next
    case False
    then show ?thesis using "2.prems" "2.IH" [of ?t] tot by auto
  qed
qed simp

section \<open>Depth\<close>

lemma vheight_plug: "vheight t + length c \<le> vheight (plug c t)"
proof (induction c t rule: plug.induct)
  case (2 a sd sib c t)
  then show ?case by (cases sd) auto
qed simp

fun cheight :: "frame list \<Rightarrow> nat \<Rightarrow> nat" where
  "cheight [] k = k"
| "cheight ((a, sd, sib) # c) k = cheight c (max k (vheight sib) + 1)"

lemma vheight_plug_eq: "vheight (plug c t) = cheight c (vheight t)"
  by (induction c t rule: plug.induct) (auto simp: max.commute)

lemma cheight_mono: "k \<le> k' \<Longrightarrow> cheight c k \<le> cheight c k'"
  by (induction c k arbitrary: k' rule: cheight.induct) auto

lemma cheight_fork: "cheight c 1 \<le> max (cheight c 0) (length c + 1)"
proof -
  have "cheight c (k + 1) \<le> max (cheight c k) (length c + k + 1)" for k
  proof (induction c k rule: cheight.induct)
    case (2 a sd sib c k)
    show ?case
    proof (cases "k + 1 \<le> vheight sib")
      case True
      then show ?thesis by (simp add: max_def)
    next
      case False
      then have "max (k + 1) (vheight sib) + 1 = max k (vheight sib) + 1 + 1" by (simp add: max_def)
      then show ?thesis using 2 False by (simp add: max_def split: if_splits)
    qed
  qed simp
  from this [of 0] show ?thesis by simp
qed

section \<open>The invariant of a tree of views\<close>

text \<open>
  \<open>t\<close> is the tree the pointers of the heap describe, and \<open>cn\<close> the number of processes of
  each leaf.
\<close>

definition tree_ok :: "te_state \<Rightarrow> vtree \<Rightarrow> (addr \<Rightarrow> nat) \<Rightarrow> bool" where
  "tree_ok s t cn \<longleftrightarrow> te_root s = Some (vroot t) \<and> distinct (vaddrs t) \<and>
     (\<forall>b. te_mem s b \<noteq> None \<longrightarrow> b < te_brk s) \<and>
     links (te_mem s) None t \<and> heights (te_mem s) t \<and> wlabels (te_mem s) 0 False t \<and>
     counts (te_mem s) cn t \<and> rises (te_mem s) 0 t \<and>
     (\<forall>b \<in> set (vaddrs t). \<forall>e. ris (te_mem s) b = Some e \<longrightarrow> e < epoch_now s) \<and>
     vheight t \<le> 31 \<and> total cn t < 2 ^ 64 \<and>
     (t = VLeaf (vroot t) \<or> (\<forall>b \<in> set (vleaves t). 1 \<le> cn b))"

lemma tree_okD:
  assumes "tree_ok s t cn"
  shows "te_root s = Some (vroot t)" "distinct (vaddrs t)"
    "te_mem s b \<noteq> None \<Longrightarrow> b < te_brk s"
    "links (te_mem s) None t" "heights (te_mem s) t" "wlabels (te_mem s) 0 False t"
    "counts (te_mem s) cn t" "rises (te_mem s) 0 t"
    "b \<in> set (vaddrs t) \<Longrightarrow> ris (te_mem s) b = Some e \<Longrightarrow> e < epoch_now s"
    "vheight t \<le> 31" "total cn t < 2 ^ 64"
    "t = VLeaf (vroot t) \<or> (\<forall>b \<in> set (vleaves t). 1 \<le> cn b)"
  using assms unfolding tree_ok_def by blast+

lemma links_in_dom: "links m p t \<Longrightarrow> b \<in> set (vaddrs t) \<Longrightarrow> m b \<noteq> None"
  by (induction t arbitrary: p) (auto dest: lkD)

lemma tree_ok_fresh: "tree_ok s t cn \<Longrightarrow> b \<in> set (vaddrs t) \<Longrightarrow> b < te_brk s"
  using tree_okD(3,4) links_in_dom by metis

lemma tree_ok_pos:
  assumes "tree_ok s (plug c t) cn" "c \<noteq> []" "b \<in> set (cleaves c) \<union> set (vleaves t)"
  shows "1 \<le> cn b"
proof -
  obtain a sd sib d where "c = (a, sd, sib) # d" using assms(2) by (cases c) auto
  then have "vheight (plug c t) \<noteq> 0" using vheight_plug [of t c] by auto
  then have "plug c t \<noteq> VLeaf (vroot (plug c t))" by (metis vheight.simps(1))
  then show ?thesis using tree_okD(12) [OF assms(1)] assms(3) by (simp add: set_vleaves_plug)
qed

text \<open>Two states whose heaps differ in counters only, with the root and the clock.\<close>

lemma tree_ok_bump:
  assumes "tree_ok s t cn" "counts (bump g as (te_mem s)) cn' t" "total cn' t < 2 ^ 64"
    and "t = VLeaf (vroot t) \<or> (\<forall>b \<in> set (vleaves t). 1 \<le> cn' b)"
  shows "tree_ok (s\<lparr>te_mem := bump g as (te_mem s)\<rparr>) t cn'"
proof -
  let ?m = "bump g as (te_mem s)"
  have "links ?m None t = links (te_mem s) None t" "heights ?m t = heights (te_mem s) t"
    "wlabels ?m 0 False t = wlabels (te_mem s) 0 False t" "rises ?m 0 t = rises (te_mem s) 0 t"
    by (intro tree_congs; simp)+
  moreover have "?m b \<noteq> None \<longleftrightarrow> te_mem s b \<noteq> None" for b by (simp add: bump_def)
  ultimately show ?thesis using assms unfolding tree_ok_def by simp
qed

lemma leaf_pchain: "links m None (plug c (VLeaf a)) \<Longrightarrow> pchain m (a # spine c)"
proof -
  assume l: "links m None (plug c (VLeaf a))"
  then have "clinks m c a" "lk m a = Some (cpar c, None, None)" by (simp_all add: links_plug)
  moreover have "cpar c = (case spine c of [] \<Rightarrow> None | b # _ \<Rightarrow> Some b)" by (cases c) auto
  ultimately show ?thesis by (auto dest: lkD clinks_pchain)
qed

lemma newproc_tree:
  assumes ok: "tree_ok s t cn" and a: "a \<in> set (vleaves t)" and lim: "total cn t + 1 < 2 ^ 64"
  shows "\<exists>c. t = plug c (VLeaf a) \<and>
     te_newproc s (Some a) = Some (s\<lparr>te_mem := bump ul_inc (a # spine c) (te_mem s)\<rparr>) \<and>
     tree_ok (s\<lparr>te_mem := bump ul_inc (a # spine c) (te_mem s)\<rparr>) t (cn(a := cn a + 1))"
proof -
  from a obtain c where t: "t = plug c (VLeaf a)" using in_vleaves_plug by blast
  let ?as = "a # spine c" and ?cn = "cn(a := cn a + 1)"
  let ?m = "bump ul_inc ?as (te_mem s)"
  have di: "distinct (caddrs c)" "a \<notin> set (caddrs c)"
    using tree_okD(2) [OF ok] unfolding t distinct_vaddrs_plug by auto
  have das: "distinct ?as" using di distinct_spine spine_caddrs by auto
  have run: "te_newproc s (Some a) = Some (s\<lparr>te_mem := ?m\<rparr>)"
    using te_newproc_eq [OF leaf_pchain das, of s] tree_okD(4) [OF ok] unfolding t by simp
  have cc: "ccounts (te_mem s) cn c (cn a)" "npr (te_mem s) a = Some (cn a)"
    using tree_okD(7) [OF ok] unfolding t counts_plug by simp_all
  have le: "cn a \<le> total cn (plug c (VLeaf a))" using total_plug [of cn "VLeaf a" c] by simp
  have "ccounts ?m cn c (cn a + 1)"
  proof (rule ccounts_shift [OF cc(1) di(1), of "VLeaf a"])
    show "b \<in> set ?as \<longleftrightarrow> b \<in> set (spine c)" if "b \<in> set (caddrs c)" for b
      using that di by auto
    show "ul_inc j = j - cn a + (cn a + 1)" if "cn a \<le> j" "j \<le> total cn (plug c (VLeaf a))" for j
      using that lim ul_inc_eq [of j] unfolding t by simp
  qed (use lim t in auto)
  moreover have "ccounts ?m ?cn c k = ccounts ?m cn c k" for k
    by (rule ccounts_cong_fun) (use di cleaves_caddrs [of c] in auto)
  moreover have "npr ?m a = Some (cn a + 1)"
    using cc(2) le lim ul_inc_eq [of "cn a"] unfolding t by (simp add: bump_npr)
  ultimately have "counts ?m ?cn t" unfolding t counts_plug by simp
  moreover have "total ?cn t + cn a = total cn t + (cn a + 1)"
    by (rule total_upd) (use tree_okD(2) [OF ok] a in auto)
  ultimately have "tree_ok (s\<lparr>te_mem := ?m\<rparr>) t ?cn"
    using tree_okD(12) [OF ok] lim by (intro tree_ok_bump [OF ok]) auto
  with run t show ?thesis by blast
qed

text \<open>The exit of a process that is not the last of its view, or is in the only view.\<close>

lemma delproc_tree_stay:
  assumes ok: "tree_ok s t cn" and a: "a \<in> set (vleaves t)" and pos: "1 \<le> cn a"
    and stay: "cn a \<noteq> 1 \<or> t = VLeaf a"
  shows "\<exists>c. t = plug c (VLeaf a) \<and>
     te_delproc s (Some a) = Some (s\<lparr>te_mem := bump ul_dec (a # spine c) (te_mem s)\<rparr>) \<and>
     tree_ok (s\<lparr>te_mem := bump ul_dec (a # spine c) (te_mem s)\<rparr>) t (cn(a := cn a - 1))"
proof -
  from a obtain c where t: "t = plug c (VLeaf a)" using in_vleaves_plug by blast
  let ?as = "a # spine c" and ?cn = "cn(a := cn a - 1)"
  let ?m = "bump ul_dec ?as (te_mem s)"
  have di: "distinct (caddrs c)" "a \<notin> set (caddrs c)"
    using tree_okD(2) [OF ok] unfolding t distinct_vaddrs_plug by auto
  have das: "distinct ?as" using di distinct_spine spine_caddrs by auto
  have cc: "ccounts (te_mem s) cn c (cn a)" "npr (te_mem s) a = Some (cn a)"
    using tree_okD(7) [OF ok] unfolding t counts_plug by simp_all
  have lim: "total cn (plug c (VLeaf a)) < 2 ^ 64" using tree_okD(11) [OF ok] t by simp
  have le: "cn a \<le> total cn (plug c (VLeaf a))" using total_plug [of cn "VLeaf a" c] by simp
  have run: "te_delproc s (Some a) = Some (s\<lparr>te_mem := ?m\<rparr>)"
  proof (cases "c = []")
    case True
    then show ?thesis
      using te_delproc_eq [OF leaf_pchain das, of s] tree_okD(4) [OF ok] unfolding t by simp
  next
    case False
    have ca: "cn a \<noteq> 1" using stay False vheight_plug [of "VLeaf a" c] unfolding t by auto
    have "ul_dec (te_nproc n) \<noteq> 0" if "b \<in> set (butlast ?as)" "te_mem s b = Some n" for b n
    proof -
      have "b = a \<or> b \<in> set (spine c)" using in_set_butlastD [OF that(1)] by simp
      then have "2 \<le> te_nproc n \<and> te_nproc n < 2 ^ 64"
      proof
        assume "b = a"
        then show ?thesis using cc(2) that(2) pos ca le lim by (simp add: npr_def)
      next
        assume b: "b \<in> set (spine c)"
        have "1 \<le> cn x" if "x \<in> set (cleaves c)" for x
          using tree_ok_pos [of s c "VLeaf a"] ok False that unfolding t by simp
        then obtain j where "npr (te_mem s) b = Some j" "cn a + 1 \<le> j"
          using ccounts_spine [OF cc(1) b] by blast
        moreover obtain j' where "npr (te_mem s) b = Some j'" "j' \<le> total cn (plug c (VLeaf a))"
          using ccounts_le [OF cc(1) b, of "VLeaf a"] by auto
        ultimately show ?thesis using that(2) pos lim by (simp add: npr_def)
      qed
      then show ?thesis using ul_dec_eq [of "te_nproc n"] by simp
    qed
    then show ?thesis
      using te_delproc_eq [OF leaf_pchain das, of s] tree_okD(4) [OF ok] unfolding t by simp
  qed
  have "ccounts ?m cn c (cn a - 1)"
  proof (rule ccounts_shift [OF cc(1) di(1), of "VLeaf a"])
    show "b \<in> set ?as \<longleftrightarrow> b \<in> set (spine c)" if "b \<in> set (caddrs c)" for b
      using that di by auto
    show "ul_dec j = j - cn a + (cn a - 1)" if "cn a \<le> j" "j \<le> total cn (plug c (VLeaf a))" for j
      using that lim pos ul_dec_eq [of j] by simp
  qed (use lim in auto)
  moreover have "ccounts ?m ?cn c k = ccounts ?m cn c k" for k
    by (rule ccounts_cong_fun) (use di cleaves_caddrs [of c] in auto)
  moreover have "npr ?m a = Some (cn a - 1)"
    using cc(2) le lim pos ul_dec_eq [of "cn a"] by (simp add: bump_npr)
  ultimately have "counts ?m ?cn t" unfolding t counts_plug by simp
  moreover have "total ?cn t + cn a = total cn t + (cn a - 1)"
    by (rule total_upd) (use tree_okD(2) [OF ok] a in auto)
  moreover have "t = VLeaf (vroot t) \<or> (\<forall>b \<in> set (vleaves t). 1 \<le> ?cn b)"
    using tree_okD(12) [OF ok] stay pos a by auto
  ultimately have "tree_ok (s\<lparr>te_mem := ?m\<rparr>) t ?cn"
    using tree_okD(11) [OF ok] pos by (intro tree_ok_bump [OF ok]) auto
  with run t show ?thesis by blast
qed

lemma total_plug_cong: "total cn u = total cn u' \<Longrightarrow> total cn (plug c u) = total cn (plug c u')"
proof (induction c u arbitrary: u' rule: plug.induct)
  case (2 b sd sib c u)
  show ?case using "2.IH" [of "if sd then VNode b sib u' else VNode b u' sib"] "2.prems" by simp
qed simp

lemma total_plug_mono: "total cn u \<le> total cn u' \<Longrightarrow> total cn (plug c u) \<le> total cn (plug c u')"
proof (induction c u arbitrary: u' rule: plug.induct)
  case (2 b sd sib c u)
  show ?case using "2.IH" [of "if sd then VNode b sib u' else VNode b u' sib"] "2.prems" by simp
qed simp

lemma vroot_plug: "c = f # d \<Longrightarrow> vroot (plug c u) = vroot (plug c u')"
proof (induction c arbitrary: f d u u')
  case (Cons g c)
  obtain b sd sib where g: "g = (b, sd, sib)" by (cases g)
  show ?case
  proof (cases c)
    case Nil
    then show ?thesis by (simp add: g)
  next
    case (Cons h e)
    then show ?thesis using Cons.IH [OF Cons] g by simp
  qed
qed simp

text \<open>The exit of the last process of a view: the leaf and its parent leave the tree.\<close>

lemma delproc_tree_last:
  assumes ok: "tree_ok s t cn" and t: "t = plug ((par, sd, sib) # c) (VLeaf a)" and one: "cn a = 1"
  shows "\<exists>s'. te_delproc s (Some a) = Some s' \<and> tree_ok s' (plug c sib) (cn(a := 0)) \<and>
     (labels (te_mem s) [] t \<longrightarrow> vheight sib \<le> 1 \<longrightarrow> labels (te_mem s') [] (plug c sib)) \<and>
     te_brk s' = te_brk s \<and> epoch_now s' = epoch_now s \<and> nextviewid s' = nextviewid s \<and>
     (\<forall>b. b \<notin> set (vaddrs t) \<longrightarrow> te_mem s' b = te_mem s b) \<and>
     (\<forall>b. ris (te_mem s') b = ris (te_mem s) (if b = vroot sib then par else b)) \<and>
     (\<exists>n. te_mem s' a = Some n \<and> te_nproc n = 0 \<and> te_parent n = Some (vroot sib))"
proof -
  let ?m = "te_mem s" and ?cn = "cn(a := 0)"
  have dd: "distinct (a # par # vaddrs sib @ caddrs c)"
    using tree_okD(2) [OF ok] unfolding t distinct_vaddrs_plug by auto
  have ll: "links ?m None t" by (rule tree_okD [OF ok])
  have cl: "clinks ?m c par" "lk ?m a = Some (Some par, None, None)"
      "lk ?m par = Some (cpar c, Some (if sd then vroot sib else a), Some (if sd then a else vroot sib))"
    using ll unfolding t links_plug by simp_all
  have cc: "npr ?m a = Some 1" "npr ?m par = Some (1 + total cn sib)" "counts ?m cn sib"
      "ccounts ?m cn c (1 + total cn sib)"
    using tree_okD(7) [OF ok] one unfolding t counts_plug by simp_all
  obtain an where an: "?m a = Some an" "te_parent an = Some par" "te_nproc an = 1"
    using cl(2) cc(1) by (auto simp: lk_def npr_def)
  let ?an = "an\<lparr>te_nproc := 0\<rparr>"
  let ?s1 = "s\<lparr>te_mem := ?m(a \<mapsto> ?an)\<rparr>"
  have d1: "ul_dec 1 = 0" by (simp add: ul_dec_eq)
  have P: "lk (te_mem ?s1) b = lk ?m b" "hgt (te_mem ?s1) b = hgt ?m b" "lab (te_mem ?s1) b = lab ?m b"
    "ris (te_mem ?s1) b = ris ?m b" for b
    using an by (auto simp: proj_defs)
  have T1: "links (te_mem ?s1) None t" "heights (te_mem ?s1) t" "wlabels (te_mem ?s1) 0 False t"
    "labels (te_mem ?s1) [] t = labels ?m [] t" "rises (te_mem ?s1) 0 t"
    using tree_okD(4,5,6,8) [OF ok] links_cong [of t "te_mem ?s1" ?m None] heights_cong [of t "te_mem ?s1" ?m]
      wlabels_cong [of t "te_mem ?s1" ?m 0 False] labels_cong [of t "te_mem ?s1" ?m "[]"]
      rises_cong [of t "te_mem ?s1" ?m 0]
    unfolding P by blast+
  have dep: "length c + 1 + vheight sib \<le> 31"
  proof -
    let ?u = "if sd then VNode par sib (VLeaf a) else VNode par (VLeaf a) sib"
    have "vheight ?u + length c \<le> 31"
      using tree_okD(10) [OF ok] vheight_plug [of ?u c] unfolding t by simp
    then show ?thesis by (cases sd) auto
  qed
  have a1: "te_mem ?s1 a = Some ?an" by simp
  obtain m' where m': "te_remove ?s1 a par = Some (?s1\<lparr>te_root := (if c = [] then Some (vroot sib) else te_root ?s1),
        te_mem := m'\<rparr>)"
     "links m' None (plug c sib)" "heights m' (plug c sib)" "wlabels m' 0 False (plug c sib)"
     "labels (te_mem ?s1) [] t \<longrightarrow> vheight sib \<le> 1 \<longrightarrow> labels m' [] (plug c sib)"
     "\<And>lo. rises (te_mem ?s1) lo t \<longrightarrow> rises m' lo (plug c sib)"
     "\<And>b. npr m' b = npr (te_mem ?s1) b" "m' par = te_mem ?s1 par"
     "\<And>b. ris m' b = ris (te_mem ?s1) (if b = vroot sib then par else b)"
     "m' a = Some (?an\<lparr>te_parent := Some (vroot sib), te_viewname := None\<rparr>)"
     "\<And>b. b \<notin> set (vaddrs t) \<longrightarrow> m' b = te_mem ?s1 b"
    using te_remove_ok [OF T1(1) [unfolded t] tree_okD(2) [OF ok, unfolded t] T1(2) [unfolded t]
        T1(3) [unfolded t] dep a1, folded t] by blast
  define rr where "rr = (if c = [] then Some (vroot sib) else te_root s)"
  let ?s2 = "s\<lparr>te_root := rr, te_mem := m'\<rparr>"
  have rem: "te_remove ?s1 a par = Some ?s2" using m'(1) by (simp add: rr_def)
  let ?as = "par # spine c"
  let ?s3 = "?s2\<lparr>te_mem := bump ul_dec ?as m'\<rparr>"
  have pch: "pchain m' ?as"
  proof -
    have "clinks m' c (vroot sib)" using m'(2) by (simp add: links_plug)
    then have "pchain m' (spine c)" by (rule clinks_pchain)
    moreover have "cpar c = (case spine c of [] \<Rightarrow> None | b # _ \<Rightarrow> Some b)" by (cases c) auto
    moreover obtain pn where "m' par = Some pn" "te_parent pn = cpar c"
      using m'(8) cl(3) dd by (auto dest: lkD)
    ultimately show ?thesis by simp
  qed
  have das: "distinct ?as" using dd distinct_spine spine_caddrs by auto
  have npr': "npr m' b = (if b = a then Some 0 else npr ?m b)" for b
    using m'(7) by (simp add: npr_def)
  have pos: "1 \<le> cn x" if "x \<in> set (cleaves c) \<union> set (vleaves sib)" for x
    using tree_ok_pos [of s "(par, sd, sib) # c" "VLeaf a" cn x] ok that unfolding t by auto
  have tp: "1 \<le> total cn sib" by (rule total_pos) (use pos in auto)
  let ?tp = "VNode par sib (VLeaf a)"
  have tt: "total cn (plug c ?tp) = total cn t" "total cn ?tp = 1 + total cn sib"
  proof -
    show "total cn (plug c ?tp) = total cn t"
      unfolding t using total_plug_cong [of cn ?tp _ c] one by (cases sd) simp_all
  qed (simp add: one)
  have lim: "total cn t < 2 ^ 64" by (rule tree_okD [OF ok])
  have run2: "te_delproc ?s2 (Some par) = Some ?s3"
  proof -
    have "ul_dec (te_nproc n) \<noteq> 0" if "b \<in> set (butlast ?as)" "te_mem ?s2 b = Some n" for b n
    proof -
      have bin: "b = par \<or> b \<in> set (spine c)" using in_set_butlastD [OF that(1)] by simp
      have "b \<noteq> a" using bin dd spine_caddrs [of c] by auto
      then have nb: "npr ?m b = Some (te_nproc n)" using that(2) npr' [of b] by (simp add: npr_def)
      from bin have "2 \<le> te_nproc n \<and> te_nproc n < 2 ^ 64"
      proof
        assume "b = par"
        then show ?thesis using nb cc(2) tp lim total_plug [of cn ?tp c] tt by simp
      next
        assume b: "b \<in> set (spine c)"
        obtain j where "npr ?m b = Some j" "1 + total cn sib + 1 \<le> j"
          using ccounts_spine [OF cc(4) b] pos by blast
        moreover obtain j' where "npr ?m b = Some j'" "j' \<le> total cn (plug c ?tp)"
          using ccounts_le [OF cc(4) b, of ?tp] tt by auto
        ultimately show ?thesis using nb tp tt lim by simp
      qed
      then show ?thesis using ul_dec_eq [of "te_nproc n"] by simp
    qed
    then show ?thesis using te_delproc_eq [of ?s2 ?as] pch das by simp
  qed
  have run: "te_delproc s (Some a) = Some ?s3"
    using an d1 rem run2 by (subst te_delproc.simps) simp
  have "ccounts ?m ?cn c k = ccounts ?m cn c k" for k
    by (rule ccounts_cong_fun) (use dd cleaves_caddrs [of c] in auto)
  have tc: "total ?cn sib = total cn sib"
    by (rule total_cong) (use dd in \<open>auto dest: vleaves_in\<close>)
  have "counts (bump ul_dec ?as m') ?cn (plug c sib)"
  proof -
    have "ccounts m' cn c (1 + total cn sib) = ccounts ?m cn c (1 + total cn sib)"
      by (rule ccounts_cong) (use dd npr' in auto)
    then have "ccounts (bump ul_dec ?as m') cn c (total cn sib)"
    proof (intro ccounts_shift [of m' cn c "1 + total cn sib" ?tp])
      show "b \<in> set ?as \<longleftrightarrow> b \<in> set (spine c)" if "b \<in> set (caddrs c)" for b
        using that dd by auto
      show "ul_dec j = j - (1 + total cn sib) + total cn sib"
        if "1 + total cn sib \<le> j" "j \<le> total cn (plug c ?tp)" for j
        using that lim tt ul_dec_eq [of j] by simp
    qed (use cc dd tt lim in auto)
    moreover have "ccounts h ?cn c k = ccounts h cn c k" for h k
      by (rule ccounts_cong_fun) (use dd cleaves_caddrs [of c] in auto)
    moreover have "counts (bump ul_dec ?as m') ?cn sib = counts (bump ul_dec ?as m') cn sib"
      by (rule counts_cong_fun) (use dd in \<open>auto dest: vleaves_in\<close>)
    moreover have "counts (bump ul_dec ?as m') cn sib = counts ?m cn sib"
    proof (rule counts_cong)
      fix b assume b: "b \<in> set (vaddrs sib)"
      then have "b \<notin> set ?as" "b \<noteq> a" using dd spine_caddrs [of c] by auto
      then show "npr (bump ul_dec ?as m') b = npr ?m b" by (simp add: bump_npr npr')
    qed
    ultimately show ?thesis using cc(3) tc by (simp add: counts_plug)
  qed
  note cnt = this
  let ?t' = "plug c sib"
  have di': "distinct (vaddrs ?t')" "set (vaddrs ?t') \<subseteq> set (vaddrs t)"
    using dd unfolding t distinct_vaddrs_plug set_vaddrs_plug by auto
  have h': "vheight ?t' \<le> 31"
  proof -
    have "cheight c (vheight sib) \<le> cheight c (vheight sib + 1)" by (rule cheight_mono) simp
    then show ?thesis using tree_okD(10) [OF ok] by (simp add: t vheight_plug_eq split: if_splits)
  qed
  have na: "a \<notin> set (vleaves ?t')"
    using dd cleaves_caddrs [of c] unfolding set_vleaves_plug by (auto dest: vleaves_in)
  have tot': "total ?cn ?t' < 2 ^ 64"
  proof -
    have "total ?cn ?t' = total cn ?t'" by (rule total_cong) (use na in auto)
    also have "\<dots> \<le> total cn (plug c ?tp)" by (rule total_plug_mono) simp
    finally show ?thesis using tt lim by simp
  qed
  have dom': "b < te_brk s" if "m' b \<noteq> None" for b
  proof (cases "b \<in> set (vaddrs t)")
    case True
    then show ?thesis by (rule tree_ok_fresh [OF ok])
  next
    case False
    then have "b \<noteq> a" unfolding t set_vaddrs_plug by (auto split: if_splits)
    then show ?thesis using that m'(11) [of b] False tree_okD(3) [OF ok, of b] by simp
  qed
  have par: "par \<in> set (vaddrs t)" unfolding t set_vaddrs_plug by (auto split: if_splits)
  have young: "e < epoch_now s" if "b \<in> set (vaddrs ?t')" "ris m' b = Some e" for b e
  proof (rule tree_okD(9) [OF ok])
    show "(if b = vroot sib then par else b) \<in> set (vaddrs t)" using par di'(2) that(1) by auto
    show "ris ?m (if b = vroot sib then par else b) = Some e" using m'(9) that(2) P(4) by simp
  qed
  have bm: "links (bump ul_dec ?as m') None ?t' = links m' None ?t'"
    "heights (bump ul_dec ?as m') ?t' = heights m' ?t'"
    "wlabels (bump ul_dec ?as m') 0 False ?t' = wlabels m' 0 False ?t'"
    "rises (bump ul_dec ?as m') 0 ?t' = rises m' 0 ?t'"
    by (intro tree_congs; simp)+
  have "bump ul_dec ?as m' b \<noteq> None \<longleftrightarrow> m' b \<noteq> None" for b by (simp add: bump_def)
  moreover have "rr = Some (vroot ?t')"
  proof (cases c)
    case Nil
    then show ?thesis by (simp add: rr_def)
  next
    case (Cons f d)
    then have "vroot (plug c u) = vroot (plug c u')" for u u' by (rule vroot_plug)
    then show ?thesis using Cons tree_okD(1) [OF ok] unfolding t rr_def by (simp split: if_splits)
  qed
  moreover have "1 \<le> ?cn b" if "b \<in> set (vleaves ?t')" for b
    using pos [of b] na that unfolding set_vleaves_plug by auto
  ultimately have "tree_ok ?s3 ?t' ?cn"
    using di'(1) dom' young h' tot' cnt bm m'(2,3,4) m'(6) [of 0] T1(5) unfolding tree_ok_def by simp
  moreover have "\<exists>n. te_mem ?s3 a = Some n \<and> te_nproc n = 0 \<and> te_parent n = Some (vroot sib)"
    using m'(10) dd spine_caddrs [of c] by (auto simp: bump_def)
  moreover have "te_mem ?s3 b = ?m b" if "b \<notin> set (vaddrs t)" for b
  proof -
    have "b \<notin> set ?as" "b \<noteq> a" using that spine_caddrs [of c] unfolding t set_vaddrs_plug by (auto split: if_splits)
    then show ?thesis using m'(11) that by (simp add: bump_def)
  qed
  moreover have "ris (te_mem ?s3) b = ris ?m (if b = vroot sib then par else b)" for b using m'(9) [of b] P(4) by simp
  moreover have "labels (te_mem ?s3) [] ?t' = labels m' [] ?t'"
    by (rule labels_cong) simp
  ultimately show ?thesis using run m'(5) T1(4) by (intro exI [of _ ?s3]) simp
qed

lemma total_plug_eq: "total cn (plug c t) = total cn t + sum_list (map cn (cleaves c))"
proof -
  have *: "total cn u = sum_list (map cn (vleaves u))" for u by (induction u) auto
  show ?thesis by (induction c t rule: plug.induct) (auto simp: *)
qed

text \<open>The fork of a view.\<close>

lemma newfork_tree:
  assumes ok: "tree_ok s t cn" and t: "t = plug c (VLeaf a)" and two: "1 < cn a"
    and dep: "length c < 31" and ts: "tst_te ts = Some a"
  defines "new \<equiv> te_brk s" and "par \<equiv> te_brk s + 1"
  defines "t' \<equiv> plug c (VNode par (VLeaf a) (VLeaf new))"
  shows "\<exists>s'. tst_newfork s (Some ts) = Some (\<lparr>tst_epoch = epoch_now s, tst_te = Some new\<rparr>, s') \<and>
     tree_ok s' t' (cn(a := cn a - 1, new := 1)) \<and>
     (labels (te_mem s) [] t \<longrightarrow> labels (te_mem s') [] t') \<and>
     (\<forall>b. ris (te_mem s') b = (if b = par then ris (te_mem s) a
        else if b = a \<or> b = new then Some (epoch_now s) else ris (te_mem s) b)) \<and>
     (\<forall>b. b \<notin> set (vaddrs t') \<longrightarrow> te_mem s' b = te_mem s b) \<and>
     te_brk s' = te_brk s + 2 \<and> epoch_now s' = epoch_now s + 1 \<and> nextviewid s' = ul_inc (nextviewid s)"
proof -
  let ?m = "te_mem s"
  have fr: "b < new" if "b \<in> set (vaddrs t)" for b using tree_ok_fresh [OF ok that] by (simp add: new_def)
  have ain: "a \<in> set (vaddrs t)" unfolding t set_vaddrs_plug by simp
  obtain n where n: "?m a = Some n" "te_sub0 n = None" "te_sub1 n = None"
    using tree_okD(4) [OF ok] unfolding t links_plug by (auto dest: lkD)
  have nn: "te_nproc n = cn a" "te_subheight n = 0"
    using tree_okD(5,7) [OF ok] n unfolding t counts_plug heights_plug by (simp_all add: npr_def hgt_def)
  have nl: "te_len n = length c"
    using tree_okD(6) [OF ok] n unfolding t wlabels_plug by (simp add: lab_def weak_ok_def)
  have root: "te_root s = Some (vroot t)" by (rule tree_okD [OF ok])
  let ?z = "te_zero\<lparr>te_rise := epoch_now s, te_viewid := nextviewid s\<rparr>"
  let ?s1 = "s\<lparr>te_brk := par, epoch_now := epoch_now s + 1, te_mem := ?m(new \<mapsto> ?z),
      nextviewid := ul_inc (nextviewid s)\<rparr>"
  have same: "te_mem ?s1 b = ?m b" if "b \<in> set (vaddrs t)" for b using fr [OF that] by auto
  have T1: "links (te_mem ?s1) None t" "heights (te_mem ?s1) t" "wlabels (te_mem ?s1) 0 False t"
      "labels (te_mem ?s1) [] t = labels ?m [] t" "counts (te_mem ?s1) cn t" "rises (te_mem ?s1) 0 t"
    using tree_okD(4-8) [OF ok] links_cong [of t "te_mem ?s1" ?m None] heights_cong [of t "te_mem ?s1" ?m]
      wlabels_cong [of t "te_mem ?s1" ?m 0 False] labels_cong [of t "te_mem ?s1" ?m "[]"]
      counts_cong [of t "te_mem ?s1" ?m cn] rises_cong [of t "te_mem ?s1" ?m 0] same
    by (simp_all add: proj_defs)
  have zn: "te_mem ?s1 new = Some ?z" by simp
  have zs: "te_sub0 ?z = None" "te_sub1 ?z = None" by (simp_all add: te_zero_def)
  have nf: "new \<notin> set (vaddrs t)" "par \<notin> insert new (set (vaddrs t))"
    using fr [of new] fr [of par] by (auto simp: new_def par_def)
  have b1: "te_brk ?s1 = par" by simp
  have b2: "te_brk ?s1 \<notin> insert new (set (vaddrs t))" using nf(2) by simp
  obtain m' where m': "te_split ?s1 new a = Some (?s1\<lparr>te_brk := par + 1,
            te_root := (if c = [] then Some par else te_root ?s1), te_mem := m'\<rparr>)"
     "links m' None t'" "heights m' t'" "wlabels m' 0 False t'"
     "labels (te_mem ?s1) [] t \<longrightarrow> labels m' [] t'"
     "\<forall>cn. counts (te_mem ?s1) cn t \<longrightarrow> 1 < cn a \<longrightarrow> cn a < 2 ^ 64 \<longrightarrow> counts m' (cn(a := cn a - 1, new := 1)) t'"
     "\<forall>lo. rises (te_mem ?s1) lo t \<longrightarrow> (\<forall>e. ris (te_mem ?s1) a = Some e \<longrightarrow> e \<le> te_rise ?z) \<longrightarrow> rises m' lo t'"
     "\<forall>b. ris m' b = (if b = par then ris (te_mem ?s1) a
        else if b = a \<or> b = new then Some (te_rise ?z) else ris (te_mem ?s1) b)"
     "\<forall>b. b \<notin> set (vaddrs t') \<longrightarrow> m' b = te_mem ?s1 b"
    using te_split_ok [OF T1(1) [unfolded t] zn zs tree_okD(2) [OF ok, unfolded t] nf(1) [unfolded t]
      b2 [unfolded t] T1(2) [unfolded t] T1(3) [unfolded t] dep,
      unfolded b1, folded t t'_def] by (elim exE conjE) (rule that; assumption)
  define rr where "rr = (if c = [] then Some par else te_root s)"
  let ?s' = "?s1\<lparr>te_brk := par + 1, te_root := rr, te_mem := m'\<rparr>"
  have split: "te_split ?s1 new a = Some ?s'" using m'(1) by (simp add: rr_def)
  have g: "\<not> (te_nproc n = 1 \<or> MAXDEPTH \<le> te_subheight n + te_len n)"
    using nn nl two dep by (simp add: MAXDEPTH_def)
  have run: "tst_newfork s (Some ts) = Some (\<lparr>tst_epoch = epoch_now s, tst_te = Some new\<rparr>, ?s')"
  proof -
    show ?thesis using ts n(1) g split root
      by (simp add: tst_newfork_def te_calloc_def new_epoch_def Let_def new_def par_def)
  qed
  have an: "a \<noteq> new" "a \<noteq> par" "new \<noteq> par" using fr [OF ain] by (auto simp: new_def par_def)
  let ?cn = "cn(a := cn a - 1, new := 1)"
  have lim: "total cn t < 2 ^ 64" by (rule tree_okD [OF ok])
  have ca: "cn a \<le> total cn t" using total_plug [of cn "VLeaf a" c] unfolding t by simp
  have di': "distinct (vaddrs t')"
    using tree_okD(2) [OF ok] nf an unfolding t t'_def distinct_vaddrs_plug set_vaddrs_plug by auto
  have h': "vheight t' \<le> 31"
    using cheight_fork [of c] tree_okD(10) [OF ok] dep unfolding t t'_def vheight_plug_eq by simp
  have nlv: "a \<notin> set (cleaves c)" "new \<notin> set (cleaves c)"
    using tree_okD(2) [OF ok] nf cleaves_caddrs [of c] unfolding t distinct_vaddrs_plug set_vaddrs_plug by auto
  have "map ?cn (cleaves c) = map cn (cleaves c)" using nlv by (intro map_cong) auto
  then have tot': "total ?cn t' = total cn t"
    using an two unfolding t t'_def total_plug_eq by (simp only: total.simps) simp
  have risa: "\<exists>e. ris ?m a = Some e \<and> e < epoch_now s"
    using n tree_okD(9) [OF ok ain] by (simp add: ris_def)
  have dom': "b < par + 1" if "m' b \<noteq> None" for b
  proof (cases "b \<in> set (vaddrs t')")
    case True
    then have "b \<in> set (vaddrs t) \<or> b = new \<or> b = par" unfolding t t'_def set_vaddrs_plug by auto
    then show ?thesis using fr by (auto simp: new_def par_def dest!: fr)
  next
    case False
    then have "te_mem ?s1 b \<noteq> None" using that m'(9) by simp
    then show ?thesis using tree_okD(3) [OF ok, of b] by (auto simp: new_def par_def split: if_splits)
  qed
  have ris': "ris m' b = (if b = par then ris ?m a
        else if b = a \<or> b = new then Some (epoch_now s) else ris ?m b)" for b
    using m'(8) [rule_format, of b] an by (simp add: ris_def)
  have young: "e < epoch_now s + 1" if "b \<in> set (vaddrs t')" "ris m' b = Some e" for b e
  proof -
    from that(1) have "b \<in> set (vaddrs t) \<or> b = new \<or> b = par" unfolding t t'_def set_vaddrs_plug by auto
    then show ?thesis using that(2) ris' [of b] risa tree_okD(9) [OF ok, of b e] by (auto split: if_splits)
  qed
  have "rises m' 0 t'"
    using m'(7) [rule_format, of 0] T1(6) risa an by (auto simp: ris_def)
  moreover have "counts m' ?cn t'" using m'(6) [rule_format, of cn] T1(5) two ca lim by simp
  moreover have "rr = Some (vroot t')"
  proof (cases c)
    case Nil
    then show ?thesis by (simp add: rr_def t'_def)
  next
    case (Cons f d)
    then show ?thesis using tree_okD(1) [OF ok] vroot_plug [OF Cons] unfolding t t'_def rr_def by simp
  qed
  moreover have "1 \<le> ?cn b" if b: "b \<in> set (vleaves t')" for b
  proof -
    from b have "b \<in> set (cleaves c) \<or> b = a \<or> b = new" unfolding t'_def set_vleaves_plug by auto
    moreover have "1 \<le> cn b" if "b \<in> set (cleaves c)" for b
      using tree_ok_pos [of s c "VLeaf a" cn b] ok that unfolding t by (cases c) auto
    ultimately show ?thesis using two by auto
  qed
  ultimately have "tree_ok ?s' t' ?cn"
    using di' dom' young h' tot' lim m'(2-4) unfolding tree_ok_def by simp
  moreover have "m' b = ?m b" if "b \<notin> set (vaddrs t')" for b
  proof -
    have "b \<noteq> new" using that unfolding t'_def set_vaddrs_plug by auto
    then show ?thesis using m'(9) that by simp
  qed
  ultimately show ?thesis using run m'(5) T1(4) ris'
    by (intro exI [of _ ?s']) (simp add: par_def)
qed

section \<open>The branches of a fork\<close>

text \<open>
  Both branches of the node \<open>par\<close> have the age \<open>E\<close>, the epoch of the fork, as long as \<open>par\<close> is in the tree.
\<close>

fun branch_rises :: "te_heap \<Rightarrow> epoch_t \<Rightarrow> addr \<Rightarrow> vtree \<Rightarrow> bool" where
  "branch_rises m E par (VLeaf a) \<longleftrightarrow> True"
| "branch_rises m E par (VNode a l r) \<longleftrightarrow> (a = par \<longrightarrow> ris m (vroot l) = Some E \<and> ris m (vroot r) = Some E) \<and>
     branch_rises m E par l \<and> branch_rises m E par r"

fun cbranch_rises :: "te_heap \<Rightarrow> epoch_t \<Rightarrow> addr \<Rightarrow> frame list \<Rightarrow> epoch_t option \<Rightarrow> bool" where
  "cbranch_rises m E par [] e \<longleftrightarrow> True"
| "cbranch_rises m E par ((a, sd, sib) # c) e \<longleftrightarrow> (a = par \<longrightarrow> e = Some E \<and> ris m (vroot sib) = Some E) \<and>
     branch_rises m E par sib \<and> cbranch_rises m E par c (ris m a)"

lemma branch_rises_plug:
  "branch_rises m E par (plug c t) \<longleftrightarrow> cbranch_rises m E par c (ris m (vroot t)) \<and> branch_rises m E par t"
proof (induction c t rule: plug.induct)
  case (2 a sd sib c t)
  then show ?case by (cases sd) auto
qed auto

lemma branch_rises_cong:
  "(\<And>b. b \<in> set (vaddrs t) \<Longrightarrow> b \<noteq> vroot t \<Longrightarrow> ris m' b = ris m b) \<Longrightarrow> distinct (vaddrs t) \<Longrightarrow>
     branch_rises m' E par t = branch_rises m E par t"
proof (induction t)
  case (VNode a l r)
  have "vroot l \<noteq> a" "vroot r \<noteq> a" using VNode.prems(2) vroot_in [of l] vroot_in [of r] by auto
  moreover have "branch_rises m' E par l = branch_rises m E par l" "branch_rises m' E par r = branch_rises m E par r"
    using VNode by auto
  ultimately show ?case using VNode.prems(1) by auto
qed simp

lemma cbranch_rises_cong:
  "(\<And>b. b \<in> set (caddrs c) \<Longrightarrow> ris m' b = ris m b) \<Longrightarrow> distinct (caddrs c) \<Longrightarrow>
     cbranch_rises m' E par c e = cbranch_rises m E par c e"
proof (induction c arbitrary: e)
  case (Cons f c)
  obtain a sd sib where f: "f = (a, sd, sib)" by (cases f)
  have "branch_rises m' E par sib = branch_rises m E par sib" using Cons.prems f by (intro branch_rises_cong) auto
  then show ?case using Cons f by simp
qed simp

lemma branch_rises_notin: "par \<notin> set (vaddrs t) \<Longrightarrow> branch_rises m E par t"
  by (induction t) auto

lemma cbranch_rises_notin: "par \<notin> set (caddrs c) \<Longrightarrow> cbranch_rises m E par c e"
  by (induction c arbitrary: e) (auto simp: branch_rises_notin)

text \<open>What a step of the processes keeps: no address is used again, and the ages of the branches of each node.\<close>

definition kept :: "te_state \<Rightarrow> vtree \<Rightarrow> te_state \<Rightarrow> vtree \<Rightarrow> bool" where
  "kept s t s' t' \<longleftrightarrow> te_brk s \<le> te_brk s' \<and>
     (\<forall>par E. par < te_brk s \<longrightarrow> branch_rises (te_mem s) E par t \<longrightarrow> branch_rises (te_mem s') E par t')"

lemma kept_same: "te_brk s' = te_brk s \<Longrightarrow> (\<And>b. ris (te_mem s') b = ris (te_mem s) b) \<Longrightarrow> distinct (vaddrs t) \<Longrightarrow> kept s t s' t"
  using branch_rises_cong [of t "te_mem s'" "te_mem s"] by (simp add: kept_def)

lemma kept_trans: "kept s t s' t' \<Longrightarrow> kept s' t' s'' t'' \<Longrightarrow> kept s t s'' t''"
  unfolding kept_def by (meson less_le_trans order_trans)

lemma kept_last:
  assumes d: "distinct (vaddrs (plug ((par, sd, sib) # c) (VLeaf a)))" and brk: "te_brk s' = te_brk s"
    and ris: "\<And>b. ris (te_mem s') b = ris (te_mem s) (if b = vroot sib then par else b)"
  shows "kept s (plug ((par, sd, sib) # c) (VLeaf a)) s' (plug c sib)"
proof -
  have dd: "distinct (par # vaddrs sib @ caddrs c)" using d unfolding distinct_vaddrs_plug by auto
  have "branch_rises (te_mem s') E p sib = branch_rises (te_mem s) E p sib" for E p
    using dd ris by (intro branch_rises_cong) auto
  moreover have "cbranch_rises (te_mem s') E p c e = cbranch_rises (te_mem s) E p c e" for E p e
  proof (rule cbranch_rises_cong)
    show "ris (te_mem s') b = ris (te_mem s) b" if "b \<in> set (caddrs c)" for b
      using that dd ris [of b] vroot_in [of sib] by (auto simp: disjoint_iff)
  qed (use dd in simp)
  ultimately show ?thesis using brk ris [of "vroot sib"] by (simp add: kept_def branch_rises_plug)
qed

lemma kept_fork:
  assumes d: "distinct (vaddrs (plug c (VNode par (VLeaf a) (VLeaf new))))" and fresh: "par \<ge> te_brk s"
    and brk: "te_brk s \<le> te_brk s'"
    and ris: "\<And>b. ris (te_mem s') b = (if b = par then ris (te_mem s) a
        else if b = a \<or> b = new then now else ris (te_mem s) b)"
  shows "kept s (plug c (VLeaf a)) s' (plug c (VNode par (VLeaf a) (VLeaf new)))"
proof -
  have dd: "distinct (caddrs c)" "par \<notin> set (caddrs c)" "a \<notin> set (caddrs c)" "new \<notin> set (caddrs c)"
    using d unfolding distinct_vaddrs_plug by auto
  have "cbranch_rises (te_mem s') E p c e = cbranch_rises (te_mem s) E p c e" for E p e
    using dd ris by (intro cbranch_rises_cong) auto
  then show ?thesis using brk ris [of par] fresh by (auto simp: kept_def branch_rises_plug)
qed

section \<open>The processes of a View-OS monitor\<close>

text \<open>A process identifier is an \<open>int\<close> (\<open>pid_t\<close>).\<close>

record vsys =
  vs_te :: te_state
  vs_procs :: "s32 \<rightharpoonup> timestamp"

definition vsys_init :: vsys where
  "vsys_init = \<lparr>vs_te = te_init, vs_procs = Map.empty\<rparr>"

text \<open>
  The events that change time stamps: the first process (\<open>pcb_plus\<close> with \<open>rootprocess\<close>), a
  new process (\<open>pcb_plus\<close>), a process that ends (\<open>pcb_minus\<close>), a process that starts a new
  view (\<open>pcb_newfork\<close>), a system call (\<open>dsys_commonwrap\<close> stamps it with \<open>get_epoch\<close>) and a
  new service or mount (\<open>ht_tab_add\<close> calls \<open>tst_timestamp\<close>).  A new view starts from a node
  less than 31 levels deep: the masks of the bit strings are right up to there.
\<close>

inductive vstep :: "vsys \<Rightarrow> vsys \<Rightarrow> bool" where
  vboot: "\<lbrakk>te_root s = None; tst_newfork s None = Some (t, s1); tst_newproc s1 t = Some (t', s2)\<rbrakk> \<Longrightarrow>
     vstep \<lparr>vs_te = s, vs_procs = Map.empty\<rparr> \<lparr>vs_te = s2, vs_procs = [p \<mapsto> t']\<rparr>"
| vclone: "\<lbrakk>ps p = Some t; ps q = None; tst_newproc s t = Some (t', s')\<rbrakk> \<Longrightarrow>
     vstep \<lparr>vs_te = s, vs_procs = ps\<rparr> \<lparr>vs_te = s', vs_procs = ps(q \<mapsto> t')\<rparr>"
| vexit: "\<lbrakk>ps p = Some t; tst_delproc s t = Some s'\<rbrakk> \<Longrightarrow>
     vstep \<lparr>vs_te = s, vs_procs = ps\<rparr> \<lparr>vs_te = s', vs_procs = ps(p := None)\<rparr>"
| vnewfork: "\<lbrakk>ps p = Some t; tst_te t = Some a; te_mem s a = Some n; te_len n < 31;
      tst_newfork s (Some t) = Some (t', s')\<rbrakk> \<Longrightarrow>
     vstep \<lparr>vs_te = s, vs_procs = ps\<rparr> \<lparr>vs_te = s', vs_procs = ps(p \<mapsto> t')\<rparr>"
| vcall: "\<lbrakk>ps p = Some t\<rbrakk> \<Longrightarrow>
     vstep \<lparr>vs_te = s, vs_procs = ps\<rparr> \<lparr>vs_te = s, vs_procs = ps(p \<mapsto> t\<lparr>tst_epoch := get_epoch s\<rparr>)\<rparr>"
| vmount: "\<lbrakk>ps p = Some t; tst_timestamp s t = (st, s')\<rbrakk> \<Longrightarrow>
     vstep \<lparr>vs_te = s, vs_procs = ps\<rparr> \<lparr>vs_te = s', vs_procs = ps\<rparr>"

inductive vreach :: "vsys \<Rightarrow> bool" where
  vreach_init: "vreach vsys_init"
| vreach_step: "vreach S \<Longrightarrow> vstep S S' \<Longrightarrow> vreach S'"

definition nprocs :: "(s32 \<rightharpoonup> timestamp) \<Rightarrow> addr \<Rightarrow> nat" where
  "nprocs ps a = card {p. \<exists>t. ps p = Some t \<and> tst_te t = Some a}"

definition vs_tree :: "vsys \<Rightarrow> vtree \<Rightarrow> bool" where
  "vs_tree S t \<longleftrightarrow> tree_ok (vs_te S) t (nprocs (vs_procs S)) \<and>
     (\<forall>p ts. vs_procs S p = Some ts \<longrightarrow> (\<exists>a \<in> set (vleaves t). tst_te ts = Some a))"

definition vs_inv :: "vsys \<Rightarrow> bool" where
  "vs_inv S \<longleftrightarrow> (vs_te S = te_init \<and> vs_procs S = Map.empty) \<or> (\<exists>t. vs_tree S t)"

subsection \<open>Counting processes\<close>

lemma nprocs_set: "nprocs ps a = card {p. map_option tst_te (ps p) = Some (Some a)}"
  unfolding nprocs_def by (rule arg_cong [of _ _ card]) auto

lemma nprocs_upd:
  "nprocs (ps(p := v)) a + of_bool (map_option tst_te (ps p) = Some (Some a)) =
     nprocs ps a + of_bool (map_option tst_te v = Some (Some a))"
proof -
  let ?A = "{q. q \<noteq> p \<and> map_option tst_te (ps q) = Some (Some a)}"
  have 1: "{q. map_option tst_te (ps q) = Some (Some a)} =
      (if map_option tst_te (ps p) = Some (Some a) then insert p ?A else ?A)" by auto
  have 2: "{q. map_option tst_te ((ps(p := v)) q) = Some (Some a)} =
      (if map_option tst_te v = Some (Some a) then insert p ?A else ?A)" by auto
  have f: "finite ?A" "p \<notin> ?A" by auto
  show ?thesis unfolding nprocs_set 1 2 using f by simp
qed

lemma nprocs_pos: "ps p = Some t \<Longrightarrow> tst_te t = Some a \<Longrightarrow> 1 \<le> nprocs ps a"
proof -
  assume "ps p = Some t" "tst_te t = Some a"
  then have "p \<in> {p. \<exists>t. ps p = Some t \<and> tst_te t = Some a}" by auto
  then have "0 < card {p. \<exists>t. ps p = Some t \<and> tst_te t = Some a}"
    unfolding card_gt_0_iff by auto
  then show ?thesis unfolding nprocs_def by linarith
qed

lemma total_nprocs: "distinct (vaddrs t) \<Longrightarrow>
    total (nprocs ps) t = card {p. \<exists>a \<in> set (vleaves t). map_option tst_te (ps p) = Some (Some a)}"
proof (induction t)
  case (VLeaf a)
  then show ?case by (simp add: nprocs_set)
next
  case (VNode a l r)
  let ?A = "\<lambda>u. {p. \<exists>a \<in> set (vleaves u). map_option tst_te (ps p) = Some (Some a)}"
  have "set (vleaves l) \<inter> set (vleaves r) = {}" using VNode.prems vleaves_in by fastforce
  then have "?A l \<inter> ?A r = {}" by auto
  moreover have "?A (VNode a l r) = ?A l \<union> ?A r" by auto
  ultimately have "card (?A (VNode a l r)) = card (?A l) + card (?A r)"
    by (simp add: card_Un_disjoint)
  with VNode show ?case by simp
qed

lemma total_nprocs_lim: "distinct (vaddrs t) \<Longrightarrow> total (nprocs ps) t + 1 < 2 ^ 64"
proof -
  assume d: "distinct (vaddrs t)"
  have "card {p. \<exists>a \<in> set (vleaves t). map_option tst_te (ps p) = Some (Some a)} \<le> card (UNIV :: s32 set)"
    by (rule card_mono) auto
  then show ?thesis using total_nprocs [OF d, of ps] by (simp add: card_word)
qed

subsection \<open>Every event is defined and keeps the invariant\<close>

text \<open>
  When the process \<open>t\<close> is the last one of its view, the other branch is a view or a pair of views.
\<close>

definition flat_end :: "te_state \<Rightarrow> timestamp \<Rightarrow> bool" where
  "flat_end s t \<longleftrightarrow> (case Option.bind (tst_te t) (te_mem s) of None \<Rightarrow> True | Some n \<Rightarrow>
     te_nproc n = 1 \<longrightarrow> (case Option.bind (te_parent n) (te_mem s) of None \<Rightarrow> True | Some pn \<Rightarrow>
       (case Option.bind (if te_sub0 pn = tst_te t then te_sub1 pn else te_sub0 pn) (te_mem s) of
          None \<Rightarrow> True | Some x \<Rightarrow> te_subheight x \<le> 1)))"

lemma flat_end_tree:
  assumes ok: "tree_ok s (plug ((par, sd, sib) # c) (VLeaf a)) cn" and a: "cn a = 1" "tst_te t = Some a"
  shows "flat_end s t \<longleftrightarrow> vheight sib \<le> 1"
proof -
  have l: "lk (te_mem s) a = Some (Some par, None, None)" "links (te_mem s) (Some par) sib"
      "lk (te_mem s) par = Some (cpar c, Some (if sd then vroot sib else a), Some (if sd then a else vroot sib))"
    using tree_okD(4) [OF ok] unfolding links_plug by simp_all
  have "heights (te_mem s) sib" "npr (te_mem s) a = Some 1"
    using tree_okD(5,7) [OF ok] a(1) unfolding heights_plug counts_plug by simp_all
  moreover from this(1) have "hgt (te_mem s) (vroot sib) = Some (vheight sib)" by (rule heights_root)
  moreover have "vroot sib \<noteq> a" using tree_okD(2) [OF ok] vroot_in [of sib] unfolding distinct_vaddrs_plug by auto
  ultimately show ?thesis using l a(2) by (cases sd) (auto simp: flat_end_def lk_def hgt_def npr_def)
qed


lemma boot_ok:
  "\<exists>t s1 t' s2 a. tst_newfork te_init None = Some (t, s1) \<and> tst_newproc s1 t = Some (t', s2) \<and>
     tst_te t' = Some a \<and> tree_ok s2 (VLeaf a) (\<lambda>b. if b = a then 1 else 0) \<and>
     labels (te_mem s2) [] (VLeaf a)"
  by (simp add: tst_newfork_def te_init_def te_calloc_def new_epoch_def te_upd_def Let_def
      tst_newproc_def te_newproc.simps te_zero_def tree_ok_def proj_defs weak_ok_def label_ok_def
      DEPTH_WORDS_def DEPTH_BYTES_def MAXDEPTH_def ul_inc_def)

lemma vs_treeD:
  assumes "vs_tree S t" "vs_procs S p = Some ts"
  obtains a where "a \<in> set (vleaves t)" "tst_te ts = Some a" "tree_ok (vs_te S) t (nprocs (vs_procs S))"
    "1 \<le> nprocs (vs_procs S) a"
  using assms nprocs_pos unfolding vs_tree_def by blast

lemma nprocs_clone:
  assumes "ps q = None" "tst_te t = Some a"
  shows "nprocs (ps(q \<mapsto> t)) = (nprocs ps)(a := nprocs ps a + 1)"
proof
  fix b show "nprocs (ps(q \<mapsto> t)) b = ((nprocs ps)(a := nprocs ps a + 1)) b"
    using nprocs_upd [of ps q "Some t" b] assms by auto
qed

lemma nprocs_exit:
  assumes "ps p = Some t" "tst_te t = Some a"
  shows "nprocs (ps(p := None)) = (nprocs ps)(a := nprocs ps a - 1)"
proof
  fix b show "nprocs (ps(p := None)) b = ((nprocs ps)(a := nprocs ps a - 1)) b"
    using nprocs_upd [of ps p None b] assms by auto
qed

lemma nprocs_move:
  assumes "ps p = Some t" "tst_te t = Some a" "tst_te t' = Some a'" "a' \<noteq> a"
  shows "nprocs (ps(p \<mapsto> t')) = (nprocs ps)(a := nprocs ps a - 1, a' := nprocs ps a' + 1)"
proof
  fix b show "nprocs (ps(p \<mapsto> t')) b = ((nprocs ps)(a := nprocs ps a - 1, a' := nprocs ps a' + 1)) b"
    using nprocs_upd [of ps p "Some t'" b] assms by auto
qed

lemma nprocs_same: "map_option tst_te (ps p) = map_option tst_te v \<Longrightarrow> nprocs (ps(p := v)) = nprocs ps"
  using nprocs_upd [of ps p v] by (intro ext) simp

lemma nprocs_0: "(\<And>p t. ps p = Some t \<Longrightarrow> tst_te t \<noteq> Some a) \<Longrightarrow> nprocs ps a = 0"
  unfolding nprocs_def by (auto simp: card_eq_0_iff)

lemma clone_ok:
  assumes "vs_tree \<lparr>vs_te = s, vs_procs = ps\<rparr> t" "ps p = Some ts" "ps q = None"
  shows "\<exists>s'. tst_newproc s ts = Some (ts, s') \<and> vs_tree \<lparr>vs_te = s', vs_procs = ps(q \<mapsto> ts)\<rparr> t \<and>
     labels (te_mem s') [] t = labels (te_mem s) [] t \<and> kept s t s' t"
proof -
  obtain a where a: "a \<in> set (vleaves t)" "tst_te ts = Some a" "tree_ok s t (nprocs ps)"
    using vs_treeD [OF assms(1), of p ts] assms(2) by auto
  obtain c where "te_newproc s (Some a) = Some (s\<lparr>te_mem := bump ul_inc (a # spine c) (te_mem s)\<rparr>)"
      "tree_ok (s\<lparr>te_mem := bump ul_inc (a # spine c) (te_mem s)\<rparr>) t ((nprocs ps)(a := nprocs ps a + 1))"
    using newproc_tree [OF a(3,1) total_nprocs_lim] tree_okD(2) [OF a(3)] by blast
  moreover have "labels (bump ul_inc (a # spine c) (te_mem s)) [] t = labels (te_mem s) [] t" by (rule labels_cong) simp
  moreover have "kept s t (s\<lparr>te_mem := bump ul_inc (a # spine c) (te_mem s)\<rparr>) t" using tree_okD(2) [OF a(3)] by (intro kept_same) simp_all
  moreover have "nprocs (ps(q \<mapsto> ts)) = (nprocs ps)(a := nprocs ps a + 1)"
    by (rule nprocs_clone) (use assms a in auto)
  ultimately show ?thesis using assms a unfolding vs_tree_def by (simp add: tst_newproc_def)
qed

lemma exit_ok:
  assumes vt: "vs_tree \<lparr>vs_te = s, vs_procs = ps\<rparr> t" and p: "ps p = Some ts"
  shows "\<exists>s' t'. tst_delproc s ts = Some s' \<and> vs_tree \<lparr>vs_te = s', vs_procs = ps(p := None)\<rparr> t' \<and>
     (labels (te_mem s) [] t \<and> flat_end s ts \<longrightarrow> labels (te_mem s') [] t') \<and> kept s t s' t'"
proof -
  obtain a where a: "a \<in> set (vleaves t)" "tst_te ts = Some a" "tree_ok s t (nprocs ps)" "1 \<le> nprocs ps a"
    using vs_treeD [OF vt, of p ts] p by auto
  have np: "nprocs (ps(p := None)) = (nprocs ps)(a := nprocs ps a - 1)"
    using nprocs_exit [of ps p ts a] p a(2) by simp
  show ?thesis
  proof (cases "nprocs ps a \<noteq> 1 \<or> t = VLeaf a")
    case True
    then obtain c where "te_delproc s (Some a) = Some (s\<lparr>te_mem := bump ul_dec (a # spine c) (te_mem s)\<rparr>)"
        "tree_ok (s\<lparr>te_mem := bump ul_dec (a # spine c) (te_mem s)\<rparr>) t ((nprocs ps)(a := nprocs ps a - 1))"
      using delproc_tree_stay [OF a(3,1,4)] by blast
    moreover have "labels (bump ul_dec (a # spine c) (te_mem s)) [] t = labels (te_mem s) [] t" by (rule labels_cong) simp
    moreover have "kept s t (s\<lparr>te_mem := bump ul_dec (a # spine c) (te_mem s)\<rparr>) t" using tree_okD(2) [OF a(3)] by (intro kept_same) simp_all
    ultimately show ?thesis using vt a np unfolding vs_tree_def
      by (intro exI [of _ "s\<lparr>te_mem := bump ul_dec (a # spine c) (te_mem s)\<rparr>"] exI [of _ t]) (auto simp: tst_delproc_def)
  next
    case False
    obtain c where c: "t = plug c (VLeaf a)" using in_vleaves_plug [OF a(1)] by blast
    then obtain par sd sib d where d: "c = (par, sd, sib) # d" using False by (cases c) auto
    let ?t' = "plug d sib"
    have one: "nprocs ps a = 1" using False by simp
    obtain s' where s': "te_delproc s (Some a) = Some s'" "tree_ok s' ?t' ((nprocs ps)(a := 0))"
        "labels (te_mem s) [] t \<longrightarrow> vheight sib \<le> 1 \<longrightarrow> labels (te_mem s') [] ?t'" "te_brk s' = te_brk s"
        "\<forall>b. ris (te_mem s') b = ris (te_mem s) (if b = vroot sib then par else b)"
      using delproc_tree_last [OF a(3) c [unfolded d] one] by blast
    have "kept s t s' ?t'" using kept_last [of par sd sib d a s' s] s'(4,5) tree_okD(2) [OF a(3)] unfolding c d by simp
    moreover have "flat_end s ts \<longleftrightarrow> vheight sib \<le> 1" using flat_end_tree a(2,3) one unfolding c d by blast
    moreover     have "\<exists>b \<in> set (vleaves ?t'). tst_te ts' = Some b" if q: "(ps(p := None)) q = Some ts'" for q ts'
    proof -
      obtain b where b: "b \<in> set (vleaves t)" "tst_te ts' = Some b"
        using vs_treeD [OF vt, of q ts'] q by (auto split: if_splits)
      have "1 \<le> nprocs (ps(p := None)) b" using nprocs_pos [of _ q ts' b] q b(2) by blast
      then have "b \<noteq> a" using np False by auto
      then show ?thesis using b unfolding c d set_vleaves_plug by (auto split: if_splits)
    qed
    then have "vs_tree \<lparr>vs_te = s', vs_procs = ps(p := None)\<rparr> ?t'"
      using s'(2) np False unfolding vs_tree_def by simp
    ultimately show ?thesis using s'(1,3) a(2) by (intro exI [of _ s'] exI [of _ ?t']) (auto simp: tst_delproc_def)
  qed
qed

lemma newfork_ok:
  assumes vt: "vs_tree \<lparr>vs_te = s, vs_procs = ps\<rparr> t" and p: "ps p = Some ts"
    and n: "tst_te ts = Some a" "te_mem s a = Some n" "te_len n < 31"
  shows "\<exists>ts' s' t'. tst_newfork s (Some ts) = Some (ts', s') \<and>
     vs_tree \<lparr>vs_te = s', vs_procs = ps(p \<mapsto> ts')\<rparr> t' \<and>
     (labels (te_mem s) [] t \<longrightarrow> labels (te_mem s') [] t') \<and> kept s t s' t' \<and>
     (te_nproc n \<noteq> 1 \<longrightarrow> branch_rises (te_mem s') (epoch_now s) (te_brk s + 1) t' \<and> te_brk s + 1 < te_brk s')"
proof -
  have a: "a \<in> set (vleaves t)" "tree_ok s t (nprocs ps)" "1 \<le> nprocs ps a"
    using vs_treeD [OF vt, of p ts] p n by auto
  obtain c where c: "t = plug c (VLeaf a)" using in_vleaves_plug [OF a(1)] by blast
  have nn: "te_nproc n = nprocs ps a" "te_len n = length c"
    using tree_okD(6,7) [OF a(2)] n(2) unfolding c counts_plug wlabels_plug
    by (simp_all add: npr_def lab_def weak_ok_def)
  show ?thesis
  proof (cases "nprocs ps a = 1")
    case True
    then have "tst_newfork s (Some ts) = Some (ts, s)" using n nn by (simp add: tst_newfork_def)
    moreover have "ps(p \<mapsto> ts) = ps" using p by (simp add: map_upd_triv)
    moreover have "kept s t s t" by (simp add: kept_def)
    ultimately show ?thesis using vt nn True by auto
  next
    case False
    then have two: "1 < nprocs ps a" using a(3) by simp
    let ?new = "te_brk s" and ?par = "te_brk s + 1"
    let ?t' = "plug c (VNode ?par (VLeaf a) (VLeaf ?new))"
    let ?ts = "\<lparr>tst_epoch = epoch_now s, tst_te = Some ?new\<rparr>"
    obtain s' where s': "tst_newfork s (Some ts) = Some (?ts, s')"
       "tree_ok s' ?t' ((nprocs ps)(a := nprocs ps a - 1, ?new := 1))"
       "labels (te_mem s) [] t \<longrightarrow> labels (te_mem s') [] ?t'" "te_brk s' = te_brk s + 2"
       "\<forall>b. ris (te_mem s') b = (if b = ?par then ris (te_mem s) a
          else if b = a \<or> b = ?new then Some (epoch_now s) else ris (te_mem s) b)"
      using newfork_tree [OF a(2) c two _ n(1)] nn n(3) by auto
    note d' = tree_okD(2) [OF s'(2)]
    have k: "kept s t s' ?t'" unfolding c using d' s'(4,5) by (intro kept_fork [where now = "Some (epoch_now s)"]) auto
    have b: "branch_rises (te_mem s') (epoch_now s) ?par ?t'"
      using d' s'(5) unfolding distinct_vaddrs_plug branch_rises_plug by (auto simp: cbranch_rises_notin)
    have fresh: "b < ?new" if "b \<in> set (vleaves t)" for b
      using tree_ok_fresh [OF a(2) vleaves_in [OF that]] .
    have "nprocs ps ?new = 0"
    proof (rule nprocs_0)
      fix q tq assume q: "ps q = Some tq"
      obtain b where "b \<in> set (vleaves t)" "tst_te tq = Some b"
        using vs_treeD [OF vt, of q tq] q by auto
      then show "tst_te tq \<noteq> Some ?new" using fresh [of b] by auto
    qed
    then have np: "nprocs (ps(p \<mapsto> ?ts)) = (nprocs ps)(a := nprocs ps a - 1, ?new := 1)"
      using nprocs_move [of ps p ts a ?ts ?new] p n(1) fresh [OF a(1)] by simp
    have "\<exists>b \<in> set (vleaves ?t'). tst_te tq = Some b" if q: "(ps(p \<mapsto> ?ts)) q = Some tq" for q tq
    proof (cases "q = p")
      case True
      then show ?thesis using q unfolding set_vleaves_plug by auto
    next
      case False
      then obtain b where "b \<in> set (vleaves t)" "tst_te tq = Some b"
        using vs_treeD [OF vt, of q tq] q by auto
      then show ?thesis unfolding c set_vleaves_plug by auto
    qed
    then have "vs_tree \<lparr>vs_te = s', vs_procs = ps(p \<mapsto> ?ts)\<rparr> ?t'"
      using s'(2) np unfolding vs_tree_def by simp
    then show ?thesis using s'(1,3,4) k b by auto
  qed
qed

lemma vstep_inv: "vstep S S' \<Longrightarrow> vs_inv S \<Longrightarrow> vs_inv S'"
proof (induction rule: vstep.induct)
  case (vboot s t s1 t' s2 p)
  have "s = te_init" using vboot tree_okD(1) unfolding vs_inv_def vs_tree_def by fastforce
  then obtain a where "tst_te t' = Some a" "tree_ok s2 (VLeaf a) (\<lambda>b. if b = a then 1 else 0)"
    using boot_ok vboot(2,3) by auto
  moreover have "nprocs [p \<mapsto> t'] = (\<lambda>b. if b = a then 1 else 0)"
    using nprocs_clone [of Map.empty p t' a] calculation(1) by (auto simp: nprocs_def fun_upd_def)
  ultimately have "vs_tree \<lparr>vs_te = s2, vs_procs = [p \<mapsto> t']\<rparr> (VLeaf a)"
    unfolding vs_tree_def by (auto split: if_splits)
  then show ?case unfolding vs_inv_def by blast
next
  case (vclone ps p t q s t' s')
  then obtain u where "vs_tree \<lparr>vs_te = s, vs_procs = ps\<rparr> u" unfolding vs_inv_def by auto
  then show ?case using clone_ok [of s ps u p t q] vclone unfolding vs_inv_def by auto
next
  case (vexit ps p t s s')
  then obtain u where "vs_tree \<lparr>vs_te = s, vs_procs = ps\<rparr> u" unfolding vs_inv_def by auto
  then show ?case using exit_ok [of s ps u p t] vexit unfolding vs_inv_def by auto
next
  case (vnewfork ps p t a s n t' s')
  then obtain u where "vs_tree \<lparr>vs_te = s, vs_procs = ps\<rparr> u" unfolding vs_inv_def by auto
  then show ?case using newfork_ok [of s ps u p t a n] vnewfork unfolding vs_inv_def by auto
next
  case (vcall ps p t s)
  then obtain u where u: "vs_tree \<lparr>vs_te = s, vs_procs = ps\<rparr> u" unfolding vs_inv_def by auto
  have "nprocs (ps(p \<mapsto> t\<lparr>tst_epoch := get_epoch s\<rparr>)) = nprocs ps"
    by (rule nprocs_same) (simp add: vcall)
  then have "vs_tree \<lparr>vs_te = s, vs_procs = ps(p \<mapsto> t\<lparr>tst_epoch := get_epoch s\<rparr>)\<rparr> u"
    using u vcall(1) unfolding vs_tree_def by auto
  then show ?case unfolding vs_inv_def by blast
next
  case (vmount ps p t s st s')
  then obtain u where u: "vs_tree \<lparr>vs_te = s, vs_procs = ps\<rparr> u" unfolding vs_inv_def by auto
  have "s' = s\<lparr>epoch_now := epoch_now s + 1\<rparr>"
    using vmount by (auto simp: tst_timestamp_def new_epoch_def)
  then have "vs_tree \<lparr>vs_te = s', vs_procs = ps\<rparr> u"
    using u unfolding vs_tree_def tree_ok_def by fastforce
  then show ?case unfolding vs_inv_def by blast
qed

lemma vreach_inv: "vreach S \<Longrightarrow> vs_inv S"
proof (induction rule: vreach.induct)
  case vreach_init
  then show ?case by (simp add: vs_inv_def vsys_init_def)
next
  case (vreach_step S S')
  then show ?case using vstep_inv by blast
qed

section \<open>Which services a process sees\<close>

text \<open>
  The nodes from a node up to the root, the nodes below a node, and the path of a node:
  the specification of \<open>tst_matchingepoch\<close> is in these terms.
\<close>

fun vanc :: "vtree \<Rightarrow> addr \<Rightarrow> addr list" where
  "vanc (VLeaf b) a = (if a = b then [b] else [])"
| "vanc (VNode b l r) a = (if a = b then [b]
     else let xs = vanc l a @ vanc r a in if xs = [] then [] else xs @ [b])"

fun vbelow :: "vtree \<Rightarrow> addr \<Rightarrow> addr list" where
  "vbelow (VLeaf b) a = (if a = b then [b] else [])"
| "vbelow (VNode b l r) a = (if a = b then vaddrs (VNode b l r) else vbelow l a @ vbelow r a)"

fun vpath :: "vtree \<Rightarrow> addr \<Rightarrow> bool list option" where
  "vpath (VLeaf b) a = (if a = b then Some [] else None)"
| "vpath (VNode b l r) a = (if a = b then Some []
     else case vpath l a of Some p \<Rightarrow> Some (False # p) | None \<Rightarrow> map_option (Cons True) (vpath r a))"

lemma vanc_Nil: "vanc t a = [] \<longleftrightarrow> a \<notin> set (vaddrs t)"
  by (induction t) (auto simp: Let_def)

lemma vbelow_in: "set (vbelow t a) \<subseteq> set (vaddrs t)"
  by (induction t) auto

lemma vbelow_Nil: "a \<notin> set (vaddrs t) \<Longrightarrow> vbelow t a = []"
  by (induction t) auto

lemma vpath_None: "vpath t a = None \<longleftrightarrow> a \<notin> set (vaddrs t)"
  by (induction t) (auto split: option.splits)

lemma vpath_in: "vpath t a = Some p \<Longrightarrow> a \<in> set (vaddrs t)"
  using vpath_None [of t a] by auto

lemma vanc_plug:
  assumes "distinct (vaddrs (plug c u))" "a \<in> set (vaddrs u)"
  shows "vanc (plug c u) a = vanc u a @ spine c"
  using assms
proof (induction c u rule: plug.induct)
  case (2 b sd sib c u)
  have "distinct (vaddrs (if sd then VNode b sib u else VNode b u sib))"
    using "2.prems"(1) by (simp add: distinct_vaddrs_plug)
  then have *: "a \<noteq> b" "a \<notin> set (vaddrs sib)" using "2.prems"(2) by (auto split: if_splits)
  then have "vanc sib a = []" "vanc u a \<noteq> []" using "2.prems"(2) vanc_Nil by auto
  then have "vanc (if sd then VNode b sib u else VNode b u sib) a = vanc u a @ [b]"
    using * by (cases sd) (auto simp: Let_def)
  then show ?case using "2.IH" "2.prems" by (cases sd) auto
qed simp

lemma vanc_root: "vanc t (vroot t) = [vroot t]"
  by (cases t) auto

lemma vanc_pchain:
  assumes "links m None t" "distinct (vaddrs t)" "a \<in> set (vaddrs t)"
  shows "pchain m (vanc t a)" "\<exists>bs. vanc t a = a # bs"
proof -
  obtain c u where t: "t = plug c u" "vroot u = a" using in_vaddrs_plug [OF assms(3)] by blast
  have v: "vanc t a = a # spine c"
    using vanc_plug [of c u a] assms(2) t vanc_root [of u] vroot_in [of u] by auto
  have "clinks m c a" "links m (cpar c) u" using assms(1) t by (auto simp: links_plug)
  moreover have "cpar c = (case spine c of [] \<Rightarrow> None | b # _ \<Rightarrow> Some b)" by (cases c) auto
  ultimately show "pchain m (vanc t a)" unfolding v using t
    by (auto dest!: links_root lkD dest: clinks_pchain)
  show "\<exists>bs. vanc t a = a # bs" using v by blast
qed

lemma vanc_below: "y \<in> set (vanc t a) \<Longrightarrow> distinct (vaddrs t) \<Longrightarrow> a \<in> set (vbelow t y)"
proof (induction t)
  case (VNode b l r)
  then show ?case
  proof (cases "a = b \<or> y = b")
    case True
    then show ?thesis using VNode.prems vanc_Nil [of l a] vanc_Nil [of r a]
      by (auto simp: Let_def split: if_splits)
  next
    case False
    then have "y \<in> set (vanc l a) \<or> y \<in> set (vanc r a)" using VNode.prems(1)
      by (auto simp: Let_def split: if_splits)
    then show ?thesis using VNode False by auto
  qed
qed (auto split: if_splits)

text \<open>The first node on the way to the root that is not younger than the service.\<close>

fun climb :: "te_heap \<Rightarrow> epoch_t \<Rightarrow> addr list \<Rightarrow> addr option" where
  "climb m e [] = None"
| "climb m e (a # as) = (case ris m a of None \<Rightarrow> None
     | Some r \<Rightarrow> if e < r then climb m e as else Some a)"

lemma match_rise_climb:
  "pchain (te_mem s) (a # as) \<Longrightarrow> match_rise s e a = climb (te_mem s) e (a # as)"
proof (induction as arbitrary: a)
  case Nil
  then show ?case by (subst match_rise.simps) (auto simp: ris_def)
next
  case (Cons b bs)
  then show ?case by (subst match_rise.simps) (auto simp: ris_def)
qed

lemma climb_in: "climb m e as = Some y \<Longrightarrow> y \<in> set as"
  by (induction as) (auto split: option.splits if_splits)

lemma match_dead_live: "te_mem s a = Some n \<Longrightarrow> te_nproc n \<noteq> 0 \<or> te_parent n = None \<Longrightarrow> match_dead s a = Some a"
  by (subst match_dead.simps) (auto split: option.splits)

lemma match_dead_step:
  "te_mem s a = Some n \<Longrightarrow> te_nproc n = 0 \<Longrightarrow> te_parent n = Some p \<Longrightarrow> match_dead s a = match_dead s p"
  by (subst match_dead.simps) simp

lemma match_dead_tree:
  assumes "tree_ok s t cn" "a \<in> set (vaddrs t)"
  shows "match_dead s a = Some a"
proof -
  obtain c u where t: "t = plug c u" "vroot u = a" using in_vaddrs_plug [OF assms(2)] by blast
  obtain n where n: "te_mem s a = Some n" "te_parent n = cpar c"
    using tree_okD(4) [OF assms(1)] t by (auto simp: links_plug dest!: links_root lkD)
  have "counts (te_mem s) cn u" using tree_okD(7) [OF assms(1)] t by (simp add: counts_plug)
  then have np: "te_nproc n = total cn u" using n t by (cases u) (auto simp: npr_def)
  show ?thesis
  proof (cases "c = []")
    case True
    then show ?thesis using match_dead_live [of s a n] n by simp
  next
    case False
    have "1 \<le> total cn u"
      by (rule total_pos) (use tree_ok_pos [of s c u cn] assms(1) t False in auto)
    then show ?thesis using match_dead_live [of s a n] n np by simp
  qed
qed

lemma labels_path:
  "labels m p t \<Longrightarrow> vpath t a = Some q \<Longrightarrow> \<exists>lb. lab m a = Some lb \<and> label_ok (p @ q) lb"
proof (induction t arbitrary: p q)
  case (VNode b l r)
  show ?case
  proof (cases "vpath l a")
    case None
    then show ?thesis using VNode.prems VNode.IH(2) [of "p @ [True]"] by (auto split: if_splits)
  next
    case (Some q')
    then show ?thesis using VNode.prems VNode.IH(1) [of "p @ [False]"] by (auto split: if_splits)
  qed
qed (auto split: if_splits)

lemma vbelow_prefix:
  "distinct (vaddrs t) \<Longrightarrow> vpath t y = Some p \<Longrightarrow> vpath t a = Some q \<Longrightarrow>
     a \<in> set (vbelow t y) \<longleftrightarrow> prefix p q"
proof (induction t arbitrary: p q)
  case (VNode b l r)
  have in_: "a \<in> set (vaddrs (VNode b l r))" "y \<in> set (vaddrs (VNode b l r))"
    using vpath_in VNode.prems(2,3) by blast+
  show ?case
  proof (cases "y = b \<or> a = b")
    case True
    then show ?thesis using VNode.prems in_ vbelow_in [of l y] vbelow_in [of r y]
      by (auto split: option.splits)
  next
    case False
    have "vbelow l y = []" if "y \<notin> set (vaddrs l)" using that by (rule vbelow_Nil)
    moreover have "vbelow r y = []" if "y \<notin> set (vaddrs r)" using that by (rule vbelow_Nil)
    ultimately show ?thesis
      using False VNode vpath_None [of l a] vpath_None [of l y] vpath_None [of r a] vpath_None [of r y]
        vbelow_in [of l y] vbelow_in [of r y]
      by (auto split: option.splits)
  qed
qed (auto split: if_splits)

lemma vpath_length: "vpath t a = Some p \<Longrightarrow> length p \<le> vheight t"
proof (induction t arbitrary: p)
  case (VNode b l r)
  then show ?case by (fastforce split: if_splits option.splits)
qed (auto split: if_splits)

lemma label_prefix:
  assumes "label_ok p (l1, b1)" "label_ok q (l2, b2)" "length p \<le> 31"
  shows "\<not> (l1 > l2 \<or> diffbitstr b1 b2 l1) \<longleftrightarrow> prefix p q"
proof -
  have "\<not> diffbitstr b1 b2 (length p) \<longleftrightarrow> (\<forall>i<length p. bit (b1 ! 0) i = bit (b2 ! 0) i)"
    using diffbitstr_iff [of "length p" b1 b2] assms by (auto simp: label_ok_def)
  moreover have "prefix p q \<longleftrightarrow> length p \<le> length q \<and> (\<forall>i<length p. p ! i = q ! i)"
    by (auto simp: prefix_def nth_append list_eq_iff_nth_eq intro!: exI [of _ "drop (length p) q"])
  ultimately show ?thesis using assms by (auto simp: label_ok_def)
qed

lemma match_tree:
  assumes ok: "tree_ok s t cn" and lb: "labels (te_mem s) [] t"
    and x: "tst_te st = Some x" "match_dead s x = Some x'" "x' \<in> set (vaddrs t)"
    and a: "tst_te pt = Some a" "a \<in> set (vaddrs t)"
    and y: "climb (te_mem s) (tst_epoch st) (vanc t x') = Some y"
  shows "tst_matchingepoch s (Some pt) st =
     Some (if a \<in> set (vbelow t y) \<and> tst_epoch st < tst_epoch pt then tst_epoch st else 0,
           st\<lparr>tst_te := Some y\<rparr>)"
proof -
  note di = tree_okD(2) [OF ok]
  obtain bs where bs: "vanc t x' = x' # bs" "pchain (te_mem s) (x' # bs)"
    using vanc_pchain [OF tree_okD(4) [OF ok] di x(3)] by auto
  then have mr: "match_rise s (tst_epoch st) x' = Some y" using y match_rise_climb by metis
  have yin: "y \<in> set (vaddrs t)"
  proof -
    have "x' \<in> set (vbelow t y)" using vanc_below [OF climb_in [OF y] di] .
    then show ?thesis using vbelow_Nil [of y t] by fastforce
  qed
  obtain p q where p: "vpath t y = Some p" and q: "vpath t a = Some q"
    using yin a(2) vpath_None by (metis option.exhaust)
  obtain yn an where n: "te_mem s y = Some yn" "te_mem s a = Some an"
    using links_in_dom [OF tree_okD(4) [OF ok]] yin a(2) by fastforce
  have "label_ok p (te_len yn, te_bitstr yn)" "label_ok q (te_len an, te_bitstr an)"
    using labels_path [OF lb p] labels_path [OF lb q] n by (auto simp: lab_def)
  moreover have "length p \<le> 31" using vpath_length [OF p] tree_okD(10) [OF ok] by simp
  ultimately have "\<not> (te_len yn > te_len an \<or> diffbitstr (te_bitstr yn) (te_bitstr an) (te_len yn)) \<longleftrightarrow>
      a \<in> set (vbelow t y)"
    using label_prefix vbelow_prefix [OF di p q] by blast
  then show ?thesis using x a mr n by (auto simp: tst_matchingepoch_def)
qed

end
