(* ===== verification/Treepoch_Runs.thy ===== *)
theory Treepoch_Runs
  imports Treepoch_Views
begin

text \<open>
  The runs in which the bit strings of the views stay the paths of the tree: no view ends while its
  other branch is deeper than a pair of views.  In these runs \<open>tst_matchingepoch\<close> follows the tree, and
  the two branches of a fork keep their age.
\<close>

section \<open>Runs with true labels\<close>

definition lstep :: "vsys \<Rightarrow> vsys \<Rightarrow> bool" where
  "lstep S S' \<longleftrightarrow> vstep S S' \<and> (\<forall>p t. vs_procs S p = Some t \<and> vs_procs S' p = None \<longrightarrow> flat_end (vs_te S) t)"

lemma lstepI: "vstep S S' \<Longrightarrow> dom (vs_procs S) \<subseteq> dom (vs_procs S') \<Longrightarrow> lstep S S'"
  by (auto simp: lstep_def)

inductive lreach :: "vsys \<Rightarrow> bool" where
  lreach_init: "lreach vsys_init"
| lreach_step: "lreach S \<Longrightarrow> lstep S S' \<Longrightarrow> lreach S'"

lemma lreach_vreach: "lreach S \<Longrightarrow> vreach S"
  by (induction rule: lreach.induct) (auto simp: lstep_def intro: vreach.intros)

text \<open>The pointers determine the tree.\<close>

lemma links_unique: "links m p t \<Longrightarrow> links m p t' \<Longrightarrow> vroot t = vroot t' \<Longrightarrow> t = t'"
proof (induction t arbitrary: p t')
  case (VLeaf a)
  then show ?case by (cases t') auto
next
  case (VNode a l r)
  then show ?case by (cases t') auto
qed

lemma vs_tree_unique: "vs_tree S t \<Longrightarrow> vs_tree S t' \<Longrightarrow> t = t'"
  using links_unique tree_okD(1,4) unfolding vs_tree_def by (metis option.inject)

definition ltree :: "vsys \<Rightarrow> vtree \<Rightarrow> bool" where
  "ltree S t \<longleftrightarrow> vs_tree S t \<and> labels (te_mem (vs_te S)) [] t"

lemma ltreeD: "ltree S t \<Longrightarrow> tree_ok (vs_te S) t (nprocs (vs_procs S))" "ltree S t \<Longrightarrow> labels (te_mem (vs_te S)) [] t"
  by (simp_all add: ltree_def vs_tree_def)

lemma lstep_keeps:
  assumes step: "lstep S S'" and t: "ltree S t"
  shows "\<exists>t'. ltree S' t' \<and> kept (vs_te S) t (vs_te S') t'"
proof -
  have "vstep S S'" "\<forall>p t. vs_procs S p = Some t \<and> vs_procs S' p = None \<longrightarrow> flat_end (vs_te S) t"
    using step by (simp_all add: lstep_def)
  then show ?thesis using t
  proof (induction rule: vstep.induct)
    case (vboot s u s1 u' s2 p)
    then show ?case using tree_okD(1) [OF ltreeD(1) [OF vboot(5)]] by simp
  next
    case (vclone ps p u q s u' s')
    then show ?case using clone_ok [of s ps t p u q] by (auto simp: ltree_def)
  next
    case (vexit ps p u s s')
    have "flat_end s u" using vexit(1) vexit(3) [rule_format, of p u] by simp
    then show ?case using exit_ok [of s ps t p u] vexit by (auto simp: ltree_def)
  next
    case (vnewfork ps p u a s n u' s')
    then show ?case using newfork_ok [of s ps t p u a n] by (auto simp: ltree_def)
  next
    case (vcall ps p u s)
    have "nprocs (ps(p \<mapsto> u\<lparr>tst_epoch := get_epoch s\<rparr>)) = nprocs ps" by (rule nprocs_same) (simp add: vcall)
    then have "ltree \<lparr>vs_te = s, vs_procs = ps(p \<mapsto> u\<lparr>tst_epoch := get_epoch s\<rparr>)\<rparr> t"
      using vcall(1,3) by (auto simp: ltree_def vs_tree_def)
    then show ?case by (auto simp: kept_def)
  next
    case (vmount ps p u s st s')
    have "s' = s\<lparr>epoch_now := epoch_now s + 1\<rparr>" using vmount by (auto simp: tst_timestamp_def new_epoch_def)
    then have "ltree \<lparr>vs_te = s', vs_procs = ps\<rparr> t \<and> kept s t s' t"
      using vmount(4) by (auto simp: ltree_def vs_tree_def tree_ok_def kept_def)
    then show ?case by auto
  qed
qed

lemma lsteps_keep:
  assumes "lstep\<^sup>*\<^sup>* S S'" "ltree S t"
  shows "\<exists>t'. ltree S' t' \<and> kept (vs_te S) t (vs_te S') t'"
  using assms
proof (induction rule: rtranclp_induct)
  case base
  then show ?case by (auto simp: kept_def)
next
  case (step T S')
  then show ?case using lstep_keeps kept_trans by blast
qed

lemma lreach_ltree:
  assumes "lreach S"
  shows "S = vsys_init \<or> (\<exists>t. ltree S t)"
  using assms
proof (induction rule: lreach.induct)
  case (lreach_step S S')
  then consider "S = vsys_init" | t where "ltree S t" by blast
  then show ?case
  proof cases
    case 1
    have "vstep vsys_init S'" using lreach_step.hyps 1 by (simp add: lstep_def)
    then obtain s1 s2 t t' p where b: "tst_newfork te_init None = Some (t, s1)" "tst_newproc s1 t = Some (t', s2)"
        "S' = \<lparr>vs_te = s2, vs_procs = [p \<mapsto> t']\<rparr>"
      by (cases rule: vstep.cases) (auto simp: vsys_init_def)
    obtain a where a: "tst_te t' = Some a" "tree_ok s2 (VLeaf a) (\<lambda>b. if b = a then 1 else 0)" "labels (te_mem s2) [] (VLeaf a)"
      using boot_ok b(1,2) by auto
    moreover have "nprocs [p \<mapsto> t'] = (\<lambda>b. if b = a then 1 else 0)"
      using nprocs_clone [of Map.empty p t' a] a(1) by (auto simp: nprocs_def fun_upd_def)
    ultimately have "ltree S' (VLeaf a)" unfolding b(3) ltree_def vs_tree_def by (auto split: if_splits)
    then show ?thesis by blast
  next
    case 2
    then show ?thesis using lstep_keeps lreach_step.hyps by blast
  qed
qed simp

lemma lreach_tree: "lreach S \<Longrightarrow> vs_tree S t \<Longrightarrow> ltree S t"
proof -
  assume r: "lreach S" "vs_tree S t"
  have "te_root (vs_te S) \<noteq> None" using r(2) tree_okD(1) unfolding vs_tree_def by fastforce
  then have "S \<noteq> vsys_init" by (auto simp: vsys_init_def te_init_def)
  then show ?thesis using lreach_ltree [OF r(1)] vs_tree_unique [OF r(2)] by (auto simp: ltree_def)
qed

section \<open>The branches of a node\<close>

lemma vbelow_plug:
  assumes "distinct (vaddrs (plug c u))" "a \<in> set (vaddrs u)"
  shows "vbelow (plug c u) a = vbelow u a"
  using assms
proof (induction c u rule: plug.induct)
  case (2 b sd sib c u)
  have "distinct (vaddrs (if sd then VNode b sib u else VNode b u sib))"
    using "2.prems"(1) by (simp add: distinct_vaddrs_plug)
  then have *: "a \<noteq> b" "a \<notin> set (vaddrs sib)" using "2.prems"(2) by (auto split: if_splits)
  then show ?case using "2.IH" "2.prems" vbelow_Nil by (cases sd) auto
qed simp

text \<open>A way up that ends in a node of age \<open>E\<close> stops there at the latest for a service of that age.\<close>

lemma climb_append: "climb m e (as @ bs) = (case climb m e as of Some y \<Rightarrow> Some y | None \<Rightarrow>
    if \<forall>a \<in> set as. ris m a \<noteq> None then climb m e bs else None)"
  by (induction as) (auto split: option.splits)

lemma rises_age: "rises m lo u \<Longrightarrow> b \<in> set (vaddrs u) \<Longrightarrow> \<exists>r. ris m b = Some r \<and> lo \<le> r"
proof (induction u arbitrary: lo)
  case (VNode a l r)
  then obtain e where e: "ris m a = Some e" "lo \<le> e" "rises m e l" "rises m e r" by auto
  consider "b = a" | "b \<in> set (vaddrs l)" | "b \<in> set (vaddrs r)" using VNode.prems(2) by auto
  then show ?case
  proof cases
    case 2
    then show ?thesis using VNode.IH(1) [OF e(3)] e(2) by force
  next
    case 3
    then show ?thesis using VNode.IH(2) [OF e(4)] e(2) by force
  qed (use e in simp)
qed simp

lemma climb_skip: "\<forall>a \<in> set as. \<exists>r. ris m a = Some r \<and> e < r \<Longrightarrow> climb m e (as @ bs) = climb m e bs"
  by (induction as) auto

lemma vanc_in: "set (vanc u x) \<subseteq> set (vaddrs u)"
proof (induction u)
  case (VNode b l r)
  then show ?case by (simp add: Let_def) blast
next
  case (VLeaf b)
  then show ?case by (cases "x = b") simp_all
qed

lemma climb_branch:
  assumes "rises m lo u" "x \<in> set (vaddrs u)" "distinct (vaddrs u)" "ris m (vroot u) = Some E"
  shows "E \<le> e \<Longrightarrow> \<exists>y \<in> set (vaddrs u). climb m e (vanc u x @ bs) = Some y"
    and "e < E \<Longrightarrow> climb m e (vanc u x @ bs) = climb m e bs"
proof -
  have "rises m E u" using assms(1,4) by (cases u) auto
  then have old: "\<exists>r. ris m b = Some r \<and> E \<le> r" if "b \<in> set (vaddrs u)" for b using rises_age that by blast
  note up = vanc_in [of u x]
  have "last (vanc u x) = vroot u" "vanc u x \<noteq> []" using assms(2) vanc_Nil [of u x] by (cases u, auto simp: Let_def)+
  then obtain zs where zs: "vanc u x = zs @ [vroot u]" by (metis append_butlast_last_id)
  show "\<exists>y \<in> set (vaddrs u). climb m e (vanc u x @ bs) = Some y" if "E \<le> e"
  proof -
    have "\<exists>y \<in> set (vanc u x). climb m e (vanc u x @ bs) = Some y"
    proof -
      have "\<forall>a \<in> set zs. ris m a \<noteq> None" using old up zs by fastforce
      then have "climb m e (zs @ vroot u # bs) \<noteq> None \<and> climb m e (zs @ [vroot u]) = climb m e (zs @ vroot u # bs)"
        using assms(4) that by (auto simp: climb_append split: option.splits)
      then show ?thesis using climb_in [of m e "zs @ [vroot u]"] zs by fastforce
    qed
    then show ?thesis using up by blast
  qed
  show "climb m e (vanc u x @ bs) = climb m e bs" if "e < E"
  proof -
    have "\<forall>a \<in> set (vanc u x). \<exists>r. ris m a = Some r \<and> e < r" using old up that by fastforce
    then show ?thesis by (rule climb_skip)
  qed
qed

end
