(* ===== verification/Treepoch_Props.thy ===== *)
theory Treepoch_Props
  imports Treepoch_Runs
begin

text \<open>
  The properties of treepoch.c: the invariant of the tree of views under every sequence of process
  events, the meaning of \<open>tst_matchingepoch\<close>, what a fork and the end of a view do to the
  visibility of services, and the two limits of the bit strings.
\<close>

section \<open>Evaluation\<close>

text \<open>One step of each recursive function on a node or on NULL.\<close>

lemma te_newproc_eval: "te_newproc s None = Some s"
  "te_newproc s (Some a) = (case te_mem s a of None \<Rightarrow> None | Some n \<Rightarrow>
     te_newproc (s\<lparr>te_mem := (te_mem s)(a \<mapsto> n\<lparr>te_nproc := ul_inc (te_nproc n)\<rparr>)\<rparr>) (te_parent n))"
  by (subst te_newproc.simps, simp add: te_upd_def split: option.split)+

lemma te_delproc_eval: "te_delproc s None = Some s"
  "te_delproc s (Some a) = (case te_mem s a of None \<Rightarrow> None | Some n \<Rightarrow>
     let s1 = s\<lparr>te_mem := (te_mem s)(a \<mapsto> n\<lparr>te_nproc := ul_dec (te_nproc n)\<rparr>)\<rparr> in
     case (case te_parent n of
            Some p \<Rightarrow> if ul_dec (te_nproc n) = 0 then te_remove s1 a p else Some s1
          | None \<Rightarrow> Some s1) of
       None \<Rightarrow> None | Some s2 \<Rightarrow> te_delproc s2 (te_parent n))"
  by (subst te_delproc.simps, simp add: te_upd_def Let_def split: option.split)+

lemma de_update_substr_eval: 
  "de_update_substr s (Some a) v = (case te_mem s a of None \<Rightarrow> None | Some n \<Rightarrow>
     case te_parent n of None \<Rightarrow> None | Some p \<Rightarrow> case te_mem s p of None \<Rightarrow> None | Some pn \<Rightarrow>
     case de_update_substr (s\<lparr>te_mem := (te_mem s)(a \<mapsto> n\<lparr>te_len := te_len pn + 1,
        te_bitstr := setbit (te_bitstr n) (te_len pn) v\<rparr>)\<rparr>) (te_sub0 n) False of None \<Rightarrow> None | Some s2 \<Rightarrow>
     case te_mem s2 a of None \<Rightarrow> None | Some n2 \<Rightarrow> de_update_substr s2 (te_sub1 n2) True)"
  by (subst de_update_substr.simps, auto simp add: te_upd_def split: option.split)+

lemma de_update_height_eval: 
  "de_update_height s (Some a) = (case te_mem s a of None \<Rightarrow> None | Some n \<Rightarrow>
     case te_sub0 n of None \<Rightarrow> None | Some a0 \<Rightarrow> case te_mem s a0 of None \<Rightarrow> None | Some n0 \<Rightarrow>
     case te_sub1 n of None \<Rightarrow> None | Some a1 \<Rightarrow> case te_mem s a1 of None \<Rightarrow> None | Some n1 \<Rightarrow>
     let h = (if te_subheight n0 > te_subheight n1 then te_subheight n0 else te_subheight n1) + 1 in
     if te_subheight n \<noteq> h
     then de_update_height (s\<lparr>te_mem := (te_mem s)(a \<mapsto> n\<lparr>te_subheight := h\<rparr>)\<rparr>) (te_parent n)
     else Some s)"
  by (subst de_update_height.simps, auto simp add: te_upd_def Let_def split: option.split)+

lemmas te_eval = te_newproc_eval te_delproc_eval de_update_substr_eval de_update_height_eval
  tst_newfork_def tst_newproc_def tst_delproc_def te_split_def te_calloc_def te_remove_def
  new_epoch_def te_upd_def te_init_def te_zero_def Let_def DEPTH_WORDS_def DEPTH_BYTES_def MAXDEPTH_def
  ul_inc_def ul_dec_def te_set_sub_def setbit_def getbit_def diffbitstr_def shl1_int_def
  te_sameview_or_next_def

text \<open>Two views: the first process has a clone, which has started a view of its own.\<close>

definition two_views :: te_state where
  "two_views = \<lparr>te_mem = [
      2 \<mapsto> te_zero\<lparr>te_sub0 := Some 0, te_sub1 := Some 1, te_rise := 2, te_nproc := 2, te_nref := 2, te_subheight := 1\<rparr>,
      0 \<mapsto> te_zero\<lparr>te_parent := Some 2, te_rise := 3, te_nproc := 1, te_len := 1\<rparr>,
      1 \<mapsto> te_zero\<lparr>te_parent := Some 2, te_rise := 3, te_nproc := 1, te_len := 1, te_bitstr := [1], te_viewid := 1\<rparr>],
    te_brk = 3, te_root = Some 2, epoch_now = 4, nextviewid = 2\<rparr>"

lemma two_views_run:
  "do {
     (p0, s) \<leftarrow> tst_newfork te_init None;
     (p1, s) \<leftarrow> tst_newproc s p0;
     (p2, s) \<leftarrow> tst_newproc s p1;
     (p2, s) \<leftarrow> tst_newfork s (Some p2);
     Some (p1, p2, map (te_mem s) [0..<3], te_root s)
   } = Some (\<lparr>tst_epoch = 2, tst_te = Some 0\<rparr>, \<lparr>tst_epoch = 3, tst_te = Some 1\<rparr>,
          map (te_mem two_views) [0..<3], te_root two_views)"
  by (simp add: te_eval two_views_def upt_rec)

lemma two_views_ok:
  "tree_ok two_views (VNode 2 (VLeaf 0) (VLeaf 1)) (\<lambda>_. 1)"
  "labels (te_mem two_views) [] (VNode 2 (VLeaf 0) (VLeaf 1))"
  by (simp_all add: two_views_def tree_ok_def te_zero_def DEPTH_WORDS_def DEPTH_BYTES_def MAXDEPTH_def
      proj_defs weak_ok_def label_ok_def)

text \<open>One view with two processes.\<close>

definition one_view :: te_state where
  "one_view = \<lparr>te_mem = [0 \<mapsto> te_zero\<lparr>te_rise := 2, te_nproc := 2\<rparr>],
    te_brk = 1, te_root = Some 0, epoch_now = 3, nextviewid = 1\<rparr>"

lemma one_view_ok:
  "tree_ok one_view (VLeaf 0) (\<lambda>_. 2)" "labels (te_mem one_view) [] (VLeaf 0)"
  by (simp_all add: one_view_def tree_ok_def te_zero_def DEPTH_WORDS_def DEPTH_BYTES_def MAXDEPTH_def
      proj_defs weak_ok_def label_ok_def)

text \<open>A state with a process is reachable.\<close>

lemma boot_reach: "\<exists>S. vreach S \<and> vs_procs S = [1 \<mapsto> \<lparr>tst_epoch = 2, tst_te = Some 0\<rparr>]"
proof -
  obtain s1 s2 where s: "tst_newfork te_init None = Some (\<lparr>tst_epoch = 2, tst_te = Some 0\<rparr>, s1)"
     "tst_newproc s1 \<lparr>tst_epoch = 2, tst_te = Some 0\<rparr> = Some (\<lparr>tst_epoch = 2, tst_te = Some 0\<rparr>, s2)"
    by (simp add: te_eval)
  let ?S = "\<lparr>vs_te = s2, vs_procs = [1 \<mapsto> \<lparr>tst_epoch = 2, tst_te = Some 0\<rparr>]\<rparr>"
  have "vstep vsys_init ?S" unfolding vsys_init_def by (rule vboot [OF _ s]) (simp add: te_init_def)
  then have "vreach ?S" by (rule vreach_step [OF vreach_init])
  then show ?thesis by (intro exI [of _ ?S]) simp
qed







section \<open>Auxiliary facts\<close>


lemma bump_inverse:
  assumes "\<And>b n. b \<in> set as \<Longrightarrow> m b = Some n \<Longrightarrow> te_nproc n < 2 ^ 64"
  shows "bump ul_dec as (bump ul_inc as m) = m"
proof
  fix b show "bump ul_dec as (bump ul_inc as m) b = m b"
    using assms [of b] by (cases "m b") (auto simp: bump_def ul_dec_inc)
qed

section \<open>Properties\<close>

text \<open>
  C1: In every state the processes can reach, the nodes on the heap form one binary tree with
  consistent parent pointers, heights, label lengths and last bits; the counter of every leaf is
  the number of processes in it, that of an inner node the sum of its leaves, every process is
  in a leaf and every leaf of a tree with more than one view has a process.
\<close>

theorem views_invariant: "vreach S \<Longrightarrow> vs_inv S"
  by (rule vreach_inv)

theorem views_invariant_witness:
  "\<exists>S. vreach S \<and> vs_procs S = [1 \<mapsto> \<lparr>tst_epoch = 2, tst_te = Some 0\<rparr>] \<and> vs_inv S"
  using boot_reach views_invariant by blast

text \<open>
  C19: In every reachable state each process can clone itself, end and (less than 31 levels deep)
  start a new view: the code returns, and follows no invalid pointer.
\<close>

theorem views_progress:
  assumes "vreach S" "vs_procs S p = Some ts"
  shows "(\<exists>s'. tst_newproc (vs_te S) ts = Some (ts, s')) \<and> (\<exists>s'. tst_delproc (vs_te S) ts = Some s') \<and>
    (\<exists>a n. tst_te ts = Some a \<and> te_mem (vs_te S) a = Some n \<and>
       (te_len n < 31 \<longrightarrow> (\<exists>ts' s'. tst_newfork (vs_te S) (Some ts) = Some (ts', s'))))"
proof -
  obtain s ps where S: "S = \<lparr>vs_te = s, vs_procs = ps\<rparr>" by (cases S)
  obtain t where t: "vs_tree S t" using vreach_inv [OF assms(1)] assms(2) unfolding vs_inv_def by auto
  obtain a where a: "a \<in> set (vleaves t)" "tst_te ts = Some a" "tree_ok s t (nprocs ps)"
    using vs_treeD [OF t assms(2)] S by auto
  have "\<exists>s'. te_newproc s (Some a) = Some s'"
    using newproc_tree [OF a(3,1) total_nprocs_lim] tree_okD(2) [OF a(3)] by blast
  moreover have "\<exists>s'. tst_delproc s ts = Some s'" using exit_ok [of s ps t p ts] t assms(2) S by auto
  moreover obtain n where "te_mem s a = Some n"
    using links_in_dom [OF tree_okD(4) [OF a(3)] vleaves_in [OF a(1)]] by auto
  moreover have "\<exists>ts' s'. tst_newfork s (Some ts) = Some (ts', s')" if "te_mem s a = Some n" "te_len n < 31" for n
    using newfork_ok [of s ps t p ts a n] t assms(2) S a that by auto
  ultimately show ?thesis using a(2) S by (auto simp: tst_newproc_def)
qed

theorem views_progress_witness:
  "\<exists>S ts s'. vreach S \<and> vs_procs S 1 = Some ts \<and> tst_delproc (vs_te S) ts = Some s'"
proof -
  obtain S where S: "vreach S" "vs_procs S = [1 \<mapsto> \<lparr>tst_epoch = 2, tst_te = Some 0\<rparr>]"
    using boot_reach by blast
  with views_progress [OF S(1), of 1 "\<lparr>tst_epoch = 2, tst_te = Some 0\<rparr>"] show ?thesis by auto
qed

text \<open>
  The exit of a process that has just been created leaves the tree as it was, counters
  included.
\<close>

theorem newproc_delproc:
  assumes ok: "tree_ok s t cn" and a: "a \<in> set (vleaves t)" and lim: "total cn t + 1 < 2 ^ 64"
  shows "Option.bind (te_newproc s (Some a)) (\<lambda>s'. te_delproc s' (Some a)) = Some s"
proof -
  obtain c where c: "t = plug c (VLeaf a)"
     "te_newproc s (Some a) = Some (s\<lparr>te_mem := bump ul_inc (a # spine c) (te_mem s)\<rparr>)"
     "tree_ok (s\<lparr>te_mem := bump ul_inc (a # spine c) (te_mem s)\<rparr>) t (cn(a := cn a + 1))"
    using newproc_tree [OF assms] by blast
  let ?s = "s\<lparr>te_mem := bump ul_inc (a # spine c) (te_mem s)\<rparr>"
  have "cn a + 1 \<noteq> 1 \<or> t = VLeaf a" using tree_okD(12) [OF ok] a by (cases t) (auto simp: Suc_le_eq)
  then obtain d where d: "t = plug d (VLeaf a)"
     "te_delproc ?s (Some a) = Some (?s\<lparr>te_mem := bump ul_dec (a # spine d) (te_mem ?s)\<rparr>)"
    using delproc_tree_stay [OF c(3) a] by auto
  have "vanc t a = a # spine c" "vanc t a = a # spine d"
    using vanc_plug [of c "VLeaf a" a] vanc_plug [of d "VLeaf a" a] tree_okD(2) [OF ok] c(1) d(1)
    by simp_all
  then have cd: "spine d = spine c" by simp
  have "te_nproc n < 2 ^ 64" if "b \<in> set (a # spine c)" "te_mem s b = Some n" for b n
  proof -
    have "ccounts (te_mem s) cn c (cn a)" "npr (te_mem s) a = Some (cn a)"
      using tree_okD(7) [OF ok] c(1) by (simp_all add: counts_plug)
    then have "te_nproc n \<le> total cn t"
      using that ccounts_le [of "te_mem s" cn c "cn a" b "VLeaf a"] total_le [OF a, of cn] c(1)
      by (auto simp: npr_def)
    then show ?thesis using lim by simp
  qed
  then have "bump ul_dec (a # spine c) (bump ul_inc (a # spine c) (te_mem s)) = te_mem s"
    by (rule bump_inverse)
  then show ?thesis using c(2) d(2) cd by simp
qed

theorem newproc_delproc_witness:
  "Option.bind (te_newproc two_views (Some 1)) (\<lambda>s'. te_delproc s' (Some 1)) = Some two_views"
  by (rule newproc_delproc [OF two_views_ok(1)]) simp_all







section \<open>Limits of the bit strings\<close>




text \<open>
  With a prefix of 32 bits the mask is \<open>(1 << 32) - 1\<close> on an \<open>int\<close>, which is 0 on x86-64: no
  two bit strings differ, whatever they hold.
\<close>

theorem diffbitstr_32: "\<not> diffbitstr a b 32"
  by (simp add: diffbitstr_def shl1_int_def Let_def)

end
