(* ===== verification/Hashtab_Search.thy ===== *)
theory Hashtab_Search
  imports Hashtab_Inv Treepoch_Props
begin

text \<open>
  What a search of the table returns: the newest element that covers the key, is visible to the
  calling process and is not refused by its confirmation function.
\<close>

section \<open>Carrots\<close>

text \<open>
  \<open>carrot_ok\<close>: the carrot \<open>car\<close> stands for the set \<open>C\<close> of layers: sorted from the newest, with all
  the layers down to the newest one that has no exceptions.
\<close>

definition carrot_ok :: "(addr \<Rightarrow> bool) \<Rightarrow> (addr \<Rightarrow> epoch_t) \<Rightarrow> addr set \<Rightarrow> carrot \<Rightarrow> bool" where
  "carrot_ok exc ep C car \<longleftrightarrow> (\<forall>(a, t) \<in> set car. a \<in> C \<and> t = ep a) \<and>
     sorted_wrt (\<lambda>x y. snd y \<le> snd x) car \<and> (\<forall>(a, t) \<in> set (butlast car). exc a) \<and>
     (\<forall>b \<in> C. b \<notin> fst ` set car \<longrightarrow> (\<exists>(a, t) \<in> set car. \<not> exc a \<and> ep b \<le> t))"

lemma carrot_ok_empty: "carrot_ok exc ep {} []"
  by (simp add: carrot_ok_def)

lemma carrot_insert_set:
  "set (carrot_insert exc car a t) \<subseteq> insert (a, t) (set car)"
  by (induction exc car a t rule: carrot_insert.induct) auto

lemma carrot_insert_sorted:
  "sorted_wrt (\<lambda>x y. snd y \<le> snd x) car \<Longrightarrow> sorted_wrt (\<lambda>x y. snd y \<le> snd x) (carrot_insert exc car a t)"
proof (induction exc car a t rule: carrot_insert.induct)
  case (2 exc h u car a t)
  show ?case
  proof (cases "u < t")
    case True
    then show ?thesis using "2.prems" by fastforce
  next
    case False
    then show ?thesis using "2.prems" "2.IH" carrot_insert_set [of exc car a t] by fastforce
  qed
qed simp

lemma carrot_insert_exc:
  "\<forall>(b, u) \<in> set (butlast car). exc b \<Longrightarrow> \<forall>(b, u) \<in> set (butlast (carrot_insert exc car a t)). exc b"
proof (induction exc car a t rule: carrot_insert.induct)
  case (2 exc h u car a t)
  have "carrot_insert exc car a t \<noteq> []" by (cases car) (auto split: if_splits)
  with 2 show ?case by (auto split: if_splits)
qed simp

text \<open>What is left out is not newer than a layer without exceptions that is in.\<close>

lemma carrot_insert_cover:
  assumes "\<forall>(b, u) \<in> set (butlast car). exc b" "sorted_wrt (\<lambda>x y. snd y \<le> snd x) car"
    and "(b, u) \<in> insert (a, t) (set car)" "b \<notin> fst ` set (carrot_insert exc car a t)"
  shows "\<exists>(c, v) \<in> set (carrot_insert exc car a t). \<not> exc c \<and> u \<le> v"
  using assms
proof (induction exc car a t rule: carrot_insert.induct)
  case (2 exc h w car a t)
  consider "w < t" "exc a" | "w < t" "\<not> exc a" | "\<not> w < t" "exc h" | "\<not> w < t" "\<not> exc h" by blast
  then show ?case
  proof cases
    case 1
    then show ?thesis using "2.prems" by force
  next
    case 2
    then show ?thesis using "2.prems" by fastforce
  next
    case 3
    have "\<forall>(b, u) \<in> set (butlast car). exc b" "sorted_wrt (\<lambda>x y. snd y \<le> snd x) car"
      using "2.prems"(1,2) by (auto split: if_splits)
    then show ?thesis using "2.IH" 3 "2.prems"(3,4) by auto
  next
    case 4
    then have "car = []" using "2.prems"(1) by (auto split: if_splits)
    then show ?thesis using 4 "2.prems"(3,4) by auto
  qed
qed simp

lemma carrot_insert_ok:
  assumes "carrot_ok exc ep C car"
  shows "carrot_ok exc ep (insert a C) (carrot_insert exc car a (ep a))"
proof -
  let ?n = "carrot_insert exc car a (ep a)"
  note D = assms [unfolded carrot_ok_def]
  have in_: "\<forall>(b, t) \<in> set ?n. b \<in> insert a C \<and> t = ep b"
    using D carrot_insert_set [of exc car a "ep a"] by fastforce
  have so: "sorted_wrt (\<lambda>x y. snd y \<le> snd x) ?n" using D carrot_insert_sorted by blast
  have ex: "\<forall>(b, u) \<in> set (butlast ?n). exc b" using D carrot_insert_exc by blast
  have "\<exists>(c, t) \<in> set ?n. \<not> exc c \<and> ep b \<le> t" if b: "b \<in> insert a C" "b \<notin> fst ` set ?n" for b
  proof (cases "(b, ep b) \<in> insert (a, ep a) (set car)")
    case True
    then show ?thesis using carrot_insert_cover [of car exc b "ep b" a "ep a"] D b(2) by blast
  next
    case False
    then have "b \<in> C" using b(1) by auto
    moreover have "b \<notin> fst ` set car" using False D by fastforce
    ultimately obtain c v where c: "(c, v) \<in> set car" "\<not> exc c" "ep b \<le> v" using D by fastforce
    show ?thesis
    proof (cases "c \<in> fst ` set ?n")
      case True
      then have "(c, v) \<in> set ?n" using in_ c(1) D by fastforce
      then show ?thesis using c by blast
    next
      case False
      then obtain c' v' where "(c', v') \<in> set ?n" "\<not> exc c'" "v \<le> v'"
        using carrot_insert_cover [of car exc c v a "ep a"] D c(1) by fastforce
      then show ?thesis using c(3) by (intro bexI [of _ "(c', v')"]) auto
    qed
  qed
  then show ?thesis using in_ so ex unfolding carrot_ok_def by blast
qed

text \<open>The element a carrot yields: the first its confirmation function does not refuse.\<close>

definition accepts :: "confirms \<Rightarrow> ht_tab \<Rightarrow> um_ctx \<Rightarrow> nat \<Rightarrow> string \<Rightarrow> nat \<Rightarrow> addr \<Rightarrow> bool" where
  "accepts cf s cx type key len a \<longleftrightarrow> (case ht_mem s a of None \<Rightarrow> False
     | Some e \<Rightarrow> (case ht_confirmfun e of NO_CONFIRM \<Rightarrow> True | NEGATIVE_MOUNT \<Rightarrow> False
         | CONFIRM f \<Rightarrow> cf f (snd (um_setnestepoch cx (tst_epoch (ht_tst e)))\<lparr>cx_hte := Some a\<rparr>) type key len a \<noteq> 0))"

lemma carrot_confirm_find:
  assumes "\<forall>(a, t) \<in> set car. \<exists>e. ht_mem s a = Some e \<and> ht_confirmfun e \<noteq> NEGATIVE_MOUNT" "0 < cx_nestepoch cx"
  shows "\<exists>cx'. carrot_confirm cf s cx type key len car =
     Some (map_option fst (find (\<lambda>(a, t). accepts cf s cx type key len a) car), cx')"
  using assms
proof (induction car)
  case (Cons x car)
  obtain a t where x: "x = (a, t)" by (cases x)
  obtain e where e: "ht_mem s a = Some e" "ht_confirmfun e \<noteq> NEGATIVE_MOUNT" using Cons.prems(1) x by auto
  show ?case
  proof (cases "ht_confirmfun e")
    case NO_CONFIRM
    then show ?thesis using e x by (simp add: accepts_def)
  next
    case NEGATIVE_MOUNT
    then show ?thesis using e by simp
  next
    case (CONFIRM f)
    obtain rv cx1 where rv: "call_confirmfun cf cx f type key len a e = (rv, cx1)" by fastforce
    have acc: "accepts cf s cx type key len a \<longleftrightarrow> rv \<noteq> 0"
      using rv e CONFIRM by (auto simp: accepts_def call_confirmfun_def um_setnestepoch_def Let_def split: if_splits)
    have "cx1 = cx" if "rv = 0"
      using rv that Cons.prems(2)
      by (auto simp: call_confirmfun_def um_setnestepoch_def Let_def split: if_splits)
    then show ?thesis using Cons.IH Cons.prems x e CONFIRM rv acc by auto
  qed
qed simp

lemma carrot_okD:
  assumes "carrot_ok exc ep C car"
  shows "(a, t) \<in> set car \<Longrightarrow> a \<in> C \<and> t = ep a" "sorted_wrt (\<lambda>x y. snd y \<le> snd x) car"
    "(a, t) \<in> set (butlast car) \<Longrightarrow> exc a"
    "b \<in> C \<Longrightarrow> b \<notin> fst ` set car \<Longrightarrow> \<exists>a t. (a, t) \<in> set car \<and> \<not> exc a \<and> ep b \<le> t"
  using assms unfolding carrot_ok_def by (auto, blast)

lemma in_set_butlast_or_last: "x \<in> set xs \<Longrightarrow> x \<notin> set (butlast xs) \<Longrightarrow> x = last xs"
  by (cases xs rule: rev_cases) auto

lemma carrot_newest:
  assumes ok: "carrot_ok exc ep C car" and acc: "\<And>a. a \<in> C \<Longrightarrow> \<not> exc a \<Longrightarrow> acc a"
    and f: "r = map_option fst (find (\<lambda>(a, t). acc a) car)"
  shows "case r of None \<Rightarrow> \<forall>b \<in> C. \<not> acc b | Some a \<Rightarrow> a \<in> C \<and> acc a \<and> (\<forall>b \<in> C. acc b \<longrightarrow> ep b \<le> ep a)"
proof -
  note D = carrot_okD [OF ok]
  show ?thesis
  proof (cases "find (\<lambda>(a, t). acc a) car")
    case None
    then have no: "\<not> acc a" if "(a, t) \<in> set car" for a t using that unfolding find_None_iff by auto
    have "\<not> acc b" if bC: "b \<in> C" for b
    proof (cases "b \<in> fst ` set car")
      case True
      then show ?thesis using no by auto
    next
      case False
      then obtain a t where "(a, t) \<in> set car" "\<not> exc a" using D(4) [OF bC] by blast
      then show ?thesis using no acc D(1) by blast
    qed
    then show ?thesis using f None by simp
  next
    case (Some x)
    then obtain i a t where x: "x = (a, t)" "i < length car" "car ! i = (a, t)" "acc a"
       "\<And>j. j < i \<Longrightarrow> \<not> acc (fst (car ! j))"
      unfolding find_Some_iff by (cases x) (fastforce simp: split_beta)
    have ain: "(a, t) \<in> set car" using x nth_mem by metis
    then have at: "a \<in> C" "t = ep a" using D(1) by auto
    have "ep b \<le> ep a" if b: "b \<in> C" "acc b" for b
    proof (cases "b \<in> fst ` set car")
      case True
      then obtain u where "(b, u) \<in> set car" by auto
      then obtain j where j: "j < length car" "car ! j = (b, u)" "u = ep b"
        using D(1) by (metis in_set_conv_nth)
      then have "i \<le> j" using x(5) [of j] b(2) by (metis fst_conv not_less)
      then have "snd (car ! j) \<le> snd (car ! i)"
        using D(2) j(1) sorted_wrt_nth_less [of _ car i j] by (cases "i = j") auto
      then show ?thesis using x j at by simp
    next
      case False
      then obtain c v where c: "(c, v) \<in> set car" "\<not> exc c" "ep b \<le> v" using D(4) [OF b(1)] by blast
      have "car \<noteq> []" using ain by auto
      moreover have "(c, v) \<notin> set (butlast car)" using D(3) c(2) by blast
      ultimately have "(c, v) = last car" using c(1) in_set_butlast_or_last by metis
      then have "car ! (length car - 1) = (c, v)" using \<open>car \<noteq> []\<close> by (simp add: last_conv_nth)
      then have "v \<le> t"
        using sorted_wrt_nth_less [OF D(2), of i "length car - 1"] x by (cases "i = length car - 1") auto
      then show ?thesis using c(3) at by simp
    qed
    then show ?thesis using f Some x at by auto
  qed
qed

section \<open>The contract of \<open>tst_matchingepoch\<close>\<close>

text \<open>\<open>refreshes mt st st'\<close>: \<open>st'\<close> is \<open>st\<close>, or what a match has made of it.\<close>

definition refreshes :: "(timestamp \<Rightarrow> (epoch_t \<times> timestamp) option) \<Rightarrow> timestamp \<Rightarrow> timestamp \<Rightarrow> bool" where
  "refreshes mt st st' \<longleftrightarrow> st' = st \<or> (\<exists>e. mt st = Some (e, st'))"

locale epoch_matching =
  fixes matching :: "te_state \<Rightarrow> timestamp \<Rightarrow> timestamp \<Rightarrow> (epoch_t \<times> timestamp) option"
    and good :: "te_state \<Rightarrow> timestamp \<Rightarrow> timestamp \<Rightarrow> bool"
  assumes defined: "good s p st \<Longrightarrow> \<exists>e st'. matching s p st = Some (e, st')"
    and stable: "good s p st \<Longrightarrow> matching s p st = Some (e, st') \<Longrightarrow>
      good s p st' \<and> matching s p st' = Some (e, st') \<and> tst_epoch st' = tst_epoch st"
    and epoch: "matching s p st = Some (e, st') \<Longrightarrow> e = 0 \<or> e = tst_epoch st"
begin

lemma refreshes_good: "good s p st \<Longrightarrow> refreshes (matching s p) st st' \<Longrightarrow> good s p st'"
  unfolding refreshes_def using stable by blast

lemma refreshes_epoch: "good s p st \<Longrightarrow> refreshes (matching s p) st st' \<Longrightarrow> tst_epoch st' = tst_epoch st"
  unfolding refreshes_def using stable by blast

lemma refreshes_result:
  "good s p st \<Longrightarrow> refreshes (matching s p) st st' \<Longrightarrow>
     map_option fst (matching s p st') = map_option fst (matching s p st)"
  unfolding refreshes_def by (auto dest: stable)

lemma refreshes_trans:
  "good s p st \<Longrightarrow> refreshes (matching s p) st st' \<Longrightarrow> refreshes (matching s p) st' st'' \<Longrightarrow>
     refreshes (matching s p) st st''"
  unfolding refreshes_def by (auto dest: stable)

lemma positive_epoch: "matching s p st = Some (e, st') \<Longrightarrow> 0 < e \<Longrightarrow> e = tst_epoch st"
  using epoch [of s p st e st'] by simp

end

text \<open>The time stamps a match can resolve: those whose node leads to a node of the tree.\<close>

definition st_good :: "te_state \<Rightarrow> timestamp \<Rightarrow> timestamp \<Rightarrow> bool" where
  "st_good s pt st \<longleftrightarrow> (\<exists>t cn x x' y a. tree_ok s t cn \<and> tst_te st = Some x \<and> match_dead s x = Some x' \<and>
     x' \<in> set (vaddrs t) \<and> climb (te_mem s) (tst_epoch st) (vanc t x') = Some y \<and>
     tst_te pt = Some a \<and> a \<in> set (vaddrs t))"

lemma climb_rise: "climb m e as = Some y \<Longrightarrow> \<exists>r. ris m y = Some r \<and> r \<le> e"
  by (induction as) (auto split: option.splits if_splits)

lemma match_good:
  assumes "st_good s pt st"
  shows "\<exists>e st'. tst_matchingepoch s (Some pt) st = Some (e, st') \<and> st_good s pt st' \<and>
     tst_matchingepoch s (Some pt) st' = Some (e, st') \<and> tst_epoch st' = tst_epoch st"
proof -
  obtain t cn x x' y a where g: "tree_ok s t cn" "tst_te st = Some x" "match_dead s x = Some x'"
     "x' \<in> set (vaddrs t)" "climb (te_mem s) (tst_epoch st) (vanc t x') = Some y"
     "tst_te pt = Some a" "a \<in> set (vaddrs t)"
    using assms unfolding st_good_def by blast
  note di = tree_okD(2) [OF g(1)] and lk = tree_okD(4) [OF g(1)]
  have "match_rise s (tst_epoch st) x' = Some y"
    using vanc_pchain [OF lk di g(4)] match_rise_climb g(5) by metis
  moreover have y: "y \<in> set (vaddrs t)"
    using vanc_below [OF climb_in [OF g(5)] di] vbelow_Nil [of y t] by fastforce
  then have dy: "match_dead s y = Some y" by (rule match_dead_tree [OF g(1)])
  obtain bs where bs: "vanc t y = y # bs" "pchain (te_mem s) (y # bs)" using vanc_pchain [OF lk di y] by auto
  obtain r where "ris (te_mem s) y = Some r" "r \<le> tst_epoch st" using climb_rise [OF g(5)] by blast
  then have cy: "climb (te_mem s) (tst_epoch st) (vanc t y) = Some y" using bs by simp
  then have "match_rise s (tst_epoch st) y = Some y" using match_rise_climb [OF bs(2)] bs(1) by simp
  moreover obtain yn an where "te_mem s y = Some yn" "te_mem s a = Some an"
    using links_in_dom [OF lk] y g(7) by fastforce
  moreover have "st_good s pt (st\<lparr>tst_te := Some y\<rparr>)"
    unfolding st_good_def
    by (rule exI [of _ t], rule exI [of _ cn], rule exI [of _ y], rule exI [of _ y], rule exI [of _ y],
        rule exI [of _ a]) (use g dy y cy in simp)
  ultimately show ?thesis using g dy by (simp add: tst_matchingepoch_def)
qed

lemma match_epoch: "tst_matchingepoch s p st = Some (e, st') \<Longrightarrow> e = 0 \<or> e = tst_epoch st"
  by (auto simp: tst_matchingepoch_def Let_def split: bind_splits option.splits if_splits)

interpretation em: epoch_matching "\<lambda>s p st. tst_matchingepoch s (Some p) st" st_good
proof
  fix s p st e st'
  show "\<exists>e st'. tst_matchingepoch s (Some p) st = Some (e, st')" if "st_good s p st"
    using match_good [OF that] by blast
  show "st_good s p st' \<and> tst_matchingepoch s (Some p) st' = Some (e, st') \<and> tst_epoch st' = tst_epoch st"
    if "st_good s p st" "tst_matchingepoch s (Some p) st = Some (e, st')"
    using match_good [OF that(1)] that(2) by auto
  show "e = 0 \<or> e = tst_epoch st" if "tst_matchingepoch s (Some p) st = Some (e, st')"
    by (rule match_epoch [OF that])
qed

section \<open>Scanning a chain\<close>

text \<open>Searches change nothing of the table but the nodes in the time stamps.\<close>

definition refreshed :: "timestamp \<Rightarrow> te_state \<Rightarrow> ht_elem \<Rightarrow> ht_elem \<Rightarrow> bool" where
  "refreshed tst te e e' \<longleftrightarrow> e' = e\<lparr>ht_tst := ht_tst e'\<rparr> \<and>
     refreshes (tst_matchingepoch te (Some tst)) (ht_tst e) (ht_tst e')"

definition refr :: "timestamp \<Rightarrow> ht_tab \<Rightarrow> ht_tab \<Rightarrow> bool" where
  "refr tst s s' \<longleftrightarrow> s' = s\<lparr>ht_mem := ht_mem s'\<rparr> \<and>
     (\<forall>a. rel_option (refreshed tst (ht_te s)) (ht_mem s a) (ht_mem s' a))"

definition all_good :: "timestamp \<Rightarrow> ht_tab \<Rightarrow> bool" where
  "all_good tst s \<longleftrightarrow> (\<forall>a e. ht_mem s a = Some e \<longrightarrow> st_good (ht_te s) tst (ht_tst e))"

lemma refr_refl: "refr tst s s"
  unfolding refr_def by (auto simp: option.rel_refl refreshed_def refreshes_def)

lemma refr_fields:
  assumes "refr tst s s'"
  shows "ht_te s' = ht_te s" "ht_hash s' = ht_hash s" "ht_hash0 s' = ht_hash0 s" "ht_head s' = ht_head s"
    "ht_brk s' = ht_brk s" "ht_services s' = ht_services s" "ht_log s' = ht_log s"
proof -
  obtain m where "s' = s\<lparr>ht_mem := m\<rparr>" using assms unfolding refr_def by blast
  then show "ht_te s' = ht_te s" "ht_hash s' = ht_hash s" "ht_hash0 s' = ht_hash0 s" "ht_head s' = ht_head s"
    "ht_brk s' = ht_brk s" "ht_services s' = ht_services s" "ht_log s' = ht_log s"
    by simp_all
qed

lemma refrD:
  assumes "refr tst s s'"
  shows "ht_mem s a = Some e \<Longrightarrow> \<exists>e'. ht_mem s' a = Some e' \<and> refreshed tst (ht_te s) e e'"
    and "ht_mem s' a = Some e' \<Longrightarrow> \<exists>e. ht_mem s a = Some e \<and> refreshed tst (ht_te s) e e'"
proof -
  have "rel_option (refreshed tst (ht_te s)) (ht_mem s a) (ht_mem s' a)" using assms by (simp add: refr_def)
  then show "ht_mem s a = Some e \<Longrightarrow> \<exists>e'. ht_mem s' a = Some e' \<and> refreshed tst (ht_te s) e e'"
    "ht_mem s' a = Some e' \<Longrightarrow> \<exists>e. ht_mem s a = Some e \<and> refreshed tst (ht_te s) e e'"
    by (auto simp: rel_option_iff split: option.splits)
qed

lemma refreshed_fields:
  assumes "refreshed tst te e e'"
  shows "ht_obj e' = ht_obj e" "ht_type e' = ht_type e" "ht_objlen e' = ht_objlen e"
    "ht_hashsum e' = ht_hashsum e" "ht_invalid e' = ht_invalid e" "ht_confirmfun e' = ht_confirmfun e"
    "ht_trailingnumbers e' = ht_trailingnumbers e" "ht_nexthash e' = ht_nexthash e"
    "ht_pprevhash e' = ht_pprevhash e" "ht_prev e' = ht_prev e" "ht_next e' = ht_next e"
    "ht_private_data e' = ht_private_data e"
proof -
  obtain t where "e' = e\<lparr>ht_tst := t\<rparr>" using assms unfolding refreshed_def by blast
  then show "ht_obj e' = ht_obj e" "ht_type e' = ht_type e" "ht_objlen e' = ht_objlen e"
    "ht_hashsum e' = ht_hashsum e" "ht_invalid e' = ht_invalid e" "ht_confirmfun e' = ht_confirmfun e"
    "ht_trailingnumbers e' = ht_trailingnumbers e" "ht_nexthash e' = ht_nexthash e"
    "ht_pprevhash e' = ht_pprevhash e" "ht_prev e' = ht_prev e" "ht_next e' = ht_next e"
    "ht_private_data e' = ht_private_data e" by simp_all
qed

lemma refreshed_tst:
  assumes "refreshed tst te e e'" "st_good te tst (ht_tst e)"
  shows "st_good te tst (ht_tst e')" "tst_epoch (ht_tst e') = tst_epoch (ht_tst e)"
    "map_option fst (tst_matchingepoch te (Some tst) (ht_tst e')) =
     map_option fst (tst_matchingepoch te (Some tst) (ht_tst e))"
  using assms em.refreshes_good em.refreshes_epoch em.refreshes_result unfolding refreshed_def by blast+

lemma all_goodD: "all_good tst s \<Longrightarrow> ht_mem s a = Some e \<Longrightarrow> st_good (ht_te s) tst (ht_tst e)"
  by (simp add: all_good_def)

lemma refr_good:
  assumes "refr tst s s'" "all_good tst s"
  shows "all_good tst s'"
  unfolding all_good_def
proof (intro allI impI)
  fix a e' assume "ht_mem s' a = Some e'"
  then obtain e where "ht_mem s a = Some e" "refreshed tst (ht_te s) e e'" using refrD(2) [OF assms(1)] by blast
  then show "st_good (ht_te s') tst (ht_tst e')"
    using refreshed_tst(1) all_goodD [OF assms(2)] refr_fields(1) [OF assms(1)] by simp
qed

lemma refr_trans:
  assumes "refr tst s s'" "refr tst s' s''" "all_good tst s"
  shows "refr tst s s''"
proof -
  have te: "ht_te s' = ht_te s" using refr_fields [OF assms(1)] by simp
  have "s' = s\<lparr>ht_mem := ht_mem s'\<rparr>" "s'' = s'\<lparr>ht_mem := ht_mem s''\<rparr>"
    using assms(1,2) unfolding refr_def by blast+
  then obtain m m'' where "s' = s\<lparr>ht_mem := m\<rparr>" "s'' = s'\<lparr>ht_mem := m''\<rparr>" by blast
  then have eq: "s'' = s\<lparr>ht_mem := ht_mem s''\<rparr>" by simp
  have "rel_option (refreshed tst (ht_te s)) (ht_mem s a) (ht_mem s'' a)" for a
  proof (cases "ht_mem s a")
    case None
    then have "ht_mem s' a = None" using refrD(2) [OF assms(1), of a] by (cases "ht_mem s' a") auto
    then have "ht_mem s'' a = None" using refrD(2) [OF assms(2), of a] by (cases "ht_mem s'' a") auto
    then show ?thesis using None by simp
  next
    case (Some e)
    then obtain e' where e': "ht_mem s' a = Some e'" "refreshed tst (ht_te s) e e'"
      using refrD(1) [OF assms(1)] by blast
    then obtain e'' where e'': "ht_mem s'' a = Some e''" "refreshed tst (ht_te s) e' e''"
      using refrD(1) [OF assms(2), of a e'] te by auto
    have "refreshes (tst_matchingepoch (ht_te s) (Some tst)) (ht_tst e) (ht_tst e'')"
      using em.refreshes_trans [OF all_goodD [OF assms(3) Some]] e' e'' unfolding refreshed_def by blast
    moreover obtain t t'' where "e' = e\<lparr>ht_tst := t\<rparr>" "e'' = e'\<lparr>ht_tst := t''\<rparr>"
      using e' e'' unfolding refreshed_def by blast
    ultimately show ?thesis using Some e'' by (simp add: refreshed_def)
  qed
  then show ?thesis using eq unfolding refr_def by blast
qed

section \<open>The elements that cover a key\<close>

text \<open>The condition of \<open>ht_tab_internal_search\<close> on an element, at the position \<open>len\<close> of the key.\<close>

definition seen :: "te_state \<Rightarrow> timestamp \<Rightarrow> timestamp \<Rightarrow> bool" where
  "seen te tst st \<longleftrightarrow> (case tst_matchingepoch te (Some tst) st of None \<Rightarrow> False | Some (m, _) \<Rightarrow> 0 < m)"

definition covers :: "ht_tab \<Rightarrow> timestamp \<Rightarrow> nat \<Rightarrow> string \<Rightarrow> nat \<Rightarrow> addr \<Rightarrow> bool" where
  "covers s tst type obj len a \<longleftrightarrow> (\<exists>e. ht_mem s a = Some e \<and> ht_type e = type \<and>
     ht_hashsum e = hashsum type obj len \<and> len \<le> ht_objlen e \<and> (len = 0 \<longleftrightarrow> ht_objlen e = 0) \<and>
     take len (ht_obj e) = take len obj \<and> (ht_trailingnumbers e \<or> trailnum (drop len obj) = Some 0) \<and>
     tst_epoch (ht_tst e) < tst_epoch tst \<and> \<not> ht_invalid e \<and>
     seen (ht_te s) tst (ht_tst e))"

definition elem_epoch :: "ht_tab \<Rightarrow> addr \<Rightarrow> epoch_t" where
  "elem_epoch s a = (case ht_mem s a of None \<Rightarrow> 0 | Some e \<Rightarrow> tst_epoch (ht_tst e))"

lemma seen_refreshed:
  "refreshed tst te e e' \<Longrightarrow> st_good te tst (ht_tst e) \<Longrightarrow> seen te tst (ht_tst e') = seen te tst (ht_tst e)"
  using refreshed_tst(3) [of tst te e e'] unfolding seen_def by (auto split: option.splits)

lemma covers_refr:
  assumes "refr tst s s'" "all_good tst s"
  shows "covers s' tst type obj len a = covers s tst type obj len a"
proof (cases "ht_mem s a")
  case None
  then have "ht_mem s' a = None" using refrD(2) [OF assms(1), of a] by (cases "ht_mem s' a") auto
  then show ?thesis using None by (simp add: covers_def)
next
  case (Some e)
  then obtain e' where e': "ht_mem s' a = Some e'" "refreshed tst (ht_te s) e e'"
    using refrD(1) [OF assms(1)] by blast
  note F = refreshed_fields [OF e'(2)] refreshed_tst(2) [OF e'(2) all_goodD [OF assms(2) Some]]
    seen_refreshed [OF e'(2) all_goodD [OF assms(2) Some]]
  show ?thesis unfolding covers_def using Some e'(1) F refr_fields(1) [OF assms(1)] by simp
qed

lemma epoch_refr: "refr tst s s' \<Longrightarrow> all_good tst s \<Longrightarrow> elem_epoch s' a = elem_epoch s a"
proof (cases "ht_mem s a")
  case None
  assume "refr tst s s'"
  then have "ht_mem s' a = None" using refrD(2) [of tst s s' a] None by (cases "ht_mem s' a") auto
  then show ?thesis using None by (simp add: elem_epoch_def)
next
  case (Some e)
  assume r: "refr tst s s'" "all_good tst s"
  then obtain e' where "ht_mem s' a = Some e'" "refreshed tst (ht_te s) e e'"
    using refrD(1) Some by blast
  then show ?thesis using refreshed_tst(2) all_goodD [OF r(2) Some] Some by (simp add: elem_epoch_def)
qed

lemma exc_refr: "refr tst s s' \<Longrightarrow> ht_elem_has_exceptions s' = ht_elem_has_exceptions s"
proof
  fix a assume r: "refr tst s s'"
  show "ht_elem_has_exceptions s' a = ht_elem_has_exceptions s a"
  proof (cases "ht_mem s a")
    case None
    then have "ht_mem s' a = None" using refrD(2) [OF r, of a] by (cases "ht_mem s' a") auto
    then show ?thesis using None by (simp add: ht_elem_has_exceptions_def)
  next
    case (Some e)
    then obtain e' where "ht_mem s' a = Some e'" "refreshed tst (ht_te s) e e'" using refrD(1) [OF r] by blast
    then show ?thesis using refreshed_fields Some by (simp add: ht_elem_has_exceptions_def)
  qed
qed

lemma elem_matches_covers:
  assumes good: "all_good tst s" and e: "ht_mem s a = Some e" and l: "len = 0 \<longleftrightarrow> ht_objlen e = 0"
    and tn: "trailnum (drop len obj) \<noteq> None"
  shows "\<exists>s'. ht_elem_matches s tst type obj len (hashsum type obj len) a =
     Some (if covers s tst type obj len a then Some (elem_epoch s a) else None, s') \<and> refr tst s s'"
proof -
  let ?pre = "type = ht_type e \<and> hashsum type obj len = ht_hashsum e \<and> ht_objlen e \<ge> len \<and>
            take len obj = take len (ht_obj e)"
  obtain tn where tn: "(if ht_trailingnumbers e then Some 0 else trailnum (drop len obj)) = Some tn"
    using assms(4) by (cases "ht_trailingnumbers e") auto
  show ?thesis
  proof (cases "?pre \<and> tn = 0 \<and> tst_epoch tst > tst_epoch (ht_tst e)")
    case False
    then have "\<not> covers s tst type obj len a" using e tn by (auto simp: covers_def split: if_splits)
    moreover have "ht_elem_matches s tst type obj len (hashsum type obj len) a = Some (None, s)"
      using e tn False by (auto simp: ht_elem_matches_def)
    ultimately show ?thesis using refr_refl by auto
  next
    case True
    obtain m st' where m: "tst_matchingepoch (ht_te s) (Some tst) (ht_tst e) = Some (m, st')"
      using em.defined [OF all_goodD [OF good e]] by blast
    let ?s' = "s\<lparr>ht_mem := (ht_mem s)(a \<mapsto> e\<lparr>ht_tst := st'\<rparr>)\<rparr>"
    have "refr tst s ?s'"
      using e m by (auto simp: refr_def refreshed_def refreshes_def option.rel_refl)
    moreover have "ht_elem_matches s tst type obj len (hashsum type obj len) a =
        Some (if m > 0 \<and> \<not> ht_invalid e then Some m else None, ?s')"
      using e tn True m by (auto simp: ht_elem_matches_def ht_upd_def)
    moreover have "covers s tst type obj len a \<longleftrightarrow> m > 0 \<and> \<not> ht_invalid e"
      using True e m l tn by (auto simp: covers_def seen_def split: if_splits)
    moreover have "m = elem_epoch s a" if "m > 0"
      using em.positive_epoch [OF m that] e by (simp add: elem_epoch_def)
    ultimately show ?thesis by auto
  qed
qed

lemma refr_links:
  assumes "refr tst s s'"
  shows "hl (ht_mem s') a = hl (ht_mem s) a" "rl (ht_mem s') a = rl (ht_mem s) a"
    "rel_option (\<lambda>d d'. khead d' = khead d \<and> ht_type d' = ht_type d \<and> key_ok d' = key_ok d)
       (da (ht_mem s) a) (da (ht_mem s') a)"
proof -
  consider "ht_mem s a = None" "ht_mem s' a = None"
    | e e' where "ht_mem s a = Some e" "ht_mem s' a = Some e'" "refreshed tst (ht_te s) e e'"
    using refrD [OF assms, of a] by (cases "ht_mem s a"; cases "ht_mem s' a") auto
  then show "hl (ht_mem s') a = hl (ht_mem s) a" "rl (ht_mem s') a = rl (ht_mem s) a"
    "rel_option (\<lambda>d d'. khead d' = khead d \<and> ht_type d' = ht_type d \<and> key_ok d' = key_ok d)
       (da (ht_mem s) a) (da (ht_mem s') a)"
    by (cases; simp add: hl_def rl_def da_def khead_def key_ok_def refreshed_fields)+
qed

lemma ht_ok_refr:
  assumes "refr tst s s'" "ht_ok s bk rg"
  shows "ht_ok s' bk rg"
proof -
  note L = refr_links [OF assms(1)] and F = refr_fields [OF assms(1)]
  have D: "\<exists>d'. da (ht_mem s') a = Some d' \<and> khead d' = khead d \<and> ht_type d' = ht_type d \<and> key_ok d' = key_ok d"
    if "da (ht_mem s) a = Some d" for a d
    using L(3) [of a] that by (cases "da (ht_mem s') a") auto
  have D': "\<exists>d. da (ht_mem s) a = Some d \<and> khead d' = khead d \<and> ht_type d' = ht_type d \<and> key_ok d' = key_ok d"
    if "da (ht_mem s') a = Some d'" for a d'
    using L(3) [of a] that by (cases "da (ht_mem s) a") auto
  have cell: "hcell s' h = hcell s h" for h using F by (cases h) auto
  have "bucket_ok s' h (bk h)" if "is_head h" for h
  proof -
    have "hseg (ht_mem s') h (bk h) p c q = hseg (ht_mem s) h (bk h) p c q" for p c q
      by (rule hseg_cong) (use L in simp)
    then show ?thesis using ht_okD(1) [OF assms(2) that] cell unfolding bucket_ok_def by (auto dest!: D)
  qed
  moreover have "type_ok s' t (rg t)" if "t < NCHECKS" for t
  proof -
    have "dseg (ht_mem s') p (rg t) n = dseg (ht_mem s) p (rg t) n" for p n
      by (rule dseg_cong) (use L in simp)
    then show ?thesis using ht_okD(2) [OF assms(2) that] F unfolding type_ok_def tring_def ring_def
      by (auto dest!: D)
  qed
  moreover have "a < ht_brk s' \<and> key_ok d \<and> a \<in> set (bk (khead d)) \<and> a \<in> set (rg (ht_type d))"
    if a: "da (ht_mem s') a = Some d" for a d
  proof -
    obtain d0 where d0: "da (ht_mem s) a = Some d0" "khead d = khead d0" "ht_type d = ht_type d0" "key_ok d = key_ok d0"
      using D' [OF a] by blast
    then show ?thesis using ht_okD(3-6) [OF assms(2) d0(1)] F by simp
  qed
  ultimately show ?thesis unfolding ht_ok_def by blast
qed

lemma chain_scan_ok:
  assumes "hseg (ht_mem s) c as p c' None" "all_good tst s"
    and "\<And>a. a \<in> set as \<Longrightarrow> \<exists>e. ht_mem s a = Some e \<and> (len = 0 \<longleftrightarrow> ht_objlen e = 0) \<and> ht_confirmfun e \<noteq> NEGATIVE_MOUNT"
    and "trailnum (drop len obj) \<noteq> None" "carrot_ok (ht_elem_has_exceptions s) (elem_epoch s) C car"
  shows "\<exists>car' s'. ht_chain_scan s tst type obj len (hashsum type obj len) p car = Some (car', s') \<and> refr tst s s' \<and>
     carrot_ok (ht_elem_has_exceptions s) (elem_epoch s) (C \<union> {a \<in> set as. covers s tst type obj len a}) car'"
  using assms
proof (induction as arbitrary: s c p C car)
  case Nil
  then show ?case using refr_refl by (subst ht_chain_scan.simps) auto
next
  case (Cons a as)
  then obtain r where p: "p = Some a" "hl (ht_mem s) a = Some (c, r)" "hseg (ht_mem s) (PNext a) as r c' None" by auto
  obtain e where e: "ht_mem s a = Some e" "len = 0 \<longleftrightarrow> ht_objlen e = 0" "ht_confirmfun e \<noteq> NEGATIVE_MOUNT"
    using Cons.prems(3) [of a] by auto
  let ?cov = "covers s tst type obj len a"
  obtain s1 where s1: "ht_elem_matches s tst type obj len (hashsum type obj len) a =
      Some (if ?cov then Some (elem_epoch s a) else None, s1)" "refr tst s s1"
    using elem_matches_covers [OF Cons.prems(2) e(1,2) Cons.prems(4)] by blast
  obtain e1 where e1: "ht_mem s1 a = Some e1" "refreshed tst (ht_te s) e e1" using refrD(1) [OF s1(2) e(1)] by blast
  note F = refreshed_fields [OF e1(2)]
  let ?car = "if ?cov then carrot_insert (ht_elem_has_exceptions s) car a (elem_epoch s a) else car"
  let ?C = "if ?cov then insert a C else C"
  have ck: "carrot_ok (ht_elem_has_exceptions s) (elem_epoch s) ?C ?car"
    using carrot_insert_ok Cons.prems(5) by auto
  have g1: "all_good tst s1" by (rule refr_good [OF s1(2) Cons.prems(2)])
  have ex1: "ht_elem_has_exceptions s1 = ht_elem_has_exceptions s" by (rule exc_refr [OF s1(2)])
  have ep1: "elem_epoch s1 = elem_epoch s" using epoch_refr [OF s1(2) Cons.prems(2)] by blast
  have h1: "hseg (ht_mem s1) (PNext a) as r c' None"
    using p(3) hseg_cong [of as "ht_mem s1" "ht_mem s"] refr_links(1) [OF s1(2)] by simp
  have el1: "\<exists>e. ht_mem s1 b = Some e \<and> (len = 0 \<longleftrightarrow> ht_objlen e = 0) \<and> ht_confirmfun e \<noteq> NEGATIVE_MOUNT"
    if b: "b \<in> set as" for b
  proof -
    obtain eb where eb: "ht_mem s b = Some eb" "len = 0 \<longleftrightarrow> ht_objlen eb = 0" "ht_confirmfun eb \<noteq> NEGATIVE_MOUNT"
      using Cons.prems(3) [of b] b by auto
    obtain eb' where "ht_mem s1 b = Some eb'" "refreshed tst (ht_te s) eb eb'" using refrD(1) [OF s1(2) eb(1)] by blast
    then show ?thesis using eb refreshed_fields [of tst "ht_te s" eb eb'] by simp
  qed
  obtain car' s' where r': "ht_chain_scan s1 tst type obj len (hashsum type obj len) r ?car = Some (car', s')"
      "refr tst s1 s'" "carrot_ok (ht_elem_has_exceptions s) (elem_epoch s) (?C \<union> {b \<in> set as. covers s1 tst type obj len b}) car'"
    using Cons.IH [OF h1 g1 el1 Cons.prems(4), of ?C ?car] ck ex1 ep1 by auto
  have "?C \<union> {b \<in> set as. covers s1 tst type obj len b} = C \<union> {b \<in> set (a # as). covers s tst type obj len b}"
    using covers_refr [OF s1(2) Cons.prems(2)] by auto
  moreover have "ht_nexthash e1 = r" using p(2) e(1) F by (simp add: hl_def)
  then have "ht_chain_scan s tst type obj len (hashsum type obj len) p car = Some (car', s')"
    using r'(1) s1(1) e1(1) e(3) F p(1) ex1 by (subst ht_chain_scan.simps) (auto simp: Let_def split: if_splits)
  ultimately show ?case using r' refr_trans [OF s1(2) r'(2) Cons.prems(2)] by auto
qed

section \<open>Searching a path\<close>

lemma trailnum_loop_total: "NUL \<in> set s \<Longrightarrow> trailnum_loop s n \<noteq> None"
  by (induction s n rule: trailnum_loop.induct) auto

lemma trailnum_total: "NUL \<in> set s \<Longrightarrow> trailnum s \<noteq> None"
proof (cases s)
  case (Cons c r)
  moreover have "\<not> is_digit NUL" by (simp add: is_digit_def)
  moreover assume "NUL \<in> set s"
  ultimately show ?thesis using trailnum_loop_total [of r] by auto
qed simp

text \<open>The positions of a path at which a mount may end.\<close>

definition path_stop :: "bool \<Rightarrow> string \<Rightarrow> nat \<Rightarrow> bool" where
  "path_stop exact path len \<longleftrightarrow> len = length path \<or>
     (len < length path \<and> \<not> exact \<and> (path ! len = CHR ''/'' \<or> trailnum (drop len (path @ [NUL])) \<noteq> Some 0))"

lemma path_char:
  assumes "len \<le> length path" "NUL \<notin> set path"
  shows "\<exists>c. deref (drop len (path @ [NUL])) = Some c \<and> (c = NUL \<longleftrightarrow> len = length path) \<and>
     (len < length path \<longrightarrow> c = path ! len)" "trailnum (drop len (path @ [NUL])) \<noteq> None"
proof -
  have "drop len (path @ [NUL]) = (path @ [NUL]) ! len # drop (Suc len) (path @ [NUL])"
    by (rule Cons_nth_drop_Suc [symmetric]) (use assms in simp)
  then have "deref (drop len (path @ [NUL])) = Some ((path @ [NUL]) ! len)" by (simp add: deref_def)
  moreover have "path ! len \<noteq> NUL" if "len < length path" using assms(2) nth_mem [OF that] by metis
  ultimately show "\<exists>c. deref (drop len (path @ [NUL])) = Some c \<and> (c = NUL \<longleftrightarrow> len = length path) \<and>
     (len < length path \<longrightarrow> c = path ! len)"
    using assms(1) by (auto simp: nth_append)
  show "trailnum (drop len (path @ [NUL])) \<noteq> None"
    by (rule trailnum_total) (use assms(1) in simp)
qed

lemma path_scan:
  assumes "len \<le> length path" "NUL \<notin> set path"
  shows "ht_scan_stop CHECKPATH (drop len (path @ [NUL])) len exact = Some (path_stop exact path len)"
    and "ht_scan_terminate CHECKPATH (drop len (path @ [NUL])) len 0 = Some (len = length path)"
proof -
  obtain c where c: "deref (drop len (path @ [NUL])) = Some c" "c = NUL \<longleftrightarrow> len = length path"
     "len < length path \<Longrightarrow> c = path ! len" using path_char [OF assms] by auto
  obtain n where n: "trailnum (drop len (path @ [NUL])) = Some n" using path_char(2) [OF assms] by auto
  have t: "CHECKPATH \<in> {CHECKPATH, CHECKBINFMT, CHECKFSALIAS, CHECKMODULE}" by simp
  show "ht_scan_stop CHECKPATH (drop len (path @ [NUL])) len exact = Some (path_stop exact path len)"
    using c n assms(1) by (auto simp: ht_scan_stop_def path_stop_def)
  show "ht_scan_terminate CHECKPATH (drop len (path @ [NUL])) len 0 = Some (len = length path)"
    unfolding ht_scan_terminate_def if_P [OF t] using c(1,2) by simp
qed

lemma hashsum_Suc: "len < length obj \<Longrightarrow> hashsum type obj (len + 1) = hashadd (hashsum type obj len) (obj ! len)"
  by (simp add: hashsum_def take_Suc_conv_app_nth)

text \<open>No element of the table is a negative mount.\<close>

definition no_negative :: "ht_tab \<Rightarrow> bool" where
  "no_negative s \<longleftrightarrow> (\<forall>a e. ht_mem s a = Some e \<longrightarrow> ht_confirmfun e \<noteq> NEGATIVE_MOUNT)"

lemma no_negative_refr: "refr tst s s' \<Longrightarrow> no_negative s \<Longrightarrow> no_negative s'"
  unfolding no_negative_def using refrD(2) refreshed_fields(6) by metis

lemma bucket_covers:
  assumes ok: "ht_ok s bk rg" and t: "type < NCHECKS"
    and h_def: "h = (if len = 0 then PHash0 type else PHash (hashmod (hashsum type obj len)))"
  shows "is_head h" "{a \<in> set (bk h). covers s tst type obj len a} = {a. covers s tst type obj len a}"
    "a \<in> set (bk h) \<Longrightarrow> \<exists>e. ht_mem s a = Some e \<and> (len = 0 \<longleftrightarrow> ht_objlen e = 0)"
proof -
  show hd: "is_head h" using t hashmod_less by (auto simp: h_def)
  note B = ht_okD(1) [OF ok hd]
  show "\<exists>e. ht_mem s a = Some e \<and> (len = 0 \<longleftrightarrow> ht_objlen e = 0)" if ab: "a \<in> set (bk h)" for a
  proof -
    obtain d where "da (ht_mem s) a = Some d" "khead d = h" using bucketD [OF B ab] by blast
    then show ?thesis by (auto simp: da_def h_def khead_def split: if_splits)
  qed
  have "a \<in> set (bk h)" if cov: "covers s tst type obj len a" for a
  proof -
    obtain e where e: "ht_mem s a = Some e" "ht_type e = type" "ht_hashsum e = hashsum type obj len" "len = 0 \<longleftrightarrow> ht_objlen e = 0"
      using cov unfolding covers_def by (elim exE conjE)
    have "a \<in> set (bk (khead (dat e)))" by (rule ht_okD(5) [OF ok]) (simp add: da_def e)
    moreover have "khead e = h" using e by (auto simp: khead_def h_def)
    ultimately show ?thesis by simp
  qed
  then show "{a \<in> set (bk h). covers s tst type obj len a} = {a. covers s tst type obj len a}" by blast
qed

text \<open>What one position of the path adds to the carrot.\<close>

lemma search_step_ok:
  assumes "ht_ok s bk rg" "all_good tst s" "no_negative s" "NUL \<notin> set path" "len \<le> length path"
    and "carrot_ok (ht_elem_has_exceptions s) (elem_epoch s) C car" and obj: "obj = path @ [NUL]"
  shows "\<exists>car1 s1. (if path_stop exact path len then do {
         (carh1, s1) \<leftarrow> ht_chain_scan s tst CHECKPATH obj len (hashsum CHECKPATH obj len)
            (if len \<noteq> 0 then ht_hash s (hashmod (hashsum CHECKPATH obj len)) else ht_hash0 s CHECKPATH) car;
         t \<leftarrow> ht_scan_terminate CHECKPATH (drop len obj) len 0;
         Some (t, carh1, s1)
       } else Some (False, car, s)) = Some (len = length path, car1, s1) \<and> refr tst s s1 \<and>
     carrot_ok (ht_elem_has_exceptions s) (elem_epoch s)
       (C \<union> {a. path_stop exact path len \<and> covers s tst CHECKPATH obj len a}) car1"
proof (cases "path_stop exact path len")
  case False
  then have "len \<noteq> length path" by (auto simp: path_stop_def)
  then show ?thesis using False assms(6) refr_refl by simp
next
  case True
  define h where h: "h = (if len = 0 then PHash0 CHECKPATH else PHash (hashmod (hashsum CHECKPATH obj len)))"
  have t: "CHECKPATH < NCHECKS" by (simp add: check_defs)
  note B = bucket_covers [OF assms(1) t h]
  obtain c' where "hseg (ht_mem s) h (bk h) (hcell s h) c' None"
    using ht_okD(1) [OF assms(1) B(1)] by (auto simp: bucket_ok_def)
  moreover have "\<exists>e. ht_mem s a = Some e \<and> (len = 0 \<longleftrightarrow> ht_objlen e = 0) \<and> ht_confirmfun e \<noteq> NEGATIVE_MOUNT"
    if "a \<in> set (bk h)" for a using B(3) [OF that] assms(3) by (auto simp: no_negative_def)
  moreover have "trailnum (drop len obj) \<noteq> None" using path_char(2) [OF assms(5,4)] obj by simp
  ultimately obtain car1 s1 where r: "ht_chain_scan s tst CHECKPATH obj len (hashsum CHECKPATH obj len) (hcell s h) car =
        Some (car1, s1)" "refr tst s s1"
      "carrot_ok (ht_elem_has_exceptions s) (elem_epoch s) (C \<union> {a \<in> set (bk h). covers s tst CHECKPATH obj len a}) car1"
    using chain_scan_ok [of s h "bk h" "hcell s h" c' tst len obj C car] assms(2,6) by blast
  moreover have "(if len \<noteq> 0 then ht_hash s (hashmod (hashsum CHECKPATH obj len)) else ht_hash0 s CHECKPATH) = hcell s h"
    by (simp add: h)
  moreover have "ht_scan_terminate CHECKPATH (drop len obj) len 0 = Some (len = length path)"
    using path_scan(2) [OF assms(5,4)] obj by simp
  ultimately show ?thesis using True B(2) by simp
qed

lemma search_loop_ok:
  assumes "ht_ok s bk rg" "all_good tst s" "no_negative s" "NUL \<notin> set path" "len \<le> length path"
    and "carrot_ok (ht_elem_has_exceptions s) (elem_epoch s) C car" and obj: "obj = path @ [NUL]"
  shows "\<exists>car' s'. ht_search_loop s tst CHECKPATH obj 0 exact len (hashsum CHECKPATH obj len) car =
       Some (length path, car', s') \<and> refr tst s s' \<and>
     carrot_ok (ht_elem_has_exceptions s) (elem_epoch s)
       (C \<union> {a. \<exists>l. len \<le> l \<and> l \<le> length path \<and> path_stop exact path l \<and> covers s tst CHECKPATH obj l a}) car'"
  using assms(1-6)
proof (induction "length path - len" arbitrary: len s C car)
  case 0
  then have len: "len = length path" by simp
  obtain car1 s1 where r: "(if path_stop exact path len then do {
         (carh1, s1) \<leftarrow> ht_chain_scan s tst CHECKPATH obj len (hashsum CHECKPATH obj len)
            (if len \<noteq> 0 then ht_hash s (hashmod (hashsum CHECKPATH obj len)) else ht_hash0 s CHECKPATH) car;
         t \<leftarrow> ht_scan_terminate CHECKPATH (drop len obj) len 0;
         Some (t, carh1, s1)
       } else Some (False, car, s)) = Some (len = length path, car1, s1)" "refr tst s s1"
     "carrot_ok (ht_elem_has_exceptions s) (elem_epoch s)
       (C \<union> {a. path_stop exact path len \<and> covers s tst CHECKPATH obj len a}) car1"
    using search_step_ok [OF 0(2-7) obj, of exact] by blast
  have st: "ht_scan_stop CHECKPATH (drop len obj) len exact = Some (path_stop exact path len)"
    using path_scan(1) [OF 0(6) 0(5)] obj by simp
  have "ht_search_loop s tst CHECKPATH obj 0 exact len (hashsum CHECKPATH obj len) car = Some (length path, car1, s1)"
    by (subst ht_search_loop.simps) (use st r(1) len in simp)
  moreover have "{a. \<exists>l. len \<le> l \<and> l \<le> length path \<and> path_stop exact path l \<and> covers s tst CHECKPATH obj l a} =
      {a. path_stop exact path len \<and> covers s tst CHECKPATH obj len a}"
    using len by auto
  ultimately show ?case using r by auto
next
  case (Suc x)
  then have len: "len < length path" by simp
  obtain car1 s1 where r: "(if path_stop exact path len then do {
         (carh1, s1) \<leftarrow> ht_chain_scan s tst CHECKPATH obj len (hashsum CHECKPATH obj len)
            (if len \<noteq> 0 then ht_hash s (hashmod (hashsum CHECKPATH obj len)) else ht_hash0 s CHECKPATH) car;
         t \<leftarrow> ht_scan_terminate CHECKPATH (drop len obj) len 0;
         Some (t, carh1, s1)
       } else Some (False, car, s)) = Some (len = length path, car1, s1)" "refr tst s s1"
     "carrot_ok (ht_elem_has_exceptions s) (elem_epoch s)
       (C \<union> {a. path_stop exact path len \<and> covers s tst CHECKPATH obj len a}) car1"
    using search_step_ok [OF Suc(3-8) obj, of exact] by blast
  have st: "ht_scan_stop CHECKPATH (drop len obj) len exact = Some (path_stop exact path len)"
    using path_scan(1) [OF Suc(7) Suc(6)] obj by simp
  have g1: "ht_ok s1 bk rg" "all_good tst s1" "no_negative s1"
    using ht_ok_refr [OF r(2)] refr_good [OF r(2)] no_negative_refr [OF r(2)] Suc.prems by auto
  have same: "ht_elem_has_exceptions s1 = ht_elem_has_exceptions s" "elem_epoch s1 = elem_epoch s"
    "covers s1 tst CHECKPATH obj l a = covers s tst CHECKPATH obj l a" for l a
    using exc_refr [OF r(2)] epoch_refr [OF r(2) Suc.prems(2)] covers_refr [OF r(2) Suc.prems(2)] by blast+
  let ?C = "C \<union> {a. path_stop exact path len \<and> covers s tst CHECKPATH obj len a}"
  obtain car' s' where r': "ht_search_loop s1 tst CHECKPATH obj 0 exact (len + 1) (hashsum CHECKPATH obj (len + 1)) car1 =
       Some (length path, car', s')" "refr tst s1 s'"
     "carrot_ok (ht_elem_has_exceptions s) (elem_epoch s)
       (?C \<union> {a. \<exists>l. len + 1 \<le> l \<and> l \<le> length path \<and> path_stop exact path l \<and> covers s tst CHECKPATH obj l a}) car'"
  proof -
    have x: "x = length path - (len + 1)" using Suc.hyps(2) by simp
    have "carrot_ok (ht_elem_has_exceptions s1) (elem_epoch s1) ?C car1" using r(3) unfolding same .
    from Suc.hyps(1) [OF x g1 Suc.prems(4) _ this] len show thesis using that unfolding same by auto
  qed
  have "hashsum CHECKPATH obj (len + 1) = hashadd (hashsum CHECKPATH obj len) (obj ! len)"
    by (rule hashsum_Suc) (use len obj in simp)
  then have "ht_search_loop s tst CHECKPATH obj 0 exact len (hashsum CHECKPATH obj len) car = Some (length path, car', s')"
    using r'(1) by (subst ht_search_loop.simps) (use st r(1) len obj in simp)
  moreover have "?C \<union> {a. \<exists>l. len + 1 \<le> l \<and> l \<le> length path \<and> path_stop exact path l \<and> covers s tst CHECKPATH obj l a} =
      C \<union> {a. \<exists>l. len \<le> l \<and> l \<le> length path \<and> path_stop exact path l \<and> covers s tst CHECKPATH obj l a}"
  proof -
    have e: "(\<exists>l. len \<le> l \<and> P l) \<longleftrightarrow> P len \<or> (\<exists>l. len + 1 \<le> l \<and> P l)" for P :: "nat \<Rightarrow> bool"
      by (metis Suc_eq_plus1 Suc_leD Suc_leI le_neq_implies_less order_refl)
    show ?thesis unfolding e using len by auto
  qed
  ultimately show ?case using r' refr_trans [OF r(2) r'(2) Suc.prems(2)] by auto
qed

text \<open>
  The elements a search of \<open>path\<close> chooses from.
\<close>

definition candidates :: "ht_tab \<Rightarrow> timestamp \<Rightarrow> bool \<Rightarrow> string \<Rightarrow> addr set" where
  "candidates s tst exact path =
     {a. \<exists>l\<le>length path. path_stop exact path l \<and> covers s tst CHECKPATH (path @ [NUL]) l a}"

lemma path_search_ok:
  assumes "ht_ok s bk rg" "all_good (cx_tst cx) s" "no_negative s" "NUL \<notin> set path" "0 < cx_nestepoch cx"
  shows "\<exists>rv cx' s'. ht_tab_pathsearch cf s cx CHECKPATH (path @ [NUL]) exact = Some (rv, cx', s') \<and>
     refr (cx_tst cx) s s' \<and>
     (case rv of None \<Rightarrow> \<forall>b \<in> candidates s (cx_tst cx) exact path. \<not> accepts cf s' cx CHECKPATH (path @ [NUL]) (length path) b
      | Some a \<Rightarrow> a \<in> candidates s (cx_tst cx) exact path \<and> accepts cf s' cx CHECKPATH (path @ [NUL]) (length path) a \<and>
          (\<forall>b \<in> candidates s (cx_tst cx) exact path.
             accepts cf s' cx CHECKPATH (path @ [NUL]) (length path) b \<longrightarrow> elem_epoch s b \<le> elem_epoch s a))"
proof -
  let ?obj = "path @ [NUL]" and ?tst = "cx_tst cx"
  have h0: "hashsum CHECKPATH ?obj 0 = of_nat CHECKPATH" by (simp add: hashsum_def)
  obtain car s' where r: "ht_search_loop s ?tst CHECKPATH ?obj 0 exact 0 (of_nat CHECKPATH) [] =
       Some (length path, car, s')" "refr ?tst s s'"
     "carrot_ok (ht_elem_has_exceptions s) (elem_epoch s) (candidates s ?tst exact path) car"
    using search_loop_ok [OF assms(1-4) _ carrot_ok_empty refl, of 0 exact] unfolding h0
    by (auto simp: candidates_def)
  let ?acc = "accepts cf s' cx CHECKPATH ?obj (length path)"
  have mem: "\<exists>e. ht_mem s' a = Some e \<and> ht_confirmfun e \<noteq> NEGATIVE_MOUNT" if ac: "a \<in> candidates s ?tst exact path" for a
  proof -
    obtain e where "ht_mem s a = Some e" using ac unfolding candidates_def covers_def by auto
    then obtain e' where "ht_mem s' a = Some e'" using refrD(1) [OF r(2)] by blast
    then show ?thesis using no_negative_refr [OF r(2) assms(3)] unfolding no_negative_def by blast
  qed
  have "\<forall>(a, t) \<in> set car. \<exists>e. ht_mem s' a = Some e \<and> ht_confirmfun e \<noteq> NEGATIVE_MOUNT"
    using mem carrot_okD(1) [OF r(3)] by blast
  then obtain cx' where c: "carrot_confirm cf s' cx CHECKPATH ?obj (length path) car =
     Some (map_option fst (find (\<lambda>(a, t). ?acc a) car), cx')"
    using carrot_confirm_find [OF _ assms(5)] by blast
  have acc: "?acc a" if "a \<in> candidates s ?tst exact path" "\<not> ht_elem_has_exceptions s a" for a
  proof -
    have "\<not> ht_elem_has_exceptions s' a" using that(2) exc_refr [OF r(2)] by simp
    then show ?thesis using mem [OF that(1)] by (auto simp: accepts_def ht_elem_has_exceptions_def)
  qed
  note N = carrot_newest [OF r(3) acc refl]
  show ?thesis
    by (rule exI [of _ "map_option fst (find (\<lambda>(a, t). ?acc a) car)"], rule exI [of _ cx'], rule exI [of _ s'])
      (use r c N in \<open>simp add: ht_tab_pathsearch_def ht_tab_internal_search_def\<close>)
qed

end
