(* ===== verification/Hashtab_Props.thy ===== *)
theory Hashtab_Props imports Hashtab_Search
begin

text \<open>
  Properties of the table of mounts: adding and deleting elements, the search of a path, the listing
  of the mount table, and two corner cases of the code.
\<close>

section \<open>Auxiliary facts\<close>

lemma accepts_refr:
  assumes "refr tst s s'" "all_good tst s"
  shows "accepts cf s' cx type key len a = accepts cf s cx type key len a"
proof (cases "ht_mem s a")
  case None
  then have "ht_mem s' a = None" using refrD(2) [OF assms(1), of a] by (cases "ht_mem s' a") auto
  then show ?thesis using None by (simp add: accepts_def)
next
  case (Some e)
  then obtain e' where "ht_mem s' a = Some e'" "refreshed tst (ht_te s) e e'" using refrD(1) [OF assms(1)] by blast
  moreover from this have "ht_confirmfun e' = ht_confirmfun e" "tst_epoch (ht_tst e') = tst_epoch (ht_tst e)"
    using refreshed_fields(6) refreshed_tst(2) all_goodD [OF assms(2) Some] by blast+
  ultimately show ?thesis using Some by (cases "ht_confirmfun e") (simp_all add: accepts_def)
qed

lemma ht_ok_empty: "ht_ok (ht_init_tab te sv) (\<lambda>_. []) (\<lambda>_. [])"
proof -
  have "hcell (ht_init_tab te sv) h = None" for h by (cases h) (auto simp: ht_init_tab_def)
  then show ?thesis
    by (auto simp: ht_ok_def bucket_ok_def type_ok_def tring_def da_def) (simp_all add: ht_init_tab_def)
qed

lemma ht_ok_log: "ht_ok s bk rg \<Longrightarrow> ht_ok (s\<lparr>ht_log := l\<rparr>) bk rg"
  by (simp add: ht_ok_def bucket_ok_def type_ok_def tring_def)

section \<open>Properties\<close>

text \<open>
  C22: Adding an element to a well-formed table succeeds; the element is the first of its hash chain
  and the last of the list of its type, and no other element changes.
\<close>

theorem ht_add_keeps:
  assumes "ht_ok s bk rg" "type < NCHECKS" "objlen \<le> length obj"
    and "e = ht_new_elem (fst (tst_timestamp (ht_te s) pt)) type obj objlen mf ml sv tn cf pd"
  shows "\<exists>s'. internal_ht_tab_add True True s pt type obj objlen mf ml sv tn cf pd = Some (Some (ht_brk s), s') \<and>
     ht_ok s' (bk(khead e := ht_brk s # bk (khead e))) (rg(type := rg type @ [ht_brk s])) \<and>
     da (ht_mem s') = (da (ht_mem s))(ht_brk s \<mapsto> dat e)"
proof -
  obtain s' where s': "internal_ht_tab_add True True s pt type obj objlen mf ml sv tn cf pd = Some (Some (ht_brk s), s')"
     "ht_ok s' (bk(khead e := ht_brk s # bk (khead e))) (rg(type := rg type @ [ht_brk s]))"
     "da (ht_mem s') (ht_brk s) = Some (dat e)" "\<forall>b. b \<noteq> ht_brk s \<longrightarrow> da (ht_mem s') b = da (ht_mem s) b"
    using add_ok [OF assms] by blast
  then have "da (ht_mem s') = (da (ht_mem s))(ht_brk s \<mapsto> dat e)" by (intro ext) simp
  with s' show ?thesis by blast
qed

theorem ht_add_keeps_witness:
  "\<exists>s'. internal_ht_tab_add True True (ht_init_tab te_init Map.empty) \<lparr>tst_epoch = 2, tst_te = None\<rparr> CHECKPATH ''/mnt'' 4 0
      None None True NO_CONFIRM None = Some (Some 0, s') \<and> (\<exists>bk rg. ht_ok s' bk rg \<and> rg CHECKPATH = [0])"
proof -
  let ?s = "ht_init_tab te_init Map.empty" and ?p = "\<lparr>tst_epoch = 2, tst_te = None\<rparr>"
  obtain s' where "internal_ht_tab_add True True ?s ?p CHECKPATH ''/mnt'' 4 0 None None True NO_CONFIRM None =
      Some (Some (ht_brk ?s), s')" "\<exists>bk. ht_ok s' bk ((\<lambda>_. [])(CHECKPATH := [] @ [ht_brk ?s]))"
    using ht_add_keeps [OF ht_ok_empty [of te_init Map.empty], where type = CHECKPATH and obj = "''/mnt''" and objlen = 4
        and pt = ?p and mf = 0 and ml = None and sv = None and tn = True and cf = NO_CONFIRM and pd = None, OF _ _ refl]
    by (auto simp: check_defs)
  moreover have "ht_brk ?s = 0" "((\<lambda>_. [])(CHECKPATH := [] @ [0])) CHECKPATH = [0]" by (simp_all add: ht_init_tab_def)
  ultimately show ?thesis by metis
qed

text \<open>
  C23: Deleting an element of a well-formed table takes it out of its chain and of the list of its
  type, and changes no other element.
\<close>

theorem ht_del_keeps:
  assumes "ht_ok s bk rg" "ht_mem s x = Some e"
  shows "\<exists>s'. ht_tab_del_locked s x = Some s' \<and>
     ht_ok s' (bk(khead e := remove1 x (bk (khead e)))) (rg(ht_type e := remove1 x (rg (ht_type e)))) \<and>
     da (ht_mem s') = (da (ht_mem s))(x := None)"
proof -
  obtain s' where s': "ht_tab_del_locked s x = Some s'"
     "ht_ok s' (bk(khead e := remove1 x (bk (khead e)))) (rg(ht_type e := remove1 x (rg (ht_type e))))"
     "\<forall>b. da (ht_mem s') b = (if b = x then None else da (ht_mem s) b)"
    using del_ok [OF assms] by blast
  then have "da (ht_mem s') = (da (ht_mem s))(x := None)" by (intro ext) simp
  with s' show ?thesis by blast
qed

theorem ht_del_keeps_witness:
  "\<exists>s1 s'. internal_ht_tab_add True True (ht_init_tab te_init Map.empty) \<lparr>tst_epoch = 2, tst_te = None\<rparr> CHECKPATH ''/mnt'' 4 0
      None None True NO_CONFIRM None = Some (Some 0, s1) \<and> ht_tab_del_locked s1 0 = Some s' \<and> ht_mem s' 0 = None"
proof -
  let ?s = "ht_init_tab te_init Map.empty" and ?p = "\<lparr>tst_epoch = 2, tst_te = None\<rparr>"
  obtain s1 bk rg where s1: "internal_ht_tab_add True True ?s ?p CHECKPATH ''/mnt'' 4 0 None None True NO_CONFIRM None =
      Some (Some (ht_brk ?s), s1)" "ht_ok s1 bk rg" "da (ht_mem s1) (ht_brk ?s) \<noteq> None"
    using add_ok [OF ht_ok_empty [of te_init Map.empty], where type = CHECKPATH and obj = "''/mnt''" and objlen = 4
        and pt = ?p and mf = 0 and ml = None and sv = None and tn = True and cf = NO_CONFIRM and pd = None, OF _ _ refl]
    by (auto simp: check_defs)
  then obtain e where e: "ht_mem s1 0 = Some e" by (auto simp: ht_init_tab_def da_def)
  obtain s' where s': "ht_tab_del_locked s1 0 = Some s'" "da (ht_mem s') = (da (ht_mem s1))(0 := None)"
    using ht_del_keeps [OF s1(2) e] by blast
  have "da (ht_mem s') 0 = None" using s'(2) by simp
  then have "ht_mem s' 0 = None" by (simp add: da_def)
  then show ?thesis using s1(1) s'(1) by (simp add: ht_init_tab_def)
qed

text \<open>
  C24: Deleting the element just added gives back the table: the same chains, the same lists and the
  same data in every element.
\<close>

theorem ht_add_del:
  assumes "ht_ok s bk rg" "type < NCHECKS" "objlen \<le> length obj"
  shows "\<exists>s1 s2. internal_ht_tab_add True True s pt type obj objlen mf ml sv tn cf pd = Some (Some (ht_brk s), s1) \<and>
     ht_tab_del_locked s1 (ht_brk s) = Some s2 \<and> ht_ok s2 bk rg \<and> da (ht_mem s2) = da (ht_mem s)"
proof -
  let ?a = "ht_brk s"
  define e where "e = ht_new_elem (fst (tst_timestamp (ht_te s) pt)) type obj objlen mf ml sv tn cf pd"
  obtain s1 where s1: "internal_ht_tab_add True True s pt type obj objlen mf ml sv tn cf pd = Some (Some ?a, s1)"
     "ht_ok s1 (bk(khead e := ?a # bk (khead e))) (rg(type := rg type @ [?a]))"
     "da (ht_mem s1) ?a = Some (dat e)" "\<And>b. b \<noteq> ?a \<Longrightarrow> da (ht_mem s1) b = da (ht_mem s) b"
    using add_ok [OF assms e_def] by blast
  obtain e1 where e1: "ht_mem s1 ?a = Some e1" "dat e1 = dat e" using s1(3) by (auto simp: da_def)
  have k: "khead e1 = khead e" "ht_type e1 = type"
  proof -
    have "khead e1 = khead (dat e1)" "khead (dat e) = khead e" "ht_type e1 = ht_type (dat e1)" "ht_type (dat e) = type"
      by (simp_all add: khead_def) (simp add: e_def ht_new_elem_def)
    then show "khead e1 = khead e" "ht_type e1 = type" using e1(2) by simp_all
  qed
  obtain s2 where s2: "ht_tab_del_locked s1 ?a = Some s2"
     "ht_ok s2 ((bk(khead e := ?a # bk (khead e)))(khead e := remove1 ?a (?a # bk (khead e))))
        ((rg(type := rg type @ [?a]))(type := remove1 ?a (rg type @ [?a])))"
     "\<And>b. da (ht_mem s2) b = (if b = ?a then None else da (ht_mem s1) b)"
    using del_ok [OF s1(2) e1(1)] k by auto
  have fresh: "da (ht_mem s) ?a = None" using ht_okD(3) [OF assms(1), of ?a] by (cases "da (ht_mem s) ?a") auto
  then have fresh': "?a \<notin> set (rg type)" using typeD [OF ht_okD(2) [OF assms(1,2)], of ?a] by auto
  have "da (ht_mem s2) = da (ht_mem s)" using s1(4) s2(3) fresh by (intro ext) simp
  moreover have "ht_ok s2 bk rg" using s2(2) fresh' by (simp add: remove1_append)
  ultimately show ?thesis using s1(1) s2(1) by blast
qed

theorem ht_add_del_witness:
  "\<exists>s1 s2. internal_ht_tab_add True True (ht_init_tab te_init Map.empty) \<lparr>tst_epoch = 2, tst_te = None\<rparr> CHECKPATH ''/mnt'' 4 0
      None None True NO_CONFIRM None = Some (Some 0, s1) \<and> ht_tab_del_locked s1 0 = Some s2 \<and> da (ht_mem s2) = Map.empty"
  using ht_add_del [OF ht_ok_empty [of te_init Map.empty], where type = CHECKPATH and obj = "''/mnt''" and objlen = 4
        and pt = "\<lparr>tst_epoch = 2, tst_te = None\<rparr>" and mf = 0 and ml = None and sv = None and tn = True
        and cf = NO_CONFIRM and pd = None]
  by (auto simp: check_defs ht_init_tab_def da_def fun_eq_iff)

text \<open>
  C4: The search of a path returns the newest of the elements whose key covers the path, that the
  caller's view sees and whose confirm function accepts it; it returns nothing only when there is
  no such element.
\<close>

theorem path_search_newest:
  assumes "ht_ok s bk rg" "all_good (cx_tst cx) s" "no_negative s" "NUL \<notin> set path" "0 < cx_nestepoch cx"
    and "C = {a \<in> candidates s (cx_tst cx) exact path. accepts cf s cx CHECKPATH (path @ [NUL]) (length path) a}"
  shows "\<exists>rv cx' s'. ht_tab_pathsearch cf s cx CHECKPATH (path @ [NUL]) exact = Some (rv, cx', s') \<and> ht_ok s' bk rg \<and>
     (case rv of None \<Rightarrow> C = {} | Some a \<Rightarrow> a \<in> C \<and> (\<forall>b \<in> C. elem_epoch s b \<le> elem_epoch s a))"
proof -
  obtain rv cx' s' where r: "ht_tab_pathsearch cf s cx CHECKPATH (path @ [NUL]) exact = Some (rv, cx', s')"
     "refr (cx_tst cx) s s'"
     "case rv of None \<Rightarrow> \<forall>b \<in> candidates s (cx_tst cx) exact path. \<not> accepts cf s' cx CHECKPATH (path @ [NUL]) (length path) b
      | Some a \<Rightarrow> a \<in> candidates s (cx_tst cx) exact path \<and> accepts cf s' cx CHECKPATH (path @ [NUL]) (length path) a \<and>
          (\<forall>b \<in> candidates s (cx_tst cx) exact path.
             accepts cf s' cx CHECKPATH (path @ [NUL]) (length path) b \<longrightarrow> elem_epoch s b \<le> elem_epoch s a)"
    using path_search_ok [OF assms(1-5)] by blast
  note acc = accepts_refr [OF r(2) assms(2)]
  have "case rv of None \<Rightarrow> C = {} | Some a \<Rightarrow> a \<in> C \<and> (\<forall>b \<in> C. elem_epoch s b \<le> elem_epoch s a)"
    using r(3) unfolding acc assms(6) by (cases rv) auto
  then show ?thesis using r(1) ht_ok_refr [OF r(2) assms(1)] by blast
qed

text \<open>A table with one mount, on \<open>/mnt\<close>, in a view with two processes.\<close>

definition ex_elem :: ht_elem where
  "ex_elem = ht_new_elem \<lparr>tst_epoch = 3, tst_te = Some 0\<rparr> CHECKPATH ''/mnt'' 4 0 (Some ''fs /mnt'') None True NO_CONFIRM None"

lemma ex_tab_ok:
  "\<exists>s bk rg. internal_ht_tab_add True True (ht_init_tab one_view Map.empty) \<lparr>tst_epoch = 2, tst_te = Some 0\<rparr>
      CHECKPATH ''/mnt'' 4 0 (Some ''fs /mnt'') None True NO_CONFIRM None = Some (Some 0, s) \<and>
    ht_ok s bk rg \<and> da (ht_mem s) = [0 \<mapsto> dat ex_elem] \<and> rg CHECKPATH = [0] \<and> ht_te s = one_view\<lparr>epoch_now := 4\<rparr>"
proof -
  let ?s = "ht_init_tab one_view Map.empty" and ?p = "\<lparr>tst_epoch = 2, tst_te = Some 0\<rparr>"
  have i: "ht_brk ?s = 0" "ht_te ?s = one_view" "\<And>a. da (ht_mem ?s) a = None" by (simp_all add: ht_init_tab_def da_def)
  have t: "tst_timestamp one_view ?p = (\<lparr>tst_epoch = 3, tst_te = Some 0\<rparr>, one_view\<lparr>epoch_now := 4\<rparr>)"
    by (simp add: tst_timestamp_def new_epoch_def one_view_def)
  have c: "CHECKPATH < NCHECKS" "4 \<le> length ''/mnt''" by (simp_all add: check_defs)
  obtain s where s: "internal_ht_tab_add True True ?s ?p CHECKPATH ''/mnt'' 4 0 (Some ''fs /mnt'') None True NO_CONFIRM None =
      Some (Some 0, s)" "ht_ok s ((\<lambda>_. [])(khead ex_elem := [0])) ((\<lambda>_. [])(CHECKPATH := [0]))"
      "da (ht_mem s) 0 = Some (dat ex_elem)" "\<And>b. b \<noteq> 0 \<Longrightarrow> da (ht_mem s) b = None" "ht_te s = one_view\<lparr>epoch_now := 4\<rparr>"
    using add_ok [OF ht_ok_empty [of one_view Map.empty] c, where pt = ?p and mf = 0 and ml = "Some ''fs /mnt''"
        and sv = None and tn = True and cf = NO_CONFIRM and pd = None, OF refl]
    unfolding i t fst_conv snd_conv ex_elem_def [symmetric] by auto
  have "da (ht_mem s) = [0 \<mapsto> dat ex_elem]" using s(3,4) by (intro ext) simp
  moreover have "((\<lambda>_. [])(CHECKPATH := [0])) CHECKPATH = [0]" by simp
  ultimately show ?thesis using s(1,2,5) by blast
qed

lemma ex_elem_fields:
  "ht_type ex_elem = CHECKPATH" "ht_objlen ex_elem = 4" "ht_obj ex_elem = ''/mnt''" "ht_tst ex_elem = \<lparr>tst_epoch = 3, tst_te = Some 0\<rparr>"
  "ht_hashsum ex_elem = hashsum CHECKPATH ''/mnt'' 4" "ht_trailingnumbers ex_elem" "\<not> ht_invalid ex_elem" "ht_confirmfun ex_elem = NO_CONFIRM"
  "ht_mtabline ex_elem = Some ''fs /mnt''"
  by (simp_all add: ex_elem_def ht_new_elem_def)

lemma da_fields:
  assumes "da m a = Some (dat d)"
  obtains e where "m a = Some e" "ht_type e = ht_type d" "ht_objlen e = ht_objlen d" "ht_obj e = ht_obj d" "ht_tst e = ht_tst d"
    "ht_hashsum e = ht_hashsum d" "ht_trailingnumbers e = ht_trailingnumbers d" "ht_invalid e = ht_invalid d"
    "ht_confirmfun e = ht_confirmfun d" "ht_mtabline e = ht_mtabline d"
proof -
  obtain e where "m a = Some e" "dat e = dat d" using assms by (auto simp: da_def)
  then show thesis using that [of e] dat_fields [of e] dat_fields [of d] by metis
qed

lemma ex_good:
  assumes "da (ht_mem s) = [0 \<mapsto> dat ex_elem]" "ht_te s = one_view\<lparr>epoch_now := 4\<rparr>"
  shows "all_good \<lparr>tst_epoch = 4, tst_te = Some 0\<rparr> s" "no_negative s"
    "seen (ht_te s) \<lparr>tst_epoch = 4, tst_te = Some 0\<rparr> \<lparr>tst_epoch = 3, tst_te = Some 0\<rparr>"
proof -
  have e: "a = 0 \<and> ht_tst e = \<lparr>tst_epoch = 3, tst_te = Some 0\<rparr> \<and> ht_confirmfun e = NO_CONFIRM" if "ht_mem s a = Some e" for a e
  proof -
    have "da (ht_mem s) a = Some (dat e)" using that by (simp add: da_def)
    then have "a = 0" "dat e = dat ex_elem" using assms(1) by (auto split: if_splits)
    then show ?thesis using dat_fields [of e] dat_fields [of ex_elem] ex_elem_fields by metis
  qed
  let ?te = "one_view\<lparr>epoch_now := 4\<rparr>" and ?st = "\<lparr>tst_epoch = 3, tst_te = Some 0\<rparr>"
  have n: "te_mem one_view 0 = Some (te_zero\<lparr>te_rise := 2, te_nproc := 2\<rparr>)" by (simp add: one_view_def)
  have md: "match_dead ?te 0 = Some 0" by (subst match_dead.simps) (simp add: n te_zero_def)
  have mr: "match_rise ?te 3 0 = Some 0" by (subst match_rise.simps) (simp add: n te_zero_def)
  have tr: "tree_ok ?te (VLeaf 0) (\<lambda>_. 2)"
    by (simp add: one_view_def tree_ok_def te_zero_def DEPTH_WORDS_def DEPTH_BYTES_def MAXDEPTH_def proj_defs weak_ok_def)
  have cl: "climb (te_mem ?te) 3 (vanc (VLeaf 0) 0) = Some 0" by (simp add: ris_def n te_zero_def)
  have "0 \<in> set (vaddrs (VLeaf 0))" by simp
  then have g: "st_good ?te \<lparr>tst_epoch = 4, tst_te = Some 0\<rparr> ?st"
    unfolding st_good_def timestamp.simps using tr md cl by blast
  have e': "st_good (ht_te s) \<lparr>tst_epoch = 4, tst_te = Some 0\<rparr> (ht_tst x)" "ht_confirmfun x \<noteq> NEGATIVE_MOUNT"
    if "ht_mem s a = Some x" for a x
    using e [OF that] g assms(2) by simp_all
  show "all_good \<lparr>tst_epoch = 4, tst_te = Some 0\<rparr> s" unfolding all_good_def using e'(1) by blast
  show "no_negative s" unfolding no_negative_def using e'(2) by blast
  show "seen (ht_te s) \<lparr>tst_epoch = 4, tst_te = Some 0\<rparr> ?st"
    unfolding seen_def assms(2) by (simp add: tst_matchingepoch_def md mr n te_zero_def diffbitstr_def)
qed

lemma ex_candidates:
  assumes "da (ht_mem s) = [0 \<mapsto> dat ex_elem]" "ht_te s = one_view\<lparr>epoch_now := 4\<rparr>"
  shows "{a \<in> candidates s \<lparr>tst_epoch = 4, tst_te = Some 0\<rparr> False ''/mnt/a''. accepts cf s cx CHECKPATH (''/mnt/a'' @ [NUL]) (length ''/mnt/a'') a} = {0}"
    (is "?C = {0}")
proof -
  obtain e where e: "ht_mem s 0 = Some e" "ht_type e = CHECKPATH" "ht_objlen e = 4" "ht_obj e = ''/mnt''"
    "ht_tst e = \<lparr>tst_epoch = 3, tst_te = Some 0\<rparr>" "ht_hashsum e = hashsum CHECKPATH ''/mnt'' 4" "ht_trailingnumbers e"
    "\<not> ht_invalid e" "ht_confirmfun e = NO_CONFIRM"
    using da_fields [of "ht_mem s" 0 ex_elem] assms(1) ex_elem_fields by (metis fun_upd_same)
  have "covers s \<lparr>tst_epoch = 4, tst_te = Some 0\<rparr> CHECKPATH (''/mnt/a'' @ [NUL]) 4 0"
    unfolding covers_def using e ex_good(3) [OF assms] by (intro exI [of _ e]) (simp add: hashsum_def)
  moreover have "path_stop False ''/mnt/a'' 4" by (simp add: path_stop_def)
  ultimately have "0 \<in> candidates s \<lparr>tst_epoch = 4, tst_te = Some 0\<rparr> False ''/mnt/a''" unfolding candidates_def by (intro CollectI exI [of _ 4]) simp
  then have "0 \<in> ?C" using e by (simp add: accepts_def)
  moreover have "a = 0" if "a \<in> ?C" for a
  proof -
    have "ht_mem s a \<noteq> None" using that by (cases "ht_mem s a") (auto simp: accepts_def)
    then have "da (ht_mem s) a \<noteq> None" by (auto simp: da_def)
    then show ?thesis using assms(1) by (auto split: if_splits)
  qed
  ultimately show ?thesis by blast
qed

theorem path_search_newest_witness:
  "\<exists>s cx' s'. internal_ht_tab_add True True (ht_init_tab one_view Map.empty) \<lparr>tst_epoch = 2, tst_te = Some 0\<rparr>
      CHECKPATH ''/mnt'' 4 0 (Some ''fs /mnt'') None True NO_CONFIRM None = Some (Some 0, s) \<and>
    ht_tab_pathsearch (\<lambda>_ _ _ _ _ _. 0) s \<lparr>cx_tst = \<lparr>tst_epoch = 4, tst_te = Some 0\<rparr>, cx_nestepoch = 4, cx_hte = None\<rparr>
      CHECKPATH (''/mnt/a'' @ [NUL]) False = Some (Some 0, cx', s')"
proof -
  let ?cx = "\<lparr>cx_tst = \<lparr>tst_epoch = 4, tst_te = Some 0\<rparr>, cx_nestepoch = 4, cx_hte = None\<rparr>"
  let ?cf = "\<lambda>_ _ _ _ _ _. 0"
  obtain s bk rg where s: "internal_ht_tab_add True True (ht_init_tab one_view Map.empty) \<lparr>tst_epoch = 2, tst_te = Some 0\<rparr>
      CHECKPATH ''/mnt'' 4 0 (Some ''fs /mnt'') None True NO_CONFIRM None = Some (Some 0, s)"
    "ht_ok s bk rg" "da (ht_mem s) = [0 \<mapsto> dat ex_elem]" "ht_te s = one_view\<lparr>epoch_now := 4\<rparr>"
    using ex_tab_ok by blast
  note g = ex_good [OF s(3,4)]
  have C: "{0} = {a \<in> candidates s (cx_tst ?cx) False ''/mnt/a''. accepts ?cf s ?cx CHECKPATH (''/mnt/a'' @ [NUL]) (length ''/mnt/a'') a}"
    using ex_candidates [OF s(3,4), of ?cf ?cx] by simp
  have "\<exists>rv cx' s'. ht_tab_pathsearch ?cf s ?cx CHECKPATH (''/mnt/a'' @ [NUL]) False = Some (rv, cx', s') \<and> ht_ok s' bk rg \<and>
     (case rv of None \<Rightarrow> {0 :: addr} = {} | Some a \<Rightarrow> a \<in> {0} \<and> (\<forall>b \<in> {0}. elem_epoch s b \<le> elem_epoch s a))"
    by (rule path_search_newest [OF s(2) _ g(2) _ _ C]) (use g(1) in \<open>simp_all\<close>)
  then show ?thesis using s(1) by (auto split: option.splits)
qed

section \<open>The walk over the elements of a type\<close>








section \<open>Strings\<close>

lemma digit_val_zero: "is_digit c \<Longrightarrow> digit_val c = 0 \<longleftrightarrow> c = CHR ''0''"
proof -
  assume d: "is_digit c"
  then have "digit_val c = 0 \<longleftrightarrow> of_char c = (48::nat)" by (auto simp: is_digit_def digit_val_def)
  also have "\<dots> \<longleftrightarrow> c = CHR ''0''" using of_char_eq_iff [of c "CHR ''0''"] by simp
  finally show ?thesis .
qed

lemma trailnum_loop_iff:
  assumes "NUL \<notin> set w"
  shows "\<exists>n. trailnum_loop (w @ [NUL]) k = Some n \<and>
     (n \<noteq> 0 \<longleftrightarrow> (\<forall>c \<in> set w. is_digit c) \<and> (k \<noteq> 0 \<or> (\<exists>c \<in> set w. c \<noteq> CHR ''0'')))"
  using assms
proof (induction w arbitrary: k)
  case Nil
  then show ?case by simp
next
  case (Cons c w)
  show ?case
  proof (cases "is_digit c")
    case True
    define k' where "k' = k OR digit_val c"
    have k': "k' \<noteq> 0 \<longleftrightarrow> k \<noteq> 0 \<or> c \<noteq> CHR ''0''"
      using digit_val_zero [OF True] by (auto simp: k'_def or_eq_0_iff)
    have "trailnum_loop ((c # w) @ [NUL]) k = trailnum_loop (w @ [NUL]) k'" using True Cons.prems by (auto simp: k'_def)
    then show ?thesis using Cons.IH [of k'] Cons.prems k' True by auto
  next
    case False
    then show ?thesis using Cons.prems by auto
  qed
qed

text \<open>
  The test for trailing numbers holds of a string of digits only when one of them is not zero:
  for a path such as \<open>/dev/hda0\<close> the suffix \<open>0\<close> is not a trailing number.
\<close>

theorem trailnum_iff:
  assumes "NUL \<notin> set w"
  shows "\<exists>n. trailnum (w @ [NUL]) = Some n \<and>
     (n \<noteq> 0 \<longleftrightarrow> (\<forall>c \<in> set w. is_digit c) \<and> (\<exists>c \<in> set w. c \<noteq> CHR ''0''))"
proof (cases w)
  case Nil
  then show ?thesis by (simp add: is_digit_def)
next
  case (Cons c v)
  show ?thesis
  proof (cases "is_digit c")
    case True
    then show ?thesis using trailnum_loop_iff [of v "digit_val c"] assms digit_val_zero [OF True] Cons by auto
  next
    case False
    then show ?thesis using Cons by auto
  qed
qed

theorem trailnum_iff_witness:
  "trailnum (''0'' @ [NUL]) = Some 0 \<and> (\<exists>n. trailnum (''10'' @ [NUL]) = Some n \<and> n \<noteq> 0)"
  using trailnum_iff [of "''0''"] trailnum_iff [of "''10''"] by (auto simp: is_digit_def)

text \<open>
  A mount of a file system that asks to be permanent faults when the memory for its element
  cannot be allocated: the counter is increased before the result of the allocation is tested.
\<close>

theorem permanent_no_memory:
  assumes "permanent_mount (Some opts)"
  shows "ht_tab_pathadd False m2 s pt type src path fstype fl (Some opts) sv tn cf pd = None"
  using assms by (auto simp: ht_tab_pathadd_def internal_ht_tab_add_def bind_eq_None_conv split: option.splits if_splits)

theorem permanent_no_memory_witness:
  "ht_tab_pathadd False True (ht_init_tab te_init Map.empty) \<lparr>tst_epoch = 2, tst_te = None\<rparr> CHECKPATH None ''/mnt'' ''fs'' 0
     (Some ''permanent'') None True NO_CONFIRM None = None"
  by (rule permanent_no_memory) (simp add: permanent_mount_def opt_word_def)

end
