(* ===== verification/Fsm.thy ===== *)
theory Fsm
  imports View_Prelude
begin

text \<open>
  Model of \<open>src/lwipv6/lwip-v6/src/netif/ppp/fsm.c\<close>: the finite state machine shared by the PPP
  control protocols (LCP, IPCP).

  A machine is a record with the fields of \<open>struct fsm\<close>, the parts of the environment it changes (the
  timer of \<open>fsm_timeout\<close>, the packets handed to \<open>pppWrite\<close>, the calls made to the protocol above)
  and the data \<open>'u\<close> of the protocol above.  The callbacks are functions on \<open>'u\<close>; they do not change
  the fields of the machine.  A copy of a negative length, beyond the end of its source or beyond
  \<open>outpacket_buf\<close> is \<open>None\<close>.
\<close>

section \<open>Data\<close>

type_synonym byte = "8 word"

definition HEADERLEN :: nat where "HEADERLEN = 4"

definition CONFREQ :: byte where "CONFREQ = 1"
definition CONFACK :: byte where "CONFACK = 2"
definition CONFNAK :: byte where "CONFNAK = 3"
definition CONFREJ :: byte where "CONFREJ = 4"
definition TERMREQ :: byte where "TERMREQ = 5"
definition TERMACK :: byte where "TERMACK = 6"
definition CODEREJ :: byte where "CODEREJ = 7"

lemmas fsm_codes = CONFREQ_def CONFACK_def CONFNAK_def CONFREJ_def TERMREQ_def TERMACK_def CODEREJ_def

datatype fsm_state = INITIAL | STARTING | CLOSED | STOPPED | CLOSING | STOPPING | REQSENT | ACKRCVD | ACKSENT | OPENED

definition OPT_PASSIVE :: nat where "OPT_PASSIVE = 1"
definition OPT_RESTART :: nat where "OPT_RESTART = 2"
definition OPT_SILENT :: nat where "OPT_SILENT = 4"

definition PPP_MRU :: nat where "PPP_MRU = 1500"
definition PPP_ALLSTATIONS :: byte where "PPP_ALLSTATIONS = 0xff"
definition PPP_UI :: byte where "PPP_UI = 0x03"

definition FSM_DEFTIMEOUT :: int where "FSM_DEFTIMEOUT = 6"
definition FSM_DEFMAXTERMREQS :: int where "FSM_DEFMAXTERMREQS = 2"
definition FSM_DEFMAXCONFREQS :: int where "FSM_DEFMAXCONFREQS = 10"
definition FSM_DEFMAXNAKLOOPS :: int where "FSM_DEFMAXNAKLOOPS = 5"

text \<open>
  \<open>fsm_callbacks\<close>.  \<open>addci\<close> gets the room there is and returns the bytes it writes; \<open>reqci\<close> gets the
  options of the peer and \<open>reject_if_disagree\<close> and returns the code of the answer and the options of
  the answer; \<open>ackci\<close>, \<open>nakci\<close>, \<open>rejci\<close> and \<open>extcode\<close> return their result.
\<close>

record 'u fsm_callbacks =
  cb_resetci :: "('u \<Rightarrow> 'u) option"
  cb_cilen :: "('u \<Rightarrow> int) option"
  cb_addci :: "('u \<Rightarrow> int \<Rightarrow> byte list \<times> 'u) option"
  cb_ackci :: "('u \<Rightarrow> byte list \<Rightarrow> int \<times> 'u) option"
  cb_nakci :: "('u \<Rightarrow> byte list \<Rightarrow> int \<times> 'u) option"
  cb_rejci :: "('u \<Rightarrow> byte list \<Rightarrow> int \<times> 'u) option"
  cb_reqci :: "('u \<Rightarrow> byte list \<Rightarrow> bool \<Rightarrow> byte \<times> byte list \<times> 'u) option"
  cb_up :: "('u \<Rightarrow> 'u) option"
  cb_down :: "('u \<Rightarrow> 'u) option"
  cb_starting :: "('u \<Rightarrow> 'u) option"
  cb_finished :: "('u \<Rightarrow> 'u) option"
  cb_retransmit :: "('u \<Rightarrow> 'u) option"
  cb_extcode :: "('u \<Rightarrow> byte \<Rightarrow> byte \<Rightarrow> byte list \<Rightarrow> int \<times> 'u) option"

datatype fsm_event = Sent "byte list" | Up | Down | Starting | Finished

record 'u fsm =
  f_protocol :: "16 word"
  f_state :: fsm_state
  f_flags :: nat
  f_id :: byte
  f_reqid :: byte
  f_seen_ack :: bool
  f_timeouttime :: int
  f_maxconfreqtransmits :: int
  f_retransmits :: int
  f_maxtermtransmits :: int
  f_nakloops :: int
  f_maxnakloops :: int
  f_callbacks :: "'u fsm_callbacks"
  f_term_reason :: "byte list"
  peer_mru :: int              \<comment> \<open>\<open>peer_mru[f->unit]\<close>\<close>
  f_timer :: bool              \<comment> \<open>a call of \<open>fsm_timeout\<close> is scheduled\<close>
  f_trace :: "fsm_event list"
  f_upper :: 'u

section \<open>Calls that leave the machine\<close>

definition TIMEOUT :: "'u fsm \<Rightarrow> 'u fsm" where
  "TIMEOUT f = f\<lparr>f_timer := True\<rparr>"

definition UNTIMEOUT :: "'u fsm \<Rightarrow> 'u fsm" where
  "UNTIMEOUT f = f\<lparr>f_timer := False\<rparr>"

text \<open>\<open>if (f->callbacks->g) (*f->callbacks->g)(f)\<close>, with the event it is recorded as.\<close>

definition callback :: "('u fsm_callbacks \<Rightarrow> ('u \<Rightarrow> 'u) option) \<Rightarrow> fsm_event list \<Rightarrow> 'u fsm \<Rightarrow> 'u fsm" where
  "callback g ev f = (case g (f_callbacks f) of None \<Rightarrow> f
     | Some h \<Rightarrow> f\<lparr>f_trace := f_trace f @ ev, f_upper := h (f_upper f)\<rparr>)"

definition PUTSHORT :: "nat \<Rightarrow> byte list" where
  "PUTSHORT s = [of_nat (s div 256), of_nat s]"

definition GETSHORT :: "byte \<Rightarrow> byte \<Rightarrow> nat" where
  "GETSHORT h l = (push_bit 8 (unat h) OR unat l)"

definition MAKEHEADER :: "16 word \<Rightarrow> byte list" where
  "MAKEHEADER t = [PPP_ALLSTATIONS, PPP_UI] @ PUTSHORT (unat t)"

definition fsm_sdata :: "'u fsm \<Rightarrow> byte \<Rightarrow> byte \<Rightarrow> byte list \<Rightarrow> int \<Rightarrow> 'u fsm option" where
  "fsm_sdata f code i data datalen =
     (let datalen = (if datalen > peer_mru f - int HEADERLEN then peer_mru f - int HEADERLEN else datalen);
          n = nat datalen; outlen = n + HEADERLEN in
      if datalen < 0 \<or> length data < n \<or> PPP_MRU < outlen then None
      else Some (f\<lparr>f_trace := f_trace f @ [Sent (MAKEHEADER (f_protocol f) @ [code, i] @ PUTSHORT outlen @ take n data)]\<rparr>))"

definition fsm_sconfreq :: "'u fsm \<Rightarrow> bool \<Rightarrow> 'u fsm option" where
  "fsm_sconfreq f retransmit = do {
     let f = (if f_state f \<notin> {REQSENT, ACKRCVD, ACKSENT} then (callback cb_resetci [] f)\<lparr>f_nakloops := 0\<rparr> else f);
     let f = (if \<not> retransmit then f\<lparr>f_retransmits := f_maxconfreqtransmits f, f_id := f_id f + 1, f_reqid := f_id f + 1\<rparr>
              else f);
     let f = f\<lparr>f_seen_ack := False\<rparr>;
     let (ci, f) = (case (cb_cilen (f_callbacks f), cb_addci (f_callbacks f)) of
         (Some cilen, Some addci) \<Rightarrow>
           (let n = cilen (f_upper f);
                n = (if n > peer_mru f - int HEADERLEN then peer_mru f - int HEADERLEN else n);
                (ci, u) = addci (f_upper f) n
            in (ci, f\<lparr>f_upper := u\<rparr>))
       | _ \<Rightarrow> ([], f));
     f \<leftarrow> (if PPP_MRU < length ci + HEADERLEN then None else fsm_sdata f CONFREQ (f_reqid f) ci (int (length ci)));
     let f = f\<lparr>f_retransmits := f_retransmits f - 1\<rparr>;
     Some (TIMEOUT f)
   }"

text \<open>\<open>fsm_sdata(f, TERMREQ, f->reqid = ++f->id, ...)\<close>, the timer and the counter.\<close>

definition fsm_stermreq :: "'u fsm \<Rightarrow> 'u fsm option" where
  "fsm_stermreq f = do {
     let f = f\<lparr>f_id := f_id f + 1, f_reqid := f_id f + 1\<rparr>;
     f \<leftarrow> fsm_sdata f TERMREQ (f_reqid f) (f_term_reason f) (int (length (f_term_reason f)));
     Some ((TIMEOUT f)\<lparr>f_retransmits := f_retransmits f - 1\<rparr>)
   }"

section \<open>Events from the layers below and above\<close>

definition fsm_init :: "'u fsm \<Rightarrow> 'u fsm" where
  "fsm_init f = f\<lparr>f_state := INITIAL, f_flags := 0, f_id := 0, f_timeouttime := FSM_DEFTIMEOUT,
     f_maxconfreqtransmits := FSM_DEFMAXCONFREQS, f_maxtermtransmits := FSM_DEFMAXTERMREQS,
     f_maxnakloops := FSM_DEFMAXNAKLOOPS, f_term_reason := []\<rparr>"

definition fsm_lowerup :: "'u fsm \<Rightarrow> 'u fsm option" where
  "fsm_lowerup f = (case f_state f of
       INITIAL \<Rightarrow> Some (f\<lparr>f_state := CLOSED\<rparr>)
     | STARTING \<Rightarrow>
         if (f_flags f AND OPT_SILENT) \<noteq> 0 then Some (f\<lparr>f_state := STOPPED\<rparr>)
         else map_option (\<lambda>f. f\<lparr>f_state := REQSENT\<rparr>) (fsm_sconfreq f False)
     | _ \<Rightarrow> Some f)"

definition fsm_lowerdown :: "'u fsm \<Rightarrow> 'u fsm" where
  "fsm_lowerdown f = (case f_state f of
       CLOSED \<Rightarrow> f\<lparr>f_state := INITIAL\<rparr>
     | STOPPED \<Rightarrow> callback cb_starting [Starting] (f\<lparr>f_state := STARTING\<rparr>)
     | CLOSING \<Rightarrow> UNTIMEOUT (f\<lparr>f_state := INITIAL\<rparr>)
     | STOPPING \<Rightarrow> UNTIMEOUT (f\<lparr>f_state := STARTING\<rparr>)
     | REQSENT \<Rightarrow> UNTIMEOUT (f\<lparr>f_state := STARTING\<rparr>)
     | ACKRCVD \<Rightarrow> UNTIMEOUT (f\<lparr>f_state := STARTING\<rparr>)
     | ACKSENT \<Rightarrow> UNTIMEOUT (f\<lparr>f_state := STARTING\<rparr>)
     | OPENED \<Rightarrow> (callback cb_down [Down] f)\<lparr>f_state := STARTING\<rparr>
     | _ \<Rightarrow> f)"

text \<open>The case of a second open: \<open>if (f->flags & OPT_RESTART)\<close> the layer goes down and up.\<close>

definition fsm_restart :: "'u fsm \<Rightarrow> 'u fsm option" where
  "fsm_restart f = (if (f_flags f AND OPT_RESTART) \<noteq> 0 then fsm_lowerup (fsm_lowerdown f) else Some f)"

definition fsm_open :: "'u fsm \<Rightarrow> 'u fsm option" where
  "fsm_open f = (case f_state f of
       INITIAL \<Rightarrow> Some (callback cb_starting [Starting] (f\<lparr>f_state := STARTING\<rparr>))
     | CLOSED \<Rightarrow>
         if (f_flags f AND OPT_SILENT) \<noteq> 0 then Some (f\<lparr>f_state := STOPPED\<rparr>)
         else map_option (\<lambda>f. f\<lparr>f_state := REQSENT\<rparr>) (fsm_sconfreq f False)
     | CLOSING \<Rightarrow> fsm_restart (f\<lparr>f_state := STOPPING\<rparr>)
     | STOPPED \<Rightarrow> fsm_restart f
     | OPENED \<Rightarrow> fsm_restart f
     | _ \<Rightarrow> Some f)"

definition fsm_close :: "'u fsm \<Rightarrow> byte list \<Rightarrow> 'u fsm option" where
  "fsm_close f reason =
     (let f = f\<lparr>f_term_reason := reason\<rparr> in
      case f_state f of
        STARTING \<Rightarrow> Some (f\<lparr>f_state := INITIAL\<rparr>)
      | STOPPED \<Rightarrow> Some (f\<lparr>f_state := CLOSED\<rparr>)
      | STOPPING \<Rightarrow> Some (f\<lparr>f_state := CLOSING\<rparr>)
      | s \<Rightarrow>
        if s \<in> {REQSENT, ACKRCVD, ACKSENT, OPENED} then do {
          let f = (if s \<noteq> OPENED then UNTIMEOUT f else callback cb_down [Down] f);
          f \<leftarrow> fsm_stermreq (f\<lparr>f_retransmits := f_maxtermtransmits f\<rparr>);
          Some (f\<lparr>f_state := CLOSING\<rparr>)
        }
        else Some f)"

definition fsm_protreject :: "'u fsm \<Rightarrow> 'u fsm option" where
  "fsm_protreject f = (case f_state f of
       CLOSING \<Rightarrow> Some (callback cb_finished [Finished] ((UNTIMEOUT f)\<lparr>f_state := CLOSED\<rparr>))
     | CLOSED \<Rightarrow> Some (callback cb_finished [Finished] (f\<lparr>f_state := CLOSED\<rparr>))
     | STOPPED \<Rightarrow> Some (callback cb_finished [Finished] (f\<lparr>f_state := STOPPED\<rparr>))
     | OPENED \<Rightarrow> do {
         let f = callback cb_down [Down] f;
         f \<leftarrow> fsm_stermreq (f\<lparr>f_retransmits := f_maxtermtransmits f\<rparr>);
         Some (f\<lparr>f_state := STOPPING\<rparr>)
       }
     | s \<Rightarrow>
       if s \<in> {STOPPING, REQSENT, ACKRCVD, ACKSENT}
       then Some (callback cb_finished [Finished] ((UNTIMEOUT f)\<lparr>f_state := STOPPED\<rparr>))
       else Some f)"

text \<open>The timer is not scheduled any more when \<open>fsm_timeout\<close> is called.\<close>

definition fsm_timeout :: "'u fsm \<Rightarrow> 'u fsm option" where
  "fsm_timeout f0 =
     (let f = UNTIMEOUT f0 in
      if f_state f \<in> {CLOSING, STOPPING} then
        (if f_retransmits f \<le> 0
         then Some (callback cb_finished [Finished] (f\<lparr>f_state := (if f_state f = CLOSING then CLOSED else STOPPED)\<rparr>))
         else fsm_stermreq f)
      else if f_state f \<in> {REQSENT, ACKRCVD, ACKSENT} then
        (if f_retransmits f \<le> 0
         then (let f = f\<lparr>f_state := STOPPED\<rparr> in
               Some (if (f_flags f AND OPT_PASSIVE) = 0 then callback cb_finished [Finished] f else f))
         else do {
           f \<leftarrow> fsm_sconfreq (callback cb_retransmit [] f) True;
           Some (if f_state f = ACKRCVD then f\<lparr>f_state := REQSENT\<rparr> else f)
         })
      else Some f)"

section \<open>Packets\<close>

text \<open>The end of \<open>fsm_rconfreq\<close>: what the answer \<open>code\<close> does to the state.\<close>

definition fsm_answered :: "'u fsm \<Rightarrow> byte \<Rightarrow> 'u fsm" where
  "fsm_answered f code =
     (if code = CONFACK then
        (if f_state f = ACKRCVD then callback cb_up [Up] ((UNTIMEOUT f)\<lparr>f_state := OPENED\<rparr>)
         else f\<lparr>f_state := ACKSENT\<rparr>)\<lparr>f_nakloops := 0\<rparr>
      else
        let f = (if f_state f \<noteq> ACKRCVD then f\<lparr>f_state := REQSENT\<rparr> else f) in
        if code = CONFNAK then f\<lparr>f_nakloops := f_nakloops f + 1\<rparr> else f)"

definition fsm_rconfreq :: "'u fsm \<Rightarrow> byte \<Rightarrow> byte list \<Rightarrow> 'u fsm option" where
  "fsm_rconfreq f i inp =
     (if f_state f = CLOSED then fsm_sdata f TERMACK i [] 0
      else if f_state f \<in> {CLOSING, STOPPING} then Some f
      else do {
        f \<leftarrow> (case f_state f of
            OPENED \<Rightarrow> fsm_sconfreq (callback cb_down [Down] f) False
          | STOPPED \<Rightarrow> map_option (\<lambda>f. f\<lparr>f_state := REQSENT\<rparr>) (fsm_sconfreq f False)
          | _ \<Rightarrow> Some f);
        let (code, inp, u) = (case cb_reqci (f_callbacks f) of
            Some reqci \<Rightarrow> reqci (f_upper f) inp (f_nakloops f \<ge> f_maxnakloops f)
          | None \<Rightarrow> (if inp \<noteq> [] then CONFREJ else CONFACK, inp, f_upper f));
        f \<leftarrow> fsm_sdata (f\<lparr>f_upper := u\<rparr>) code i inp (int (length inp));
        Some (fsm_answered f code)
      })"

definition fsm_rconfack :: "'u fsm \<Rightarrow> byte \<Rightarrow> byte list \<Rightarrow> 'u fsm option" where
  "fsm_rconfack f i inp =
     (if i \<noteq> f_reqid f \<or> f_seen_ack f then Some f
      else
        let (r, u) = (case cb_ackci (f_callbacks f) of
              Some ackci \<Rightarrow> ackci (f_upper f) inp
            | None \<Rightarrow> (if inp = [] then 1 else 0, f_upper f));
            f = f\<lparr>f_upper := u\<rparr>
        in
        if r = 0 then Some f
        else
          let f = f\<lparr>f_seen_ack := True\<rparr> in
          (case f_state f of
             CLOSED \<Rightarrow> fsm_sdata f TERMACK i [] 0
           | STOPPED \<Rightarrow> fsm_sdata f TERMACK i [] 0
           | REQSENT \<Rightarrow> Some (f\<lparr>f_state := ACKRCVD, f_retransmits := f_maxconfreqtransmits f\<rparr>)
           | ACKRCVD \<Rightarrow> map_option (\<lambda>f. f\<lparr>f_state := REQSENT\<rparr>) (fsm_sconfreq (UNTIMEOUT f) False)
           | ACKSENT \<Rightarrow> Some (callback cb_up [Up]
               ((UNTIMEOUT f)\<lparr>f_state := OPENED, f_retransmits := f_maxconfreqtransmits f\<rparr>))
           | OPENED \<Rightarrow> map_option (\<lambda>f. f\<lparr>f_state := REQSENT\<rparr>) (fsm_sconfreq (callback cb_down [Down] f) False)
           | _ \<Rightarrow> Some f))"

definition fsm_rconfnakrej :: "'u fsm \<Rightarrow> byte \<Rightarrow> byte \<Rightarrow> byte list \<Rightarrow> 'u fsm option" where
  "fsm_rconfnakrej f code i inp =
     (if i \<noteq> f_reqid f \<or> f_seen_ack f then Some f
      else
        case (if code = CONFNAK then cb_nakci (f_callbacks f) else cb_rejci (f_callbacks f)) of
          None \<Rightarrow> Some f
        | Some proc \<Rightarrow>
          let (ret, u) = proc (f_upper f) inp; f = f\<lparr>f_upper := u\<rparr> in
          if ret = 0 then Some f
          else
            let f = f\<lparr>f_seen_ack := True\<rparr> in
            if f_state f \<in> {CLOSED, STOPPED} then fsm_sdata f TERMACK i [] 0
            else if f_state f \<in> {REQSENT, ACKSENT} then
              (if ret < 0 then Some ((UNTIMEOUT f)\<lparr>f_state := STOPPED\<rparr>) else fsm_sconfreq (UNTIMEOUT f) False)
            else if f_state f = ACKRCVD then
              map_option (\<lambda>f. f\<lparr>f_state := REQSENT\<rparr>) (fsm_sconfreq (UNTIMEOUT f) False)
            else if f_state f = OPENED then
              map_option (\<lambda>f. f\<lparr>f_state := REQSENT\<rparr>) (fsm_sconfreq (callback cb_down [Down] f) False)
            else Some f)"

definition fsm_rtermreq :: "'u fsm \<Rightarrow> byte \<Rightarrow> byte list \<Rightarrow> 'u fsm option" where
  "fsm_rtermreq f i p =
     (let f = (case f_state f of
          ACKRCVD \<Rightarrow> f\<lparr>f_state := REQSENT\<rparr>
        | ACKSENT \<Rightarrow> f\<lparr>f_state := REQSENT\<rparr>
        | OPENED \<Rightarrow> TIMEOUT ((callback cb_down [Down] f)\<lparr>f_retransmits := 0, f_state := STOPPING\<rparr>)
        | _ \<Rightarrow> f)
      in fsm_sdata f TERMACK i [] 0)"

definition fsm_rtermack :: "'u fsm \<Rightarrow> 'u fsm option" where
  "fsm_rtermack f = (case f_state f of
       CLOSING \<Rightarrow> Some (callback cb_finished [Finished] ((UNTIMEOUT f)\<lparr>f_state := CLOSED\<rparr>))
     | STOPPING \<Rightarrow> Some (callback cb_finished [Finished] ((UNTIMEOUT f)\<lparr>f_state := STOPPED\<rparr>))
     | ACKRCVD \<Rightarrow> Some (f\<lparr>f_state := REQSENT\<rparr>)
     | OPENED \<Rightarrow> fsm_sconfreq (callback cb_down [Down] f) False
     | _ \<Rightarrow> Some f)"

definition fsm_rcoderej :: "'u fsm \<Rightarrow> byte list \<Rightarrow> 'u fsm option" where
  "fsm_rcoderej f inp =
     (if length inp < HEADERLEN then Some f
      else Some (if f_state f = ACKRCVD then f\<lparr>f_state := REQSENT\<rparr> else f))"

text \<open>The header of a packet: code, id and the \<open>len\<close> bytes that follow; \<open>None\<close> for a packet that is dropped.\<close>

fun fsm_header :: "byte list \<Rightarrow> (byte \<times> byte \<times> byte list) option" where
  "fsm_header (code # i # h # l # inp) =
     (let len = GETSHORT h l in
      if len < HEADERLEN \<or> len > length inp + HEADERLEN then None
      else Some (code, i, take (len - HEADERLEN) inp))"
| "fsm_header _ = None"

definition fsm_input :: "'u fsm \<Rightarrow> byte list \<Rightarrow> 'u fsm option" where
  "fsm_input f inpacket = (case fsm_header inpacket of
       None \<Rightarrow> Some f
     | Some (code, i, inp) \<Rightarrow>
       if f_state f \<in> {INITIAL, STARTING} then Some f
       else if code = CONFREQ then fsm_rconfreq f i inp
       else if code = CONFACK then fsm_rconfack f i inp
       else if code = CONFNAK \<or> code = CONFREJ then fsm_rconfnakrej f code i inp
       else if code = TERMREQ then fsm_rtermreq f i inp
       else if code = TERMACK then fsm_rtermack f
       else if code = CODEREJ then fsm_rcoderej f inp
       else
         let (r, u) = (case cb_extcode (f_callbacks f) of
               None \<Rightarrow> (0, f_upper f) | Some extcode \<Rightarrow> extcode (f_upper f) code i inp);
             f = f\<lparr>f_upper := u\<rparr> in
         if r \<noteq> 0 then Some f
         else (let f = f\<lparr>f_id := f_id f + 1\<rparr> in
               fsm_sdata f CODEREJ (f_id f) inpacket (int (length inp + HEADERLEN))))"

end
