(* ===== verification/Fsm_Inv.thy ===== *)
theory Fsm_Inv
  imports Fsm
begin

text \<open>
  The machine of \<open>fsm.c\<close> as a labelled transition system: what the senders change, the invariant of
  the timer, the acknowledgements and the calls of \<open>up\<close> and \<open>down\<close>, that every handler keeps it, and
  that the senders do not fault.
\<close>

section \<open>What the senders change\<close>

lemma callback_fields [simp]:
  "f_state (callback g ev f) = f_state f" "f_flags (callback g ev f) = f_flags f" "f_id (callback g ev f) = f_id f"
  "f_reqid (callback g ev f) = f_reqid f" "f_seen_ack (callback g ev f) = f_seen_ack f"
  "f_retransmits (callback g ev f) = f_retransmits f" "f_maxtermtransmits (callback g ev f) = f_maxtermtransmits f"
  "f_maxconfreqtransmits (callback g ev f) = f_maxconfreqtransmits f" "f_callbacks (callback g ev f) = f_callbacks f"
  "f_term_reason (callback g ev f) = f_term_reason f" "peer_mru (callback g ev f) = peer_mru f"
  "f_timer (callback g ev f) = f_timer f" "f_protocol (callback g ev f) = f_protocol f"
  "f_nakloops (callback g ev f) = f_nakloops f" "f_maxnakloops (callback g ev f) = f_maxnakloops f"
  by (auto simp: callback_def split: option.splits)

lemma callback_trace:
  "f_trace (callback g ev f) = f_trace f @ (if g (f_callbacks f) = None then [] else ev)"
  by (auto simp: callback_def split: option.splits)

lemmas fsm_timers [simp] = TIMEOUT_def UNTIMEOUT_def

lemma sdata_SomeD:
  assumes "fsm_sdata f c i d n = Some f'"
  shows "\<exists>p. f' = f\<lparr>f_trace := f_trace f @ [Sent p]\<rparr>"
  using assms by (auto simp: fsm_sdata_def Let_def split: if_splits)

lemma callback_form: "\<exists>u. callback g ev f = f\<lparr>f_trace := f_trace f @ (if g (f_callbacks f) = None then [] else ev), f_upper := u\<rparr>"
  by (cases "g (f_callbacks f)") (auto simp: callback_def intro: exI [of _ "f_upper f"])

lemma sconfreq_form:
  assumes "fsm_sconfreq f rt = Some f'"
  shows "\<exists>n i q p u. f' = f\<lparr>f_id := i, f_reqid := q, f_seen_ack := False,
     f_retransmits := (if rt then f_retransmits f else f_maxconfreqtransmits f) - 1, f_nakloops := n,
     f_timer := True, f_trace := f_trace f @ [Sent p], f_upper := u\<rparr>"
proof -
  obtain f1 where f1: "f1 = (if f_state f \<notin> {REQSENT, ACKRCVD, ACKSENT} then (callback cb_resetci [] f)\<lparr>f_nakloops := 0\<rparr> else f)"
    by blast
  obtain u1 where "callback cb_resetci [] f = f\<lparr>f_upper := u1\<rparr>" using callback_form [of cb_resetci "[]" f] by auto
  then have "f1 = f\<lparr>f_nakloops := f_nakloops f1, f_upper := f_upper f1\<rparr>" unfolding f1 by (cases f) auto
  then obtain n1 u2 where e1: "f1 = f\<lparr>f_nakloops := n1, f_upper := u2\<rparr>" by blast
  obtain f2 where f2: "f2 = (if \<not> rt then f1\<lparr>f_retransmits := f_maxconfreqtransmits f1, f_id := f_id f1 + 1, f_reqid := f_id f1 + 1\<rparr> else f1)"
    by blast
  have "f2 = f1\<lparr>f_retransmits := (if rt then f_retransmits f else f_maxconfreqtransmits f), f_id := f_id f2, f_reqid := f_reqid f2\<rparr>"
    unfolding f2 e1 by (cases f) auto
  then obtain i q where e2: "f2 = f1\<lparr>f_retransmits := (if rt then f_retransmits f else f_maxconfreqtransmits f), f_id := i, f_reqid := q\<rparr>"
    by blast
  let ?f3 = "f2\<lparr>f_seen_ack := False\<rparr>"
  obtain ci f4 where f4: "(case (cb_cilen (f_callbacks ?f3), cb_addci (f_callbacks ?f3)) of
         (Some cilen, Some addci) \<Rightarrow>
           (let n = cilen (f_upper ?f3);
                n = (if n > peer_mru ?f3 - int HEADERLEN then peer_mru ?f3 - int HEADERLEN else n);
                (ci, u) = addci (f_upper ?f3) n
            in (ci, ?f3\<lparr>f_upper := u\<rparr>))
       | _ \<Rightarrow> ([], ?f3)) = (ci, f4)" by fastforce
  have "f4 = ?f3\<lparr>f_upper := f_upper f4\<rparr>"
    using f4 [symmetric] by (cases f2) (auto simp: Let_def split: option.splits prod.splits)
  then obtain u4 where e4: "f4 = ?f3\<lparr>f_upper := u4\<rparr>" by blast
  have "Option.bind (if PPP_MRU < length ci + HEADERLEN then None else fsm_sdata f4 CONFREQ (f_reqid f4) ci (int (length ci)))
     (\<lambda>f. Some (TIMEOUT (f\<lparr>f_retransmits := f_retransmits f - 1\<rparr>))) = Some f'"
    using assms unfolding fsm_sconfreq_def Let_def f1 [symmetric] f2 [symmetric]
    using f4 [unfolded Let_def] by (simp add: Let_def)
  then obtain f5 where "fsm_sdata f4 CONFREQ (f_reqid f4) ci (int (length ci)) = Some f5"
     "f' = TIMEOUT (f5\<lparr>f_retransmits := f_retransmits f5 - 1\<rparr>)"
    by (auto simp: bind_eq_Some_conv split: if_splits)
  moreover from sdata_SomeD [OF this(1)] obtain p where "f5 = f4\<lparr>f_trace := f_trace f4 @ [Sent p]\<rparr>" by blast
  ultimately have "f' = f\<lparr>f_id := i, f_reqid := q, f_seen_ack := False,
     f_retransmits := (if rt then f_retransmits f else f_maxconfreqtransmits f) - 1, f_nakloops := n1,
     f_timer := True, f_trace := f_trace f @ [Sent p], f_upper := u4\<rparr>"
    unfolding e4 e2 e1 by (simp add: TIMEOUT_def)
  then show ?thesis by blast
qed
lemma stermreq_form:
  assumes "fsm_stermreq f = Some f'"
  shows "\<exists>i q p. f' = f\<lparr>f_id := i, f_reqid := q, f_retransmits := f_retransmits f - 1,
     f_timer := True, f_trace := f_trace f @ [Sent p]\<rparr>"
  using assms by (cases f) (auto simp: fsm_stermreq_def Let_def bind_eq_Some_conv dest!: sdata_SomeD)

lemma sconfreq_brief:
  assumes "fsm_sconfreq f rt = Some f'"
  obtains p where "f_state f' = f_state f" "f_timer f'" "\<not> f_seen_ack f'"
    "f_callbacks f' = f_callbacks f" "f_trace f' = f_trace f @ [Sent p]"
  using sconfreq_form [OF assms] by (elim exE) simp

lemma stermreq_brief:
  assumes "fsm_stermreq f = Some f'"
  obtains p where "f_state f' = f_state f" "f_timer f'" "f_seen_ack f' = f_seen_ack f"
    "f_callbacks f' = f_callbacks f" "f_trace f' = f_trace f @ [Sent p]"
  using stermreq_form [OF assms] by (elim exE) simp

lemma sdata_brief:
  assumes "fsm_sdata f code i d n = Some f'"
  obtains p where "f_state f' = f_state f" "f_timer f' = f_timer f" "f_seen_ack f' = f_seen_ack f"
    "f_callbacks f' = f_callbacks f" "f_trace f' = f_trace f @ [Sent p]"
  using sdata_SomeD [OF assms] by (elim exE) simp

lemmas fsm_brief = sconfreq_brief stermreq_brief sdata_brief

section \<open>Invariant\<close>

text \<open>\<open>updown\<close> reads a trace: \<open>Some True\<close> after an up, \<open>None\<close> when ups and downs do not alternate.\<close>

fun updown_step :: "bool option \<Rightarrow> fsm_event \<Rightarrow> bool option" where
  "updown_step (Some False) Up = Some True"
| "updown_step (Some True) Down = Some False"
| "updown_step (Some _) Up = None"
| "updown_step (Some _) Down = None"
| "updown_step b _ = b"

definition updown :: "fsm_event list \<Rightarrow> bool option" where
  "updown tr = foldl updown_step (Some False) tr"

lemma updown_append [simp]:
  "updown [] = Some False" "updown (tr @ [e]) = updown_step (updown tr) e"
  by (simp_all add: updown_def)

lemma updown_append2 [simp]: "updown (tr @ [e, e']) = updown_step (updown_step (updown tr) e) e'"
  by (simp add: updown_def)

definition busy :: "fsm_state \<Rightarrow> bool" where
  "busy s \<longleftrightarrow> s \<in> {CLOSING, STOPPING, REQSENT, ACKRCVD, ACKSENT}"

text \<open>\<open>strict\<close>: no Terminate-Ack was received in the state \<open>OPENED\<close>.\<close>

definition fsm_inv :: "bool \<Rightarrow> 'u fsm \<Rightarrow> bool" where
  "fsm_inv strict f \<longleftrightarrow> (busy (f_state f) \<longrightarrow> f_timer f) \<and> (f_state f = ACKRCVD \<longrightarrow> f_seen_ack f) \<and>
     cb_up (f_callbacks f) \<noteq> None \<and> cb_down (f_callbacks f) \<noteq> None \<and>
     (strict \<longrightarrow> (f_timer f \<longrightarrow> busy (f_state f)) \<and> updown (f_trace f) = Some (f_state f = OPENED))"

lemma state_upd_same [simp]: "f\<lparr>f_state := st\<rparr> = f \<longleftrightarrow> f_state f = st" "f = f\<lparr>f_state := st\<rparr> \<longleftrightarrow> f_state f = st"
  by (cases f, auto)+

lemma fsm_invD:
  assumes "fsm_inv c f"
  shows "busy (f_state f) \<Longrightarrow> f_timer f" "f_state f = ACKRCVD \<Longrightarrow> f_seen_ack f" "cb_up (f_callbacks f) \<noteq> None"
    "cb_down (f_callbacks f) \<noteq> None" "c \<Longrightarrow> f_timer f = busy (f_state f)" "c \<Longrightarrow> updown (f_trace f) = Some (f_state f = OPENED)"
  using assms unfolding fsm_inv_def by blast+

lemma inv_upd [simp]:
  "fsm_inv c (f\<lparr>f_upper := u\<rparr>) = fsm_inv c f" "fsm_inv c (f\<lparr>f_nakloops := n\<rparr>) = fsm_inv c f"
  "fsm_inv c (f\<lparr>f_retransmits := r\<rparr>) = fsm_inv c f" "fsm_inv c (f\<lparr>f_term_reason := t\<rparr>) = fsm_inv c f"
  "fsm_inv c (f\<lparr>f_id := i\<rparr>) = fsm_inv c f"
  by (simp_all add: fsm_inv_def)

lemma inv_seen: "fsm_inv c f \<Longrightarrow> fsm_inv c (f\<lparr>f_seen_ack := True\<rparr>)"
  by (simp add: fsm_inv_def)

lemma sdata_inv:
  assumes "fsm_inv c f" "fsm_sdata f code i d n = Some f'"
  shows "fsm_inv c f'"
proof -
  obtain p where "f' = f\<lparr>f_trace := f_trace f @ [Sent p]\<rparr>" using sdata_SomeD [OF assms(2)] by blast
  then show ?thesis using assms(1) by (simp add: fsm_inv_def)
qed

lemma callback_inv:
  assumes "fsm_inv c f" "\<forall>e \<in> set ev. e \<notin> {Up, Down}"
  shows "fsm_inv c (callback g ev f)"
proof -
  have "updown (tr @ ev) = updown tr" for tr using assms(2)
  proof (induction ev rule: rev_induct)
    case (snoc e ev)
    then have "updown_step (updown tr) e = updown tr" by (cases "updown tr"; cases e; auto)
    then show ?case using snoc by (simp flip: append_assoc)
  qed simp
  then show ?thesis using assms(1) by (simp add: fsm_inv_def callback_trace)
qed

text \<open>Asking again, from a state of the negotiation; starting the negotiation; leaving \<open>OPENED\<close>.\<close>

lemma ask_again_inv:
  assumes "fsm_inv c f" "f_state f \<in> {REQSENT, ACKSENT}" "fsm_sconfreq (UNTIMEOUT f) rt = Some f'"
  shows "fsm_inv c f'"
proof -
  obtain p where "f_state f' = f_state f" "f_timer f'" "\<not> f_seen_ack f'"
    "f_callbacks f' = f_callbacks f" "f_trace f' = f_trace f @ [Sent p]" using sconfreq_brief [OF assms(3)] by (auto simp: UNTIMEOUT_def)
  with fsm_invD [OF assms(1)] assms(2) show ?thesis unfolding fsm_inv_def busy_def by (elim insertE emptyE; simp)
qed

lemma ask_inv:
  assumes "fsm_inv c f" "f_state f \<noteq> OPENED" "fsm_sconfreq f rt = Some f' \<or> fsm_sconfreq (UNTIMEOUT f) rt = Some f'"
  shows "fsm_inv c (f'\<lparr>f_state := REQSENT\<rparr>)"
proof -
  have "\<exists>p. f_timer f' \<and> f_callbacks f' = f_callbacks f \<and> f_trace f' = f_trace f @ [Sent p]"
    using assms(3) by (elim disjE sconfreq_brief) (auto simp: UNTIMEOUT_def)
  then show ?thesis using fsm_invD [OF assms(1)] assms(2) unfolding fsm_inv_def busy_def by (elim exE conjE) simp
qed

lemma down_trace:
  assumes "fsm_inv c f" "f_state f = OPENED" "c"
  shows "updown (f_trace (callback cb_down [Down] f)) = Some False"
  using fsm_invD [OF assms(1)] assms(2,3) by (simp add: callback_trace)

lemma reopen_inv:
  assumes "fsm_inv c f" "f_state f = OPENED" "fsm_sconfreq (callback cb_down [Down] f) rt = Some f'" "busy st" "st \<noteq> ACKRCVD"
  shows "fsm_inv c (f'\<lparr>f_state := st\<rparr>)"
proof -
  obtain p where "f_timer f'" "f_callbacks f' = f_callbacks f" "f_trace f' = f_trace (callback cb_down [Down] f) @ [Sent p]"
    using sconfreq_brief [OF assms(3)] by auto
  moreover have "st \<noteq> OPENED" using assms(4) by (auto simp: busy_def)
  ultimately show ?thesis using fsm_invD [OF assms(1)] down_trace [OF assms(1,2)] assms(4,5) unfolding fsm_inv_def by simp
qed

lemma opened_inv:
  assumes "fsm_inv c f" "f_state f \<in> {ACKRCVD, ACKSENT}"
  shows "fsm_inv c (callback cb_up [Up] ((UNTIMEOUT f)\<lparr>f_state := OPENED\<rparr>))"
proof -
  have "f_state f \<noteq> OPENED" using assms(2) by auto
  then show ?thesis using fsm_invD [OF assms(1)]
    by (cases "cb_up (f_callbacks f)") (simp_all add: fsm_inv_def busy_def callback_trace)
qed

lemma quiet_inv:
  assumes "fsm_inv c f" "f_state f \<noteq> OPENED" "\<not> busy st" "st \<noteq> OPENED"
  shows "fsm_inv c ((UNTIMEOUT f)\<lparr>f_state := st\<rparr>)"
  using fsm_invD [OF assms(1)] assms(2-4) by (auto simp: fsm_inv_def busy_def)

lemma still_inv:
  assumes "fsm_inv c f" "\<not> busy (f_state f)" "f_state f \<noteq> OPENED" "\<not> busy st" "st \<noteq> OPENED"
  shows "fsm_inv c (f\<lparr>f_state := st\<rparr>)"
  using fsm_invD [OF assms(1)] assms(2-5) by (auto simp: fsm_inv_def busy_def)

lemma busy_inv:
  assumes "fsm_inv c f" "busy (f_state f)" "busy st" "st \<noteq> ACKRCVD"
  shows "fsm_inv c (f\<lparr>f_state := st\<rparr>)"
proof -
  have "st \<noteq> OPENED" "f_state f \<noteq> OPENED" using assms(2,3) by (auto simp: busy_def)
  then show ?thesis using fsm_invD [OF assms(1)] assms(2-4) by (simp add: fsm_inv_def)
qed

lemma term_inv:
  assumes "fsm_inv c f" "busy (f_state f) \<or> f_state f = OPENED" "st \<in> {CLOSING, STOPPING}"
    and "fsm_stermreq ((if f_state f \<noteq> OPENED then UNTIMEOUT f else callback cb_down [Down] f)\<lparr>f_retransmits := n\<rparr>) = Some f'"
  shows "fsm_inv c (f'\<lparr>f_state := st\<rparr>)"
proof -
  define g where "g = (if f_state f \<noteq> OPENED then UNTIMEOUT f else callback cb_down [Down] f)"
  have g: "c \<Longrightarrow> updown (f_trace g) = Some False" "f_callbacks g = f_callbacks f"
    using fsm_invD(6) [OF assms(1)] down_trace [OF assms(1)] by (auto simp: g_def)
  obtain p where "f_timer f'" "f_callbacks f' = f_callbacks g" "f_trace f' = f_trace g @ [Sent p]"
    using stermreq_brief [OF assms(4)] unfolding g_def [symmetric] by auto
  moreover have "st \<noteq> OPENED" "busy st" "st \<noteq> ACKRCVD" using assms(3) by (auto simp: busy_def)
  ultimately show ?thesis using fsm_invD [OF assms(1)] g unfolding fsm_inv_def by simp
qed

lemma timer_state [simp]: "f\<lparr>f_state := st, f_timer := b\<rparr> = f\<lparr>f_timer := b, f_state := st\<rparr>"
  by simp

lemmas busy_simps [simp] = busy_def

lemma lowerup_inv:
  assumes "fsm_inv c f" "fsm_lowerup f = Some f'"
  shows "fsm_inv c f'"
  using assms(2) still_inv [OF assms(1)] ask_inv [OF assms(1)] assms(1)
  by (cases "f_state f") (auto simp: fsm_lowerup_def split: if_splits)

lemma lowerdown_inv:
  assumes "fsm_inv c f"
  shows "fsm_inv c (fsm_lowerdown f)"
proof (cases "f_state f = OPENED")
  case True
  then show ?thesis using fsm_invD [OF assms] down_trace [OF assms True] by (simp add: fsm_lowerdown_def fsm_inv_def)
next
  case False
  then show ?thesis using quiet_inv [OF assms False] still_inv [OF assms] callback_inv [of c _ "[Starting]"] assms
    by (cases "f_state f") (auto simp: fsm_lowerdown_def)
qed

lemma restart_inv: "fsm_inv c f \<Longrightarrow> fsm_restart f = Some f' \<Longrightarrow> fsm_inv c f'"
  using lowerup_inv [of c "fsm_lowerdown f" f'] lowerdown_inv [of c f] by (auto simp: fsm_restart_def split: if_splits)

lemma open_inv:
  assumes "fsm_inv c f" "fsm_open f = Some f'"
  shows "fsm_inv c f'"
  using assms(2) still_inv [OF assms(1)] ask_inv [OF assms(1)] callback_inv [of c _ "[Starting]"] restart_inv [of c]
    busy_inv [OF assms(1), of STOPPING] assms(1)
  by (cases "f_state f") (auto simp: fsm_open_def split: if_splits)

lemma close_inv:
  assumes "fsm_inv c f" "fsm_close f r = Some f'"
  shows "fsm_inv c f'"
proof -
  let ?f = "f\<lparr>f_term_reason := r\<rparr>"
  have i: "fsm_inv c ?f" using assms(1) by simp
  show ?thesis using assms(2) i still_inv [OF i] busy_inv [OF i, of CLOSING] term_inv [OF i, of CLOSING "f_maxtermtransmits f"]
    by (cases "f_state f") (auto simp: fsm_close_def Let_def bind_eq_Some_conv)
qed

lemma protreject_inv:
  assumes "fsm_inv c f" "fsm_protreject f = Some f'"
  shows "fsm_inv c f'"
  using assms quiet_inv [OF assms(1)] still_inv [OF assms(1)] callback_inv [of c _ "[Finished]"]
    term_inv [OF assms(1), of STOPPING "f_maxtermtransmits f" ]
  by (cases "f_state f") (auto simp: fsm_protreject_def Let_def bind_eq_Some_conv)

lemma timeout_inv:
  assumes "fsm_inv c f" "fsm_timeout f = Some f'"
  shows "fsm_inv c f'"
proof -
  have t: "fsm_inv c f1" if "fsm_stermreq (UNTIMEOUT f) = Some f1" "f_state f \<in> {CLOSING, STOPPING}" for f1
  proof -
    have "fsm_stermreq ((if f_state f \<noteq> OPENED then UNTIMEOUT f else callback cb_down [Down] f)\<lparr>f_retransmits := f_retransmits f\<rparr>) = Some f1"
      using that by auto
    from term_inv [OF assms(1) _ _ this, of "f_state f"] have "fsm_inv c (f1\<lparr>f_state := f_state f\<rparr>)" using that(2) by auto
    moreover have "f1\<lparr>f_state := f_state f\<rparr> = f1" using stermreq_brief [OF that(1)] by simp
    ultimately show ?thesis by (simp only:)
  qed
  have r: "fsm_inv c (callback cb_retransmit [] f)" by (rule callback_inv [OF assms(1)]) simp
  have n: "fsm_inv c (if f_state f1 = ACKRCVD then f1\<lparr>f_state := REQSENT\<rparr> else f1)"
    if "fsm_sconfreq (callback cb_retransmit [] (UNTIMEOUT f)) True = Some f1" "f_state f \<in> {REQSENT, ACKRCVD, ACKSENT}" for f1
  proof -
    have "callback cb_retransmit [] (UNTIMEOUT f) = UNTIMEOUT (callback cb_retransmit [] f)"
      by (cases "cb_retransmit (f_callbacks f)") (simp_all add: callback_def)
    then have q: "fsm_sconfreq (UNTIMEOUT (callback cb_retransmit [] f)) True = Some f1" using that(1) by simp
    then have "f_state f1 = f_state f" by (auto elim!: sconfreq_brief)
    then show ?thesis using ask_again_inv [OF r _ q] ask_inv [OF r _ disjI2 [OF q]] that(2) by auto
  qed
  have z: "fsm_inv c (UNTIMEOUT f)" if "\<not> busy (f_state f)"
    using fsm_invD [OF assms(1)] that by (auto simp: fsm_inv_def)
  show ?thesis using assms t n z quiet_inv [OF assms(1)] callback_inv [of c _ "[Finished]"]
    by (cases "f_state f") (auto simp: fsm_timeout_def Let_def bind_eq_Some_conv split: if_splits)
qed

lemma rconfack_inv:
  assumes inv: "fsm_inv c f" and r: "fsm_rconfack f i inp = Some f'"
  shows "fsm_inv c f'"
proof (cases "i \<noteq> f_reqid f \<or> f_seen_ack f")
  case True
  then show ?thesis using assms by (simp add: fsm_rconfack_def)
next
  case False
  obtain rr u where a: "(case cb_ackci (f_callbacks f) of Some ackci \<Rightarrow> ackci (f_upper f) inp
            | None \<Rightarrow> (if inp = [] then 1 else 0, f_upper f)) = (rr, u)" by fastforce
  let ?f = "f\<lparr>f_upper := u, f_seen_ack := True\<rparr>"
  have i2: "fsm_inv c (f\<lparr>f_upper := u\<rparr>)" "fsm_inv c ?f" using inv by (simp_all add: inv_seen)
  have nr: "f_state f \<noteq> ACKRCVD" using inv False by (auto simp: fsm_inv_def)
  have e: "fsm_rconfack f i inp = (if rr = 0 then Some (f\<lparr>f_upper := u\<rparr>) else case f_state f of
             CLOSED \<Rightarrow> fsm_sdata ?f TERMACK i [] 0
           | STOPPED \<Rightarrow> fsm_sdata ?f TERMACK i [] 0
           | REQSENT \<Rightarrow> Some (?f\<lparr>f_state := ACKRCVD, f_retransmits := f_maxconfreqtransmits f\<rparr>)
           | ACKRCVD \<Rightarrow> map_option (\<lambda>f. f\<lparr>f_state := REQSENT\<rparr>) (fsm_sconfreq (UNTIMEOUT ?f) False)
           | ACKSENT \<Rightarrow> Some (callback cb_up [Up]
               ((UNTIMEOUT ?f)\<lparr>f_state := OPENED, f_retransmits := f_maxconfreqtransmits f\<rparr>))
           | OPENED \<Rightarrow> map_option (\<lambda>f. f\<lparr>f_state := REQSENT\<rparr>) (fsm_sconfreq (callback cb_down [Down] ?f) False)
           | _ \<Rightarrow> Some ?f)"
    unfolding fsm_rconfack_def a using False by (cases "f_state f") (simp_all add: Let_def)
  have eq: "(UNTIMEOUT ?f)\<lparr>f_state := OPENED, f_retransmits := f_maxconfreqtransmits f\<rparr> =
      (UNTIMEOUT (?f\<lparr>f_retransmits := f_maxconfreqtransmits f\<rparr>))\<lparr>f_state := OPENED\<rparr>" by simp
  have o: "fsm_inv c (callback cb_up [Up] ((UNTIMEOUT ?f)\<lparr>f_state := OPENED, f_retransmits := f_maxconfreqtransmits f\<rparr>))"
    if "f_state f = ACKSENT" unfolding eq by (rule opened_inv) (use i2(2) that in simp_all)
  have q: "fsm_inv c (?f\<lparr>f_state := ACKRCVD\<rparr>)" if "f_state f = REQSENT"
    using fsm_invD [OF i2(2)] that by (simp add: fsm_inv_def)
  show ?thesis
    using r i2 o q nr sdata_inv [OF i2(2)] reopen_inv [OF i2(2), of False _ REQSENT] unfolding e
    by (cases "f_state f") (auto split: if_splits)
qed

lemma rconfnakrej_inv:
  assumes inv: "fsm_inv c f" and r: "fsm_rconfnakrej f code i inp = Some f'"
  shows "fsm_inv c f'"
proof (cases "i \<noteq> f_reqid f \<or> f_seen_ack f \<or> (if code = CONFNAK then cb_nakci (f_callbacks f) else cb_rejci (f_callbacks f)) = None")
  case True
  then show ?thesis using assms by (auto simp: fsm_rconfnakrej_def split: if_splits)
next
  case False
  then obtain p where p: "(if code = CONFNAK then cb_nakci (f_callbacks f) else cb_rejci (f_callbacks f)) = Some p"
     "i = f_reqid f" "\<not> f_seen_ack f" by blast
  obtain ret u where a: "p (f_upper f) inp = (ret, u)" by fastforce
  let ?f = "f\<lparr>f_upper := u, f_seen_ack := True\<rparr>"
  have i2: "fsm_inv c (f\<lparr>f_upper := u\<rparr>)" "fsm_inv c ?f" using inv by (simp_all add: inv_seen)
  have nr: "f_state f \<noteq> ACKRCVD" using inv p(3) by (auto simp: fsm_inv_def)
  have st: "fsm_inv c ((UNTIMEOUT ?f)\<lparr>f_state := STOPPED\<rparr>)" if "f_state f \<in> {REQSENT, ACKSENT}"
    using that i2(2) by (auto simp: fsm_inv_def busy_def)
  have e: "fsm_rconfnakrej f code i inp = (if ret = 0 then Some (f\<lparr>f_upper := u\<rparr>)
      else if f_state f \<in> {CLOSED, STOPPED} then fsm_sdata ?f TERMACK i [] 0
      else if f_state f \<in> {REQSENT, ACKSENT} then
              (if ret < 0 then Some ((UNTIMEOUT ?f)\<lparr>f_state := STOPPED\<rparr>) else fsm_sconfreq (UNTIMEOUT ?f) False)
            else if f_state f = OPENED then
              map_option (\<lambda>f. f\<lparr>f_state := REQSENT\<rparr>) (fsm_sconfreq (callback cb_down [Down] ?f) False)
            else Some ?f)"
    unfolding fsm_rconfnakrej_def p(1) using p(2,3) a nr by (simp add: Let_def)
  show ?thesis
    using r i2 st sdata_inv [OF i2(2)] ask_again_inv [OF i2(2)] reopen_inv [OF i2(2), of False _ REQSENT] unfolding e
    by (auto split: if_splits)
qed

lemma rtermreq_inv:
  assumes "fsm_inv c f" "fsm_rtermreq f i p = Some f'"
  shows "fsm_inv c f'"
proof -
  have o: "fsm_inv c (TIMEOUT ((callback cb_down [Down] f)\<lparr>f_retransmits := 0, f_state := STOPPING\<rparr>))" if "f_state f = OPENED"
    using fsm_invD [OF assms(1)] down_trace [OF assms(1) that] by (simp add: fsm_inv_def)
  show ?thesis using assms o busy_inv [OF assms(1), of REQSENT] sdata_inv [of c _ TERMACK i "[]" 0 f']
    by (cases "f_state f") (auto simp: fsm_rtermreq_def Let_def)
qed

lemma rtermack_inv:
  assumes "fsm_inv c f" "fsm_rtermack f = Some f'" "\<not> (c \<and> f_state f = OPENED)"
  shows "fsm_inv c f'"
proof (cases "f_state f = OPENED")
  case True
  have "fsm_sconfreq (callback cb_down [Down] f) False = Some f'" using assms(2) True by (simp add: fsm_rtermack_def)
  then have "f_state f' = OPENED" "f_callbacks f' = f_callbacks f" using True by (auto elim!: sconfreq_brief)
  then show ?thesis using assms(3) fsm_invD [OF assms(1)] True by (simp add: fsm_inv_def)
next
  case False
  then show ?thesis using assms(1,2) quiet_inv [OF assms(1)] busy_inv [OF assms(1), of REQSENT] callback_inv [of c _ "[Finished]"]
    by (cases "f_state f") (auto simp: fsm_rtermack_def)
qed

lemma rcoderej_inv: "fsm_inv c f \<Longrightarrow> fsm_rcoderej f inp = Some f' \<Longrightarrow> fsm_inv c f'"
  using busy_inv [of c f REQSENT] by (auto simp: fsm_rcoderej_def split: if_splits)

lemma rconfreq_inv:
  assumes inv: "fsm_inv c f" and r: "fsm_rconfreq f i inp = Some f'"
    and ns: "f_state f \<notin> {INITIAL, STARTING}"
  shows "fsm_inv c f'"
proof (cases "f_state f \<in> {CLOSED, CLOSING, STOPPING}")
  case True
  then show ?thesis using assms(1,2) sdata_inv [OF assms(1)] by (auto simp: fsm_rconfreq_def)
next
  case False
  define start where "start = (case f_state f of
            OPENED \<Rightarrow> fsm_sconfreq (callback cb_down [Down] f) False
          | STOPPED \<Rightarrow> map_option (\<lambda>f. f\<lparr>f_state := REQSENT\<rparr>) (fsm_sconfreq f False)
          | _ \<Rightarrow> Some f)"
  define ask where "ask f1 = (case cb_reqci (f_callbacks f1) of
            Some reqci \<Rightarrow> reqci (f_upper f1) inp (f_nakloops f1 \<ge> f_maxnakloops f1)
          | None \<Rightarrow> (if inp \<noteq> [] then CONFREJ else CONFACK, inp, f_upper f1))" for f1 :: "'a fsm"
  obtain f1 where f1: "start = Some f1"
    using r False unfolding fsm_rconfreq_def start_def [symmetric] by (auto simp: bind_eq_Some_conv)
  obtain code inp' u where a: "ask f1 = (code, inp', u)" by (cases "ask f1")
  obtain f2 where f2: "fsm_sdata (f1\<lparr>f_upper := u\<rparr>) code i inp' (int (length inp')) = Some f2"
     and f': "f' = fsm_answered f2 code"
    using r False f1 a unfolding fsm_rconfreq_def start_def [symmetric] ask_def [symmetric]
    by (auto simp: bind_eq_Some_conv Let_def)
  have f1': "if f_state f1 = ACKRCVD then fsm_inv c f1 else \<forall>st. busy st \<longrightarrow> st \<noteq> ACKRCVD \<longrightarrow> fsm_inv c (f1\<lparr>f_state := st\<rparr>)"
  proof (cases "f_state f = OPENED")
    case True
    then have q: "fsm_sconfreq (callback cb_down [Down] f) False = Some f1" using f1 by (simp add: start_def)
    then have "f_state f1 = OPENED" using True by (auto elim!: sconfreq_brief)
    then show ?thesis using reopen_inv [OF inv True q] by simp
  next
    case no: False
    show ?thesis
    proof (cases "f_state f = STOPPED")
      case True
      then obtain f0 where f0: "fsm_sconfreq f False = Some f0" "f1 = f0\<lparr>f_state := REQSENT\<rparr>" using f1 by (auto simp: start_def)
      have "fsm_inv c f1" using ask_inv [OF inv no disjI1 [OF f0(1)]] f0(2) by simp
      then show ?thesis using busy_inv [of c f1] f0(2) by simp
    next
      case False
      then have "f1 = f" "busy (f_state f)" using f1 no ns \<open>f_state f \<notin> {CLOSED, CLOSING, STOPPING}\<close> by (cases "f_state f"; simp add: start_def)+
      then show ?thesis using busy_inv [OF inv] inv by simp
    qed
  qed
  obtain p where f2': "f2 = f1\<lparr>f_upper := u, f_trace := f_trace f1 @ [Sent p]\<rparr>" using sdata_SomeD [OF f2] by auto
  have s: "fsm_inv c (f2\<lparr>f_state := st\<rparr>)" if "busy st" "st \<noteq> ACKRCVD" "f_state f1 \<noteq> ACKRCVD" for st
  proof -
    have "fsm_inv c (f1\<lparr>f_state := st\<rparr>)" using f1' that by (auto simp del: busy_simps)
    then show ?thesis unfolding f2' by (simp add: fsm_inv_def)
  qed
  have s': "fsm_inv c f2" if "f_state f1 = ACKRCVD" using f1' that unfolding f2' by (simp add: fsm_inv_def)
  have st: "f_state f2 = f_state f1" by (simp add: f2')
  show ?thesis
  proof (cases "f_state f1 = ACKRCVD")
    case True
    have "fsm_inv c (callback cb_up [Up] ((UNTIMEOUT f2)\<lparr>f_state := OPENED\<rparr>))"
      by (rule opened_inv [OF s' [OF True]]) (simp add: st True)
    then show ?thesis using s' [OF True] True unfolding f' fsm_answered_def st by (simp add: Let_def)
  next
    case False
    then show ?thesis using s [of ACKSENT] s [of REQSENT] unfolding f' fsm_answered_def st by (simp add: Let_def)
  qed
qed

section \<open>Steps and runs\<close>

text \<open>The events a machine reacts to; the timer expires only when it is set.\<close>

datatype fsm_input_event = EvUp | EvDown | EvOpen | EvClose "byte list" | EvPacket "byte list" | EvProtreject | EvTimeout

inductive fsm_step :: "'u fsm \<Rightarrow> fsm_input_event \<Rightarrow> 'u fsm \<Rightarrow> bool" where
  step_up: "fsm_lowerup f = Some f' \<Longrightarrow> fsm_step f EvUp f'"
| step_down: "fsm_step f EvDown (fsm_lowerdown f)"
| step_open: "fsm_open f = Some f' \<Longrightarrow> fsm_step f EvOpen f'"
| step_close: "fsm_close f r = Some f' \<Longrightarrow> fsm_step f (EvClose r) f'"
| step_packet: "fsm_input f p = Some f' \<Longrightarrow> fsm_step f (EvPacket p) f'"
| step_protreject: "fsm_protreject f = Some f' \<Longrightarrow> fsm_step f EvProtreject f'"
| step_timeout: "f_timer f \<Longrightarrow> fsm_timeout f = Some f' \<Longrightarrow> fsm_step f EvTimeout f'"

inductive_cases fsm_packetE: "fsm_step f (EvPacket p) f'"

text \<open>A Terminate-Ack that arrives while the machine is \<open>OPENED\<close>.\<close>

definition stray_ack :: "'u fsm \<Rightarrow> fsm_input_event \<Rightarrow> bool" where
  "stray_ack f ev \<longleftrightarrow> f_state f = OPENED \<and> (\<exists>p i d. ev = EvPacket p \<and> fsm_header p = Some (TERMACK, i, d))"

text \<open>Runs of a new machine; \<open>strict\<close> runs have no stray Terminate-Ack.\<close>

inductive fsm_run :: "bool \<Rightarrow> 'u fsm \<Rightarrow> bool" for strict where
  run_init: "\<not> f_timer f \<Longrightarrow> f_trace f = [] \<Longrightarrow> cb_up (f_callbacks f) \<noteq> None \<Longrightarrow> cb_down (f_callbacks f) \<noteq> None \<Longrightarrow>
     fsm_run strict (fsm_init f)"
| run_step: "fsm_run strict f \<Longrightarrow> fsm_step f ev f' \<Longrightarrow> \<not> (strict \<and> stray_ack f ev) \<Longrightarrow> fsm_run strict f'"

lemma input_inv:
  assumes inv: "fsm_inv c f" and r: "fsm_input f pkt = Some f'" and "\<not> (c \<and> stray_ack f (EvPacket pkt))"
  shows "fsm_inv c f'"
proof (cases "fsm_header pkt = None \<or> f_state f \<in> {INITIAL, STARTING}")
  case True
  then show ?thesis using assms by (auto simp: fsm_input_def split: option.splits prod.splits)
next
  case False
  then obtain code i inp where h: "fsm_header pkt = Some (code, i, inp)" by auto
  have sa: "\<not> (c \<and> f_state f = OPENED)" if "code = TERMACK" using assms(3) h that by (auto simp: stray_ack_def)
  obtain rr u where x: "(case cb_extcode (f_callbacks f) of
               None \<Rightarrow> (0, f_upper f) | Some extcode \<Rightarrow> extcode (f_upper f) code i inp) = (rr, u)" by fastforce
  have i2: "fsm_inv c (f\<lparr>f_upper := u\<rparr>)" "fsm_inv c (f\<lparr>f_upper := u, f_id := f_id f + 1\<rparr>)" using inv by simp_all
  have ns: "f_state f \<notin> {INITIAL, STARTING}" using False by blast
  show ?thesis
    using r False x i2 sa sdata_inv [OF i2(2)] rconfreq_inv [OF inv _ ns, of i inp f'] rconfack_inv [OF inv, of i inp f']
      rconfnakrej_inv [OF inv, of code i inp f'] rtermreq_inv [OF inv, of i inp f'] rtermack_inv [OF inv, of f']
      rcoderej_inv [OF inv, of inp f']
    unfolding fsm_input_def h by (auto simp: Let_def split: if_splits)
qed

lemma step_inv:
  assumes "fsm_step f ev f'" "fsm_inv c f" "\<not> (c \<and> stray_ack f ev)"
  shows "fsm_inv c f'"
  using assms
  by (cases rule: fsm_step.cases)
     (auto dest: lowerup_inv open_inv close_inv input_inv protreject_inv timeout_inv intro: lowerdown_inv)

lemma run_inv: "fsm_run c f \<Longrightarrow> fsm_inv c f"
proof (induction rule: fsm_run.induct)
  case (run_init f)
  then show ?case by (simp add: fsm_inv_def fsm_init_def)
next
  case (run_step f ev f')
  then show ?case using step_inv by blast
qed

section \<open>Absence of faults\<close>

text \<open>
  What the machine relies on: a maximum receive unit with room for a header that fits the output
  buffer, and an \<open>addci\<close> that writes no more than the room it is given.
\<close>

definition fsm_ok :: "'u fsm \<Rightarrow> bool" where
  "fsm_ok f \<longleftrightarrow> int HEADERLEN \<le> peer_mru f \<and> peer_mru f \<le> int PPP_MRU \<and>
     (\<forall>addci. cb_addci (f_callbacks f) = Some addci \<longrightarrow> (\<forall>u n. length (fst (addci u n)) \<le> nat n))"

lemma fsm_ok_cong: "f_callbacks f' = f_callbacks f \<Longrightarrow> peer_mru f' = peer_mru f \<Longrightarrow> fsm_ok f' = fsm_ok f"
  by (simp add: fsm_ok_def)

lemma fsm_ok_upd [simp]:
  "fsm_ok (f\<lparr>f_state := st\<rparr>) = fsm_ok f" "fsm_ok (f\<lparr>f_timer := b\<rparr>) = fsm_ok f" "fsm_ok (f\<lparr>f_upper := u\<rparr>) = fsm_ok f"
  "fsm_ok (f\<lparr>f_seen_ack := b\<rparr>) = fsm_ok f" "fsm_ok (f\<lparr>f_retransmits := r\<rparr>) = fsm_ok f" "fsm_ok (f\<lparr>f_term_reason := t\<rparr>) = fsm_ok f"
  "fsm_ok (f\<lparr>f_id := i\<rparr>) = fsm_ok f" "fsm_ok (callback g ev f) = fsm_ok f" "fsm_ok (fsm_lowerdown f) = fsm_ok f"
  by (auto simp: fsm_ok_def fsm_lowerdown_def split: fsm_state.splits)

lemma sdata_total: "fsm_ok f \<Longrightarrow> 0 \<le> n \<Longrightarrow> nat n \<le> length d \<Longrightarrow> \<exists>f'. fsm_sdata f code i d n = Some f'"
  by (auto simp: fsm_ok_def fsm_sdata_def Let_def HEADERLEN_def)

lemma sconfreq_total:
  assumes "fsm_ok f"
  shows "\<exists>f'. fsm_sconfreq f rt = Some f'"
proof -
  define f1 where "f1 = (if f_state f \<notin> {REQSENT, ACKRCVD, ACKSENT} then (callback cb_resetci [] f)\<lparr>f_nakloops := 0\<rparr> else f)"
  define f2 where "f2 = (if \<not> rt then f1\<lparr>f_retransmits := f_maxconfreqtransmits f1, f_id := f_id f1 + 1, f_reqid := f_id f1 + 1\<rparr> else f1)"
  define f3 where "f3 = f2\<lparr>f_seen_ack := False\<rparr>"
  have k: "f_callbacks f3 = f_callbacks f" "peer_mru f3 = peer_mru f" by (simp_all add: f3_def f2_def f1_def)
  obtain ci f4 where f4: "(case (cb_cilen (f_callbacks f3), cb_addci (f_callbacks f3)) of
         (Some cilen, Some addci) \<Rightarrow>
           (let n = cilen (f_upper f3);
                n = (if n > peer_mru f3 - int HEADERLEN then peer_mru f3 - int HEADERLEN else n);
                (ci, u) = addci (f_upper f3) n
            in (ci, f3\<lparr>f_upper := u\<rparr>))
       | _ \<Rightarrow> ([], f3)) = (ci, f4)" by fastforce
  have room: "length ci + HEADERLEN \<le> PPP_MRU" "fsm_ok f4"
  proof -
    have ok3: "fsm_ok f3" using assms fsm_ok_cong [OF k] by blast
    show "fsm_ok f4" using f4 ok3 by (auto simp: Let_def split: option.splits prod.splits)
    show "length ci + HEADERLEN \<le> PPP_MRU"
    proof (cases "cb_cilen (f_callbacks f3) = None \<or> cb_addci (f_callbacks f3) = None")
      case True
      then show ?thesis using f4 by (auto simp: HEADERLEN_def PPP_MRU_def split: option.splits)
    next
      case False
      then obtain cl ad where c: "cb_cilen (f_callbacks f3) = Some cl" "cb_addci (f_callbacks f3) = Some ad" by auto
      define n where "n = (if cl (f_upper f3) > peer_mru f3 - int HEADERLEN then peer_mru f3 - int HEADERLEN else cl (f_upper f3))"
      have "ci = fst (ad (f_upper f3) n)" using f4 c by (auto simp: Let_def n_def split: prod.splits)
      then have "length ci \<le> nat n" using ok3 c(2) by (simp add: fsm_ok_def)
      moreover have "n \<le> peer_mru f3 - int HEADERLEN" by (simp add: n_def)
      ultimately show ?thesis using ok3 by (auto simp: fsm_ok_def HEADERLEN_def PPP_MRU_def)
    qed
  qed
  obtain f5 where "fsm_sdata f4 CONFREQ (f_reqid f4) ci (int (length ci)) = Some f5" using sdata_total [OF room(2)] by fastforce
  then show ?thesis
    unfolding fsm_sconfreq_def Let_def f1_def [symmetric] f2_def [symmetric] f3_def [symmetric]
    using f4 [unfolded Let_def] room(1) by simp
qed

lemma stermreq_total:
  assumes "fsm_ok f"
  shows "\<exists>f'. fsm_stermreq f = Some f'"
proof -
  have "fsm_ok (f\<lparr>f_id := f_id f + 1, f_reqid := f_id f + 1\<rparr>)" using assms by (simp add: fsm_ok_def)
  from sdata_total [OF this, of "int (length (f_term_reason f))" "f_term_reason f" TERMREQ "f_id f + 1"]
  show ?thesis by (auto simp: fsm_stermreq_def)
qed

lemma lowerup_total: "fsm_ok f \<Longrightarrow> \<exists>f'. fsm_lowerup f = Some f'"
  using sconfreq_total [of f False] by (cases "f_state f") (auto simp: fsm_lowerup_def)

lemma rconfreq_total:
  assumes "fsm_ok f"
  shows "\<exists>f'. fsm_rconfreq f i inp = Some f'"
proof -
  have 1: "\<exists>f1. (case f_state f of
            OPENED \<Rightarrow> fsm_sconfreq (callback cb_down [Down] f) False
          | STOPPED \<Rightarrow> map_option (\<lambda>f. f\<lparr>f_state := REQSENT\<rparr>) (fsm_sconfreq f False)
          | _ \<Rightarrow> Some f) = Some f1 \<and> fsm_ok f1"
  proof (cases "f_state f \<in> {OPENED, STOPPED}")
    case True
    then show ?thesis
    proof (elim insertE emptyE)
      assume o: "f_state f = OPENED"
      obtain g where g: "fsm_sconfreq (callback cb_down [Down] f) False = Some g" using sconfreq_total assms fsm_ok_upd(8) by metis
      then have "fsm_ok g" using sconfreq_form [OF g] assms by (elim exE) (simp add: fsm_ok_def)
      then show ?thesis using o g by simp
    next
      assume o: "f_state f = STOPPED"
      obtain g where g: "fsm_sconfreq f False = Some g" using sconfreq_total assms by metis
      then have "fsm_ok g" using sconfreq_form [OF g] assms by (elim exE) (simp add: fsm_ok_def)
      then show ?thesis using o g by simp
    qed
  next
    case False
    then show ?thesis using assms by (cases "f_state f") auto
  qed
  then obtain f1 where f1: "(case f_state f of
            OPENED \<Rightarrow> fsm_sconfreq (callback cb_down [Down] f) False
          | STOPPED \<Rightarrow> map_option (\<lambda>f. f\<lparr>f_state := REQSENT\<rparr>) (fsm_sconfreq f False)
          | _ \<Rightarrow> Some f) = Some f1" "fsm_ok f1" by blast
  obtain code inp' u where a: "(case cb_reqci (f_callbacks f1) of
            Some reqci \<Rightarrow> reqci (f_upper f1) inp (f_nakloops f1 \<ge> f_maxnakloops f1)
          | None \<Rightarrow> (if inp \<noteq> [] then CONFREJ else CONFACK, inp, f_upper f1)) = (code, inp', u)"
    using prod_cases3 by blast
  obtain g where "fsm_sdata (f1\<lparr>f_upper := u\<rparr>) code i inp' (int (length inp')) = Some g"
    using sdata_total [of "f1\<lparr>f_upper := u\<rparr>" "int (length inp')" inp' code i] f1(2) by auto
  moreover obtain g' where "fsm_sdata f TERMACK i [] 0 = Some g'" using sdata_total [OF assms, of 0 "[]"] by auto
  ultimately show ?thesis unfolding fsm_rconfreq_def f1(1) using a by (simp add: Let_def)
qed

end
