(* ===== verification/Fsm_Props.thy ===== *)
theory Fsm_Props
  imports Fsm_Inv
begin

text \<open>
  Properties of the PPP state machine.
\<close>

section \<open>Auxiliary facts\<close>

declare fsm_header.simps [simp del]

lemma input_total:
  assumes "fsm_ok f"
  shows "\<exists>f'. fsm_input f p = Some f'"
proof (cases "fsm_header p")
  case None
  then show ?thesis by (simp add: fsm_input_def)
next
  case (Some h)
  obtain code i inp where h: "h = (code, i, inp)" by (cases h)
  have len: "length inp + HEADERLEN \<le> length p"
    using Some h by (cases p rule: fsm_header.cases) (auto simp: fsm_header.simps Let_def HEADERLEN_def split: if_splits)
  have s: "\<exists>f'. fsm_sdata g c j [] 0 = Some f'" if "fsm_ok g" for g :: "'a fsm" and c j using sdata_total [OF that, of 0 "[]"] by auto
  obtain rr u where x: "(case cb_extcode (f_callbacks f) of
               None \<Rightarrow> (0, f_upper f) | Some extcode \<Rightarrow> extcode (f_upper f) code i inp) = (rr, u)" by fastforce
  have "\<exists>f'. fsm_sdata (f\<lparr>f_upper := u, f_id := f_id f + 1\<rparr>) CODEREJ (f_id f + 1) p (int (length inp + HEADERLEN)) = Some f'"
    by (rule sdata_total) (use assms len in simp_all)
  moreover have "\<exists>f'. fsm_rconfack f i inp = Some f'"
  proof -
    obtain r u where "(case cb_ackci (f_callbacks f) of Some ackci \<Rightarrow> ackci (f_upper f) inp
            | None \<Rightarrow> (if inp = [] then 1 else 0, f_upper f)) = (r, u)" by fastforce
    then show ?thesis
      using s [of "f\<lparr>f_upper := u, f_seen_ack := True\<rparr>" TERMACK i] sconfreq_total [of "f\<lparr>f_upper := u, f_seen_ack := True, f_timer := False\<rparr>" False]
        sconfreq_total [of "callback cb_down [Down] (f\<lparr>f_upper := u, f_seen_ack := True\<rparr>)" False] assms
      unfolding fsm_rconfack_def by (cases "f_state f") (auto simp: Let_def)
  qed
  moreover have "\<exists>f'. fsm_rconfnakrej f code i inp = Some f'"
  proof (cases "if code = CONFNAK then cb_nakci (f_callbacks f) else cb_rejci (f_callbacks f)")
    case None
    then show ?thesis unfolding fsm_rconfnakrej_def by simp
  next
    case (Some pr)
    obtain r u where "pr (f_upper f) inp = (r, u)" by fastforce
    then show ?thesis
      using s [of "f\<lparr>f_upper := u, f_seen_ack := True\<rparr>" TERMACK i] sconfreq_total [of "f\<lparr>f_upper := u, f_seen_ack := True, f_timer := False\<rparr>" False]
        sconfreq_total [of "callback cb_down [Down] (f\<lparr>f_upper := u, f_seen_ack := True\<rparr>)" False] assms
      unfolding fsm_rconfnakrej_def Some by (auto simp: Let_def)
  qed
  moreover have "\<exists>f'. fsm_rtermreq f i inp = Some f'"
    using s assms unfolding fsm_rtermreq_def by (cases "f_state f") (simp_all add: Let_def)
  moreover have "\<exists>f'. fsm_rtermack f = Some f'"
    using sconfreq_total [of "callback cb_down [Down] f" False] assms unfolding fsm_rtermack_def by (cases "f_state f") auto
  moreover have "\<exists>f'. fsm_rcoderej f inp = Some f'" by (simp add: fsm_rcoderej_def)
  ultimately show ?thesis using rconfreq_total [OF assms, of i inp] Some h x by (auto simp: fsm_input_def Let_def)
qed

lemma timeout_total: "fsm_ok f \<Longrightarrow> \<exists>f'. fsm_timeout f = Some f'"
  using stermreq_total [of "f\<lparr>f_timer := False\<rparr>"] sconfreq_total [of "callback cb_retransmit [] (f\<lparr>f_timer := False\<rparr>)" True]
  by (cases "f_state f") (auto simp: fsm_timeout_def Let_def)

lemma open_total:
  assumes "fsm_ok f"
  shows "\<exists>f'. fsm_open f = Some f'"
proof -
  have "\<exists>f'. fsm_restart g = Some f'" if "fsm_ok g" for g :: "'a fsm"
    using lowerup_total [of "fsm_lowerdown g"] that by (simp add: fsm_restart_def)
  then show ?thesis using sconfreq_total [OF assms, of False] assms by (cases "f_state f") (auto simp: fsm_open_def)
qed

lemma close_total:
  assumes "fsm_ok f"
  shows "\<exists>f'. fsm_close f r = Some f'"
  using stermreq_total [of "f\<lparr>f_term_reason := r, f_timer := False, f_retransmits := f_maxtermtransmits f\<rparr>"]
    stermreq_total [of "(callback cb_down [Down] (f\<lparr>f_term_reason := r\<rparr>))\<lparr>f_retransmits := f_maxtermtransmits f\<rparr>"] assms
  by (cases "f_state f") (auto simp: fsm_close_def Let_def)

lemma protreject_total:
  assumes "fsm_ok f"
  shows "\<exists>f'. fsm_protreject f = Some f'"
  using stermreq_total [of "(callback cb_down [Down] f)\<lparr>f_retransmits := f_maxtermtransmits f\<rparr>"] assms
  by (cases "f_state f") (auto simp: fsm_protreject_def Let_def)

text \<open>Repeated expiry of the timer, with no packet in between.\<close>

fun timeouts :: "nat \<Rightarrow> 'u fsm \<Rightarrow> 'u fsm option" where
  "timeouts 0 f = Some f"
| "timeouts (Suc n) f = Option.bind (fsm_timeout f) (timeouts n)"

lemma timeout_retry:
  assumes "fsm_ok f" "busy (f_state f)" "0 < f_retransmits f"
  shows "\<exists>f'. fsm_timeout f = Some f' \<and> fsm_ok f' \<and> busy (f_state f') \<and> f_retransmits f' = f_retransmits f - 1 \<and>
     (f_state f' = CLOSING \<longleftrightarrow> f_state f = CLOSING)"
proof -
  obtain f' where f': "fsm_timeout f = Some f'" using timeout_total [OF assms(1)] by blast
  show ?thesis
  proof (cases "f_state f \<in> {CLOSING, STOPPING}")
    case True
    then have "fsm_stermreq (f\<lparr>f_timer := False\<rparr>) = Some f'" using f' assms(3) by (auto simp: fsm_timeout_def Let_def)
    from stermreq_form [OF this] show ?thesis using assms True f' by (elim exE) (auto simp: fsm_ok_def)
  next
    case False
    then obtain g where g: "fsm_sconfreq (callback cb_retransmit [] (f\<lparr>f_timer := False\<rparr>)) True = Some g"
      "f' = (if f_state g = ACKRCVD then g\<lparr>f_state := REQSENT\<rparr> else g)"
      using f' assms(2,3) by (auto simp: fsm_timeout_def Let_def bind_eq_Some_conv)
    from sconfreq_form [OF g(1)] have "f_state g = f_state f" "f_retransmits g = f_retransmits f - 1" "fsm_ok g"
      using assms(1) by (auto simp: fsm_ok_def)
    then show ?thesis using f' g(2) False assms(2) by auto
  qed
qed

lemma timeout_last:
  assumes "busy (f_state f)" "f_retransmits f \<le> 0"
  shows "\<exists>f'. fsm_timeout f = Some f' \<and> \<not> f_timer f' \<and> f_state f' = (if f_state f = CLOSING then CLOSED else STOPPED)"
  using assms by (cases "f_state f") (auto simp: fsm_timeout_def Let_def)

lemma getshort:
  assumes "n < 2 ^ 16"
  shows "GETSHORT (of_nat (n div 256)) (of_nat n) = n"
proof -
  have u: "unat (of_nat (n div 256) :: byte) = n div 256" "unat (of_nat n :: byte) = n mod 256"
    using assms by (simp_all add: unat_of_nat)
  have "push_bit 8 (n div 256) OR (n mod 256) = push_bit 8 (n div 256) + n mod 256"
    by (rule disjunctive_add [symmetric]) (auto simp: bit_push_bit_iff bit_take_bit_iff simp flip: take_bit_eq_mod [of 8, simplified])
  also have "\<dots> = n" by (simp add: push_bit_eq_mult)
  finally show ?thesis unfolding GETSHORT_def u .
qed

lemma drop_header: "drop 4 (MAKEHEADER t @ xs) = xs"
  by (simp add: MAKEHEADER_def PUTSHORT_def)

lemma header4 [simp]: "fsm_header [c, i, 0, 4] = Some (c, i, [])"
  by (simp add: fsm_header.simps GETSHORT_def HEADERLEN_def)



text \<open>A machine without options to negotiate, after its first Configure-Request and when it is open.\<close>

definition ex_cb :: "unit fsm_callbacks" where
  "ex_cb = \<lparr>cb_resetci = None, cb_cilen = None, cb_addci = None, cb_ackci = None, cb_nakci = None, cb_rejci = None,
     cb_reqci = None, cb_up = Some id, cb_down = Some id, cb_starting = None, cb_finished = None, cb_retransmit = None,
     cb_extcode = None\<rparr>"

definition ex_new :: "unit fsm" where
  "ex_new = \<lparr>f_protocol = 0xc021, f_state = INITIAL, f_flags = 0, f_id = 0, f_reqid = 0, f_seen_ack = False, f_timeouttime = 0,
     f_maxconfreqtransmits = 0, f_retransmits = 0, f_maxtermtransmits = 0, f_nakloops = 0, f_maxnakloops = 0,
     f_callbacks = ex_cb, f_term_reason = [], peer_mru = 1500, f_timer = False, f_trace = [], f_upper = ()\<rparr>"

definition ex_req :: "unit fsm" where
  "ex_req = the (Option.bind (fsm_lowerup (fsm_init ex_new)) fsm_open)"

definition ex_open :: "unit fsm" where
  "ex_open = the (Option.bind (fsm_input ex_req [CONFREQ, 7, 0, 4]) (\<lambda>f. fsm_input f [CONFACK, 1, 0, 4]))"

lemmas ex_eval = fsm_lowerup_def fsm_open_def fsm_init_def ex_new_def ex_cb_def fsm_sconfreq_def fsm_sdata_def callback_def
  fsm_input_def fsm_rconfreq_def fsm_rconfack_def fsm_answered_def HEADERLEN_def PPP_MRU_def OPT_SILENT_def
  FSM_DEFTIMEOUT_def FSM_DEFMAXTERMREQS_def FSM_DEFMAXCONFREQS_def FSM_DEFMAXNAKLOOPS_def fsm_codes Let_def

lemma ex_req_run: "fsm_run c ex_req" "f_state ex_req = REQSENT" "f_retransmits ex_req = 9" "f_reqid ex_req = 1" "\<not> f_seen_ack ex_req"
  "f_callbacks ex_req = ex_cb" "fsm_ok ex_req"
proof -
  have r0: "fsm_run c (fsm_init ex_new)" by (rule run_init) (simp_all add: ex_new_def ex_cb_def)
  obtain m1 where m1: "fsm_lowerup (fsm_init ex_new) = Some m1" by (simp add: fsm_lowerup_def fsm_init_def)
  then have r1: "fsm_run c m1" using run_step [OF r0 step_up [OF m1]] by (simp add: stray_ack_def)
  have m1': "fsm_ok m1" using m1 by (auto simp: fsm_lowerup_def fsm_init_def ex_new_def ex_cb_def fsm_ok_def HEADERLEN_def PPP_MRU_def)
  obtain m2 where m2: "fsm_open m1 = Some m2" using open_total [OF m1'] by blast
  then have "fsm_run c m2" using run_step [OF r1 step_open [OF m2]] by (simp add: stray_ack_def)
  moreover have "ex_req = m2" using m1 m2 by (simp add: ex_req_def)
  ultimately show "fsm_run c ex_req" by simp
  show "f_state ex_req = REQSENT" "f_retransmits ex_req = 9" "f_reqid ex_req = 1" "\<not> f_seen_ack ex_req" "f_callbacks ex_req = ex_cb"
    "fsm_ok ex_req"
    by (simp_all add: ex_req_def ex_eval fsm_ok_def)
qed

lemma ex_open_run: "fsm_run c ex_open" "f_state ex_open = OPENED" "fsm_ok ex_open"
proof -
  obtain m1 where m1: "fsm_input ex_req [CONFREQ, 7, 0, 4] = Some m1" using input_total [OF ex_req_run(7)] by blast
  have r1: "fsm_run c m1" using run_step [OF ex_req_run(1) step_packet [OF m1]] ex_req_run(2) by (simp add: stray_ack_def)
  have m1': "fsm_ok m1" "f_state m1 = ACKSENT" using m1 by (auto simp: ex_req_def ex_eval fsm_ok_def)
  obtain m2 where m2: "fsm_input m1 [CONFACK, 1, 0, 4] = Some m2" using input_total [OF m1'(1)] by blast
  then have "fsm_run c m2" using run_step [OF r1 step_packet [OF m2]] m1'(2) by (simp add: stray_ack_def)
  moreover have "ex_open = m2" using m1 m2 by (simp add: ex_open_def)
  ultimately show "fsm_run c ex_open" by simp
  show "f_state ex_open = OPENED" "fsm_ok ex_open"
    by (simp_all add: ex_open_def ex_req_def ex_eval fsm_ok_def)
qed

section \<open>Properties\<close>



text \<open>
  C13: As long as no Terminate-Ack arrives in the state \<open>OPENED\<close>, the calls of \<open>up\<close> and \<open>down\<close>
  alternate, the last one is \<open>up\<close> exactly in \<open>OPENED\<close>, and the timer is set exactly in the states that
  wait for an answer.
\<close>

theorem fsm_up_down:
  assumes "fsm_run True f"
  shows "updown (f_trace f) = Some (f_state f = OPENED) \<and> f_timer f = busy (f_state f)"
  using run_inv [OF assms] by (auto simp: fsm_inv_def)

theorem fsm_up_down_witness: "updown (f_trace ex_open) = Some True \<and> \<not> f_timer ex_open"
  using fsm_up_down [OF ex_open_run(1)] ex_open_run(2) by simp

text \<open>
  C27: With a sensible maximum receive unit and an \<open>addci\<close> that respects the room it is given, every
  event is handled in every state without a fault.
\<close>

theorem fsm_no_fault:
  assumes "fsm_ok f"
  shows "(\<exists>f'. fsm_lowerup f = Some f') \<and> (\<exists>f'. fsm_open f = Some f') \<and> (\<exists>f'. fsm_close f r = Some f') \<and>
     (\<exists>f'. fsm_input f p = Some f') \<and> (\<exists>f'. fsm_protreject f = Some f') \<and> (\<exists>f'. fsm_timeout f = Some f')"
  using lowerup_total open_total close_total input_total protreject_total timeout_total assms by blast

theorem fsm_no_fault_witness: "(\<exists>f'. fsm_close ex_open [] = Some f') \<and> (\<exists>f'. fsm_input ex_open [9, 0, 0, 4] = Some f')"
  using fsm_no_fault [OF ex_open_run(3), of "[]" "[9, 0, 0, 4]"] by blast

text \<open>
  C28: When the peer does not answer, the machine gives up after as many expiries of the timer as it
  has retransmissions left, plus one: it ends in \<open>CLOSED\<close> or \<open>STOPPED\<close> with no timer.
\<close>

theorem fsm_gives_up:
  assumes "fsm_ok f" "busy (f_state f)"
  shows "\<exists>f'. timeouts (nat (f_retransmits f) + 1) f = Some f' \<and> \<not> f_timer f' \<and>
     f_state f' = (if f_state f = CLOSING then CLOSED else STOPPED)"
  using assms
proof (induction "nat (f_retransmits f)" arbitrary: f)
  case 0
  then show ?case using timeout_last [of f] by auto
next
  case (Suc n)
  have "0 < f_retransmits f" using Suc.hyps(2) by simp
  then obtain f' where f': "fsm_timeout f = Some f'" "fsm_ok f'" "busy (f_state f')" "f_retransmits f' = f_retransmits f - 1"
     "f_state f' = CLOSING \<longleftrightarrow> f_state f = CLOSING" using timeout_retry [OF Suc.prems] by blast
  then have "n = nat (f_retransmits f')" using Suc.hyps(2) by simp
  moreover have "timeouts (nat (f_retransmits f) + 1) f = timeouts (nat (f_retransmits f') + 1) f'"
    using f'(1) Suc.hyps(2) calculation by simp
  ultimately show ?case using Suc.hyps(1) [of f'] f'(2,3,5) by simp
qed

theorem fsm_gives_up_witness: "\<exists>f'. timeouts 10 ex_req = Some f' \<and> f_state f' = STOPPED"
  using fsm_gives_up [OF ex_req_run(7)] ex_req_run(2,3) by auto

text \<open>
  C30: A packet the machine sends is read by the machine of the peer as it was meant: the code, the
  identifier and the data, cut to the maximum receive unit.
\<close>

theorem fsm_send_receive:
  assumes "fsm_sdata f code i data n = Some f'"
  shows "\<exists>pkt. f_trace f' = f_trace f @ [Sent pkt] \<and>
     fsm_header (drop 4 pkt) = Some (code, i, take (nat (min n (peer_mru f - int HEADERLEN))) data)"
proof -
  define k where "k = nat (min n (peer_mru f - int HEADERLEN))"
  have k: "k \<le> length data" "k + HEADERLEN \<le> PPP_MRU"
     "f_trace f' = f_trace f @ [Sent (MAKEHEADER (f_protocol f) @ [code, i] @ PUTSHORT (k + HEADERLEN) @ take k data)]"
    using assms by (auto simp: fsm_sdata_def Let_def k_def min_def split: if_splits)
  have "k + HEADERLEN < 2 ^ 16" using k(2) by (simp add: PPP_MRU_def)
  then have "GETSHORT (of_nat ((k + HEADERLEN) div 256)) (of_nat (k + HEADERLEN)) = k + HEADERLEN" by (rule getshort)
  then have "fsm_header ([code, i] @ PUTSHORT (k + HEADERLEN) @ take k data) = Some (code, i, take k data)"
    using k(1) by (simp add: fsm_header.simps PUTSHORT_def HEADERLEN_def)
  then show ?thesis using k(3) unfolding k_def [symmetric] by (intro exI conjI) (assumption, simp only: drop_header)
qed

theorem fsm_send_receive_witness:
  "\<exists>f' pkt. fsm_sdata ex_open TERMREQ 3 [1, 2] 2 = Some f' \<and> f_trace f' = f_trace ex_open @ [Sent pkt] \<and>
     fsm_header (drop 4 pkt) = Some (TERMREQ, 3, [1, 2])"
proof -
  obtain f' where f': "fsm_sdata ex_open TERMREQ 3 [1, 2] 2 = Some f'" using sdata_total [OF ex_open_run(3), of 2 "[1, 2]"] by auto
  have "peer_mru ex_open = 1500" by (simp add: ex_open_def ex_req_def ex_eval)
  then show ?thesis using fsm_send_receive [OF f'] f' by (auto simp: HEADERLEN_def)
qed



text \<open>
  C39: A Terminate-Ack received in \<open>OPENED\<close> takes the protocol above down and asks for a new
  configuration but leaves the machine in \<open>OPENED\<close> with the timer set; the next loss of the lower layer
  takes the protocol above down a second time.
\<close>

theorem fsm_stray_termack:
  assumes "fsm_run True f" "fsm_ok f" "f_state f = OPENED" "fsm_header p = Some (TERMACK, i, d)"
  shows "\<exists>f'. fsm_input f p = Some f' \<and> f_state f' = OPENED \<and> f_timer f' \<and> updown (f_trace (fsm_lowerdown f')) = None"
proof -
  have inv: "fsm_inv True f" by (rule run_inv [OF assms(1)])
  obtain f' where f': "fsm_sconfreq (callback cb_down [Down] f) False = Some f'"
    using sconfreq_total assms(2) fsm_ok_upd(8) by metis
  then obtain q where q: "f_state f' = OPENED" "f_timer f'" "f_callbacks f' = f_callbacks f"
     "f_trace f' = f_trace (callback cb_down [Down] f) @ [Sent q]" using assms(3) by (elim sconfreq_brief) simp
  have "fsm_input f p = Some f'" using assms(3,4) f' by (simp add: fsm_input_def fsm_rtermack_def fsm_codes)
  moreover have "updown (f_trace f') = Some False" using down_trace [OF inv assms(3)] q(4) by simp
  then have "updown (f_trace (fsm_lowerdown f')) = None"
    using q(1,3) fsm_invD(4) [OF inv] by (auto simp: fsm_lowerdown_def callback_trace)
  ultimately show ?thesis using q(1,2) by blast
qed

theorem fsm_stray_termack_witness:
  "\<exists>f'. fsm_input ex_open [TERMACK, 9, 0, 4] = Some f' \<and> f_state f' = OPENED \<and> f_timer f' \<and>
     updown (f_trace (fsm_lowerdown f')) = None"
  by (rule fsm_stray_termack [OF ex_open_run(1,3,2), of _ 9 "[]"]) simp

end
