(* ===== verification/Canonicalize.thy ===== *)
theory Canonicalize
  imports View_Prelude
begin

text \<open>
  Model of \<open>src/xmview-os/xmview/canonicalize.c\<close>: the translation of a path name into its canonical
  absolute form inside the current root.

  \<open>ebuf\<close>, \<open>start\<close> and \<open>end\<close> are represented by the string that is still to be read (from \<open>start\<close> to
  the final NUL), and \<open>resolved\<close> with a pointer \<open>dest\<close> into it by the characters before \<open>dest\<close>.
  The file system is a parameter (\<open>host\<close>): the answers of \<open>um_x_lstat64\<close>, \<open>um_x_readlink\<close> and
  \<open>um_x_access\<close>, which do not change during one translation.  Writing beyond the end of
  \<open>resolved\<close> is the result \<open>FAULT\<close>.
\<close>

definition PATHMAX :: nat where "PATHMAX = 4096"
definition MAXSYMLINKS :: nat where "MAXSYMLINKS = 20"

definition E_NOENT :: int where "E_NOENT = 2"
definition E_NOTDIR :: int where "E_NOTDIR = 20"
definition E_INVAL :: int where "E_INVAL = 22"
definition E_NAMETOOLONG :: int where "E_NAMETOOLONG = 36"
definition E_LOOP :: int where "E_LOOP = 40"

definition mode_fmt :: "nat \<Rightarrow> nat" where "mode_fmt mode = (mode AND 0xF000)"
definition S_ISLNK :: "nat \<Rightarrow> bool" where "S_ISLNK mode \<longleftrightarrow> mode_fmt mode = 0xA000"
definition S_ISDIR :: "nat \<Rightarrow> bool" where "S_ISDIR mode \<longleftrightarrow> mode_fmt mode = 0x4000"

text \<open>
  \<open>h_lstat path isdotdot\<close>: the error or the mode; \<open>h_readlink path\<close>: the error or the text of the
  link; \<open>h_access path mode\<close>: 0 or the error of a test for \<open>X_OK\<close>.
\<close>

record host =
  h_lstat :: "string \<Rightarrow> bool \<Rightarrow> int + nat"
  h_readlink :: "string \<Rightarrow> int + string"
  h_access :: "string \<Rightarrow> nat \<Rightarrow> int"

record canonstruct =
  c_rest :: string
  c_num_links :: nat
  c_mode :: nat

datatype recout = DONE string | DOTDOT | ROOT | ERR int | FAULT

text \<open>\<open>recoutput\<close>: why the directory is looked up (the first time or after a jump to the root, or after \<open>..\<close>).\<close>

datatype again = AGAIN_ROOT | AGAIN_DOTDOT

definition statbuf_of :: "host \<Rightarrow> string \<Rightarrow> bool \<Rightarrow> nat \<Rightarrow> nat" where
  "statbuf_of h path isdotdot old = (case h_lstat h path isdotdot of Inl _ \<Rightarrow> old | Inr mode \<Rightarrow> mode)"

text \<open>The path of an entry: a slash is added unless the directory ends with one.\<close>

definition add_comp :: "string \<Rightarrow> string \<Rightarrow> string" where
  "add_comp res cmp = (if last res \<noteq> CHR ''/'' then res @ ''/'' @ cmp else res @ cmp)"

definition next_slash :: "string \<Rightarrow> bool" where
  "next_slash after \<longleftrightarrow> after \<noteq> [] \<and> hd after = CHR ''/''"

text \<open>The symbolic link \<open>new\<close> (an entry of \<open>res\<close>): an error, or the new rest of the path and whether it is absolute.\<close>

definition follow_link ::
  "host \<Rightarrow> nat \<Rightarrow> string \<Rightarrow> string \<Rightarrow> string \<Rightarrow> canonstruct \<Rightarrow> int + (bool \<times> canonstruct)" where
  "follow_link h rootlen res new after c =
     (if length res \<le> rootlen then Inl E_NOENT
      else if MAXSYMLINKS < c_num_links c + 1 then Inl E_LOOP
      else case h_readlink h new of
        Inl e \<Rightarrow> Inl e
      | Inr txt \<Rightarrow>
          let buf = take (PATHMAX - 1) txt in
          if PATHMAX \<le> length buf + length after then Inl E_NAMETOOLONG
          else Inr (next_slash buf, c\<lparr>c_num_links := c_num_links c + 1, c_rest := buf @ after\<rparr>))"

text \<open>
  One turn of the loop up to the recursive call: the function returns, the loop continues, or the
  function calls itself for the directory \<open>new\<close>.
\<close>

datatype turn = Return recout canonstruct | Continue canonstruct | Enter string canonstruct

definition turn_entry ::
  "host \<Rightarrow> nat \<Rightarrow> bool \<Rightarrow> string \<Rightarrow> string \<Rightarrow> string \<Rightarrow> canonstruct \<Rightarrow> turn" where
  "turn_entry h rootlen dontfollowlink res new after c = (case h_lstat h new False of
       Inl e \<Rightarrow>
         (let c = c\<lparr>c_mode := 0\<rparr> in
          if e \<noteq> E_NOENT \<or> next_slash after then Return (ERR E_NOENT) c else Return (DONE new) c)
     | Inr mode \<Rightarrow>
         (let c = c\<lparr>c_mode := mode\<rparr> in
          if S_ISLNK mode \<and> (next_slash after \<or> \<not> dontfollowlink) then
            (case follow_link h rootlen res new after c of
               Inl e \<Rightarrow> Return (ERR e) c
             | Inr (absolute, c) \<Rightarrow> if absolute then Return ROOT c else Continue c)
          else if next_slash after \<and> \<not> S_ISDIR mode then Return (ERR E_NOTDIR) c
          else if next_slash after \<and> h_access h new mode \<noteq> 0 then Return (ERR (h_access h new mode)) c
          else Enter new (c\<lparr>c_rest := after\<rparr>)))"

definition next_start :: "string \<Rightarrow> string" where "next_start s = dropWhile (\<lambda>x. x = CHR ''/'') s"
definition next_name :: "string \<Rightarrow> string" where "next_name s = takeWhile (\<lambda>x. x \<noteq> CHR ''/'') (next_start s)"
definition next_rest :: "string \<Rightarrow> string" where "next_rest s = dropWhile (\<lambda>x. x \<noteq> CHR ''/'') (next_start s)"

definition rec_turn :: "host \<Rightarrow> nat \<Rightarrow> bool \<Rightarrow> string \<Rightarrow> again \<Rightarrow> canonstruct \<Rightarrow> turn" where
  "rec_turn h rootlen dontfollowlink res recoutput c =
     (let name = next_name (c_rest c); after = next_rest (c_rest c) in
      if name = ''.'' then Continue (c\<lparr>c_rest := after\<rparr>)
      else if name = ''..'' then
        (if length res > rootlen then Return DOTDOT (c\<lparr>c_rest := after\<rparr>) else Continue (c\<lparr>c_rest := after\<rparr>))
      else
        let c = c\<lparr>c_mode := statbuf_of h res (recoutput = AGAIN_DOTDOT) (c_mode c)\<rparr> in
        if name = [] then Return (DONE res) c
        else if PATHMAX < length res + length name then Return (ERR E_NAMETOOLONG) c
        else if PATHMAX \<le> length (add_comp res name) then Return FAULT c
        else turn_entry h rootlen dontfollowlink res (add_comp res name) after c)"

partial_function (option) rec_realpath ::
  "host \<Rightarrow> nat \<Rightarrow> bool \<Rightarrow> string \<Rightarrow> again \<Rightarrow> canonstruct \<Rightarrow> (recout \<times> canonstruct) option" where
  "rec_realpath h rootlen dontfollowlink res recoutput c =
     (case rec_turn h rootlen dontfollowlink res recoutput c of
        Return r c \<Rightarrow> Some (r, c)
      | Continue c \<Rightarrow> rec_realpath h rootlen dontfollowlink res recoutput c
      | Enter new c \<Rightarrow> do {
          (r, c) \<leftarrow> rec_realpath h rootlen dontfollowlink new AGAIN_ROOT c;
          if r = DOTDOT then rec_realpath h rootlen dontfollowlink res AGAIN_DOTDOT c
          else if r = ROOT \<and> \<not> length res > rootlen then rec_realpath h rootlen dontfollowlink res AGAIN_ROOT c
          else Some (r, c)
        })"

definition cancel_trailing_slash :: "string \<Rightarrow> string" where
  "cancel_trailing_slash path = (if length path > 1 \<and> last path = CHR ''/'' then butlast path else path)"

text \<open>\<open>realpath_start\<close>: the checks of \<open>um_realpath\<close> and its first contents of \<open>ebuf\<close>, with the length of the root.\<close>

definition with_slash :: "string \<Rightarrow> string" where
  "with_slash d = (if last d \<noteq> CHR ''/'' then d @ ''/'' else d)"

definition realpath_start ::
  "string \<Rightarrow> string \<Rightarrow> string option \<Rightarrow> string option \<Rightarrow> int + (string \<times> nat)" where
  "realpath_start junk root name cwd = (case name of
       None \<Rightarrow> Inl E_INVAL
     | Some [] \<Rightarrow> Inl E_NOENT
     | Some name \<Rightarrow>
       if hd name = CHR ''/'' then
         let ebuf = with_slash root; rootlen = length ebuf in
         if PATHMAX \<le> rootlen + length name then Inl E_NAMETOOLONG
         else Inr (cancel_trailing_slash (ebuf @ tl name), rootlen)
       else case cwd of
         None \<Rightarrow> Inl E_INVAL
       | Some cwd \<Rightarrow>
         let ebuf = with_slash cwd; n = length root; b = ebuf @ junk;
             rootlen = (if take n b = root \<and> (last root = CHR ''/'' \<or> b ! n = CHR ''/'')
                        then (if last root \<noteq> CHR ''/'' then n + 1 else n) else 1) in
         if PATHMAX \<le> length ebuf + length name then Inl E_NAMETOOLONG
         else Inr (cancel_trailing_slash (ebuf @ name), rootlen))"

definition um_realpath ::
  "host \<Rightarrow> string \<Rightarrow> string \<Rightarrow> string option \<Rightarrow> string option \<Rightarrow> bool \<Rightarrow> (recout \<times> nat) option" where
  "um_realpath h junk root name cwd dontfollowlink = (case realpath_start junk root name cwd of
       Inl e \<Rightarrow> Some (ERR e, 0)
     | Inr (ebuf, rootlen) \<Rightarrow> do {
         (r, c) \<leftarrow> rec_realpath h rootlen dontfollowlink ''/'' AGAIN_ROOT
            \<lparr>c_rest = tl ebuf, c_num_links = 0, c_mode = 0\<rparr>;
         Some (r, c_mode c)
       })"

declare rec_realpath.simps [code]

end
