(* ===== verification/Canonicalize_Props.thy ===== *)
theory Canonicalize_Props
  imports Canonicalize
begin

text \<open>
  Properties of the translation of paths: it ends, its result is canonical and inside the root, it is
  the identity on canonical paths of directories; and two faults of the code.
\<close>

section \<open>Canonical paths\<close>

text \<open>A name of a file: not empty, no slash, not \<open>.\<close> or \<open>..\<close>.\<close>

definition name_ok :: "string \<Rightarrow> bool" where
  "name_ok n \<longleftrightarrow> n \<noteq> [] \<and> CHR ''/'' \<notin> set n \<and> n \<noteq> ''.'' \<and> n \<noteq> ''..''"

definition path_of :: "string list \<Rightarrow> string" where
  "path_of ns = (if ns = [] then ''/'' else concat (map (\<lambda>n. CHR ''/'' # n) ns))"

definition canonical :: "string \<Rightarrow> bool" where
  "canonical p \<longleftrightarrow> (\<exists>ns. p = path_of ns \<and> (\<forall>n \<in> set ns. name_ok n))"

lemma last_path_of: "ns \<noteq> [] \<Longrightarrow> \<forall>n \<in> set ns. name_ok n \<Longrightarrow> last (path_of ns) \<noteq> CHR ''/''"
proof (induction ns rule: rev_induct)
  case (snoc n ns)
  then have "name_ok n" by simp
  then have "last n \<in> set n" "last n \<noteq> CHR ''/''" by (auto simp: name_ok_def) (metis last_in_set)
  then show ?case using \<open>name_ok n\<close> by (auto simp: path_of_def name_ok_def)
qed simp

lemma add_comp_path:
  assumes "\<forall>m \<in> set ns. name_ok m"
  shows "add_comp (path_of ns) n = path_of (ns @ [n])"
proof (cases "ns = []")
  case True
  then show ?thesis by (simp add: path_of_def add_comp_def)
next
  case False
  then show ?thesis using last_path_of [OF False assms] by (simp add: add_comp_def) (simp add: path_of_def)
qed

lemma canonical_add: "canonical res \<Longrightarrow> name_ok n \<Longrightarrow> canonical (add_comp res n)"
proof -
  assume r: "canonical res" and n: "name_ok n"
  obtain ns where ns: "res = path_of ns" "\<forall>m \<in> set ns. name_ok m" using r unfolding canonical_def by blast
  have "add_comp res n = path_of (ns @ [n])" using add_comp_path [OF ns(2)] ns(1) by simp
  moreover have "\<forall>m \<in> set (ns @ [n]). name_ok m" using ns(2) n by simp
  ultimately show ?thesis unfolding canonical_def by blast
qed

text \<open>\<open>p\<close> is \<open>res\<close> or a path below it.\<close>

definition below :: "string \<Rightarrow> string \<Rightarrow> bool" where
  "below res p \<longleftrightarrow> (\<exists>ns ms. res = path_of ns \<and> p = path_of (ns @ ms) \<and> (\<forall>n \<in> set (ns @ ms). name_ok n))"

definition rel_path :: "string list \<Rightarrow> string \<Rightarrow> string" where
  "rel_path ns tail = concat (map ((#) CHR ''/'') ns) @ tail"

lemma rel_path_simps [simp]:
  "rel_path [] tail = tail" "rel_path (n # ns) tail = CHR ''/'' # n @ rel_path ns tail"
  "rel_path (ns @ ms) tail = rel_path ns (rel_path ms tail)"
  by (simp_all add: rel_path_def)

lemma path_of_rel: "ns \<noteq> [] \<Longrightarrow> path_of ns = rel_path ns []"
  by (simp add: path_of_def rel_path_def)

text \<open>\<open>tail\<close> may follow a name.\<close>

definition sep :: "string \<Rightarrow> bool" where
  "sep tail \<longleftrightarrow> tail = [] \<or> hd tail = CHR ''/''"

lemma sep_simps [simp]: "sep []" "sep (CHR ''/'' # s)"
  by (simp_all add: sep_def)

lemma sep_rel [simp]: "sep tail \<Longrightarrow> sep (rel_path ns tail)"
  by (cases ns) (auto simp: sep_def)

lemma name_split:
  assumes "CHR ''/'' \<notin> set n" "sep tail"
  shows "takeWhile (\<lambda>x. x \<noteq> CHR ''/'') (n @ tail) = n" "dropWhile (\<lambda>x. x \<noteq> CHR ''/'') (n @ tail) = tail"
proof -
  have "takeWhile (\<lambda>x. x \<noteq> CHR ''/'') tail = []" "dropWhile (\<lambda>x. x \<noteq> CHR ''/'') tail = tail"
    using assms(2) by (cases tail; simp add: sep_def)+
  then show "takeWhile (\<lambda>x. x \<noteq> CHR ''/'') (n @ tail) = n" "dropWhile (\<lambda>x. x \<noteq> CHR ''/'') (n @ tail) = tail"
    using assms(1) by (induction n) auto
qed

lemma rel_path_inj:
  "rel_path ns [] = rel_path ms [] \<Longrightarrow> \<forall>n \<in> set ns. name_ok n \<Longrightarrow> \<forall>n \<in> set ms. name_ok n \<Longrightarrow> ns = ms"
proof (induction ns arbitrary: ms)
  case Nil
  then show ?case by (cases ms) auto
next
  case (Cons n ns)
  then obtain k ks where ms: "ms = k # ks" by (cases ms) auto
  have s: "CHR ''/'' \<notin> set n" "CHR ''/'' \<notin> set k" "sep (rel_path ns [])" "sep (rel_path ks [])"
    using Cons.prems ms by (simp_all add: name_ok_def)
  have e: "n @ rel_path ns [] = k @ rel_path ks []" using Cons.prems(1) ms by simp
  have "n = k" using name_split(1) [OF s(1,3)] name_split(1) [OF s(2,4)] e by simp
  then show ?case using e Cons.IH [of ks] Cons.prems(2,3) ms by simp
qed

lemma path_of_inj:
  assumes "path_of ns = path_of ms" "\<forall>n \<in> set ns. name_ok n" "\<forall>n \<in> set ms. name_ok n"
  shows "ns = ms"
proof -
  have one: "l = []" if "path_of l = ''/''" "\<forall>n \<in> set l. name_ok n" for l
    using last_path_of [of l] that by (cases "l = []") auto
  show ?thesis
  proof (cases "ns = [] \<or> ms = []")
    case True
    then have "path_of ns = ''/''" "path_of ms = ''/''" using assms(1) by (auto simp: path_of_def)
    then show ?thesis using assms(2,3) one [of ns] one [of ms] by simp
  next
    case False
    then show ?thesis using rel_path_inj [of ns ms] assms by (simp add: path_of_rel)
  qed
qed

lemma below_refl: "canonical p \<Longrightarrow> below p p"
  unfolding canonical_def below_def by (metis append_Nil2)

lemma below_trans:
  assumes "below p q" "below q r"
  shows "below p r"
proof -
  obtain ns ms where 1: "p = path_of ns" "q = path_of (ns @ ms)" "\<forall>n \<in> set (ns @ ms). name_ok n" using assms(1) unfolding below_def by blast
  obtain ks ls where 2: "q = path_of ks" "r = path_of (ks @ ls)" "\<forall>n \<in> set (ks @ ls). name_ok n" using assms(2) unfolding below_def by blast
  have "ks = ns @ ms" using path_of_inj [of ks "ns @ ms"] 1 2 by auto
  then have "r = path_of (ns @ (ms @ ls))" "\<forall>n \<in> set (ns @ (ms @ ls)). name_ok n" using 2 by auto
  then show ?thesis using 1(1) unfolding below_def by blast
qed

lemma below_add:
  assumes "canonical res" "name_ok n"
  shows "below res (add_comp res n)"
proof -
  obtain ns where ns: "res = path_of ns" "\<forall>m \<in> set ns. name_ok m" using assms(1) unfolding canonical_def by blast
  have "add_comp res n = path_of (ns @ [n])" using add_comp_path [OF ns(2)] ns(1) by simp
  then show ?thesis using ns assms(2) unfolding below_def by (intro exI [of _ ns] exI [of _ "[n]"]) auto
qed

section \<open>The recursion\<close>

lemma next_split: "next_name s @ next_rest s = next_start s"
  by (simp add: next_name_def next_rest_def)

lemma next_shorter: "next_name s \<noteq> [] \<Longrightarrow> length (next_rest s) < length s"
proof -
  assume a: "next_name s \<noteq> []"
  have "length (next_name s) + length (next_rest s) = length (next_start s)"
    using arg_cong [OF next_split, of length s] by simp
  moreover have "length (next_start s) \<le> length s" by (simp add: next_start_def length_dropWhile_le)
  ultimately show ?thesis using a by (cases "next_name s") auto
qed

lemma next_name_ok: "next_name s \<notin> {[], ''.'', ''..''} \<Longrightarrow> name_ok (next_name s)"
  by (auto simp: name_ok_def next_name_def dest: set_takeWhileD)

text \<open>Every call and every turn of the loop reads a name or uses up one of the allowed links.\<close>

definition turn_rel :: "(canonstruct \<times> canonstruct) set" where
  "turn_rel = inv_image (less_than <*lex*> less_than) (\<lambda>c. (MAXSYMLINKS + 1 - c_num_links c, length (c_rest c)))"

lemma wf_turn: "wf turn_rel"
  unfolding turn_rel_def by (intro wf_inv_image wf_lex_prod wf_less_than)

lemma trans_turn: "trans turn_rel"
  unfolding turn_rel_def by (intro trans_inv_image trans_lex_prod trans_less_than)

lemma turn_rest: "length (c_rest c') < length (c_rest c) \<Longrightarrow> c_num_links c' = c_num_links c \<Longrightarrow> (c', c) \<in> turn_rel"
  by (simp add: turn_rel_def)

lemma turn_link: "c_num_links c' = c_num_links c + 1 \<Longrightarrow> c_num_links c < MAXSYMLINKS \<Longrightarrow> (c', c) \<in> turn_rel"
  unfolding turn_rel_def by (simp, linarith)

lemma turn_mode [simp]: "(c', c\<lparr>c_mode := m\<rparr>) \<in> turn_rel \<longleftrightarrow> (c', c) \<in> turn_rel"
  by (simp add: turn_rel_def)

text \<open>What a call with the directory \<open>res\<close> may return.\<close>

fun res_ok :: "nat \<Rightarrow> string \<Rightarrow> canonstruct \<Rightarrow> recout \<Rightarrow> canonstruct \<Rightarrow> bool" where
  "res_ok rootlen res c (DONE p) c' \<longleftrightarrow> below res p \<and> canonical p \<and> (length res < PATHMAX \<longrightarrow> length p < PATHMAX)"
| "res_ok rootlen res c DOTDOT c' \<longleftrightarrow> length res > rootlen \<and> (c', c) \<in> turn_rel"
| "res_ok rootlen res c ROOT c' \<longleftrightarrow> length res > rootlen \<and> (c', c) \<in> turn_rel"
| "res_ok rootlen res c _ c' \<longleftrightarrow> True"

definition rec_result :: "nat \<Rightarrow> string \<Rightarrow> canonstruct \<Rightarrow> (recout \<times> canonstruct) option \<Rightarrow> bool" where
  "rec_result rootlen res c x \<longleftrightarrow> (\<exists>r c'. x = Some (r, c') \<and> res_ok rootlen res c r c')"

lemma rec_result_mono:
  assumes "rec_result rootlen res c' x" "(c', c) \<in> turn_rel"
  shows "rec_result rootlen res c x"
proof -
  obtain r c2 where r: "x = Some (r, c2)" "res_ok rootlen res c' r c2" using assms(1) unfolding rec_result_def by blast
  then have "res_ok rootlen res c r c2" using assms(2) transD [OF trans_turn] by (cases r) auto
  then show ?thesis using r(1) unfolding rec_result_def by blast
qed

lemma turn_next: "next_name (c_rest c) \<noteq> [] \<Longrightarrow> (c\<lparr>c_rest := next_rest (c_rest c)\<rparr>, c) \<in> turn_rel"
  by (rule turn_rest) (use next_shorter [of "c_rest c"] in simp_all)

lemma link_turn: "follow_link h rootlen res new after c = Inr (a, c') \<Longrightarrow> (c', c) \<in> turn_rel \<and> length res > rootlen"
  by (auto simp: follow_link_def Let_def intro!: turn_link split: if_splits sum.splits)

lemma turn_continue: "rec_turn h rootlen nf res ro c = Continue c' \<Longrightarrow> (c', c) \<in> turn_rel"
  using turn_next [of c]
  by (auto simp: rec_turn_def turn_entry_def Let_def split: if_splits sum.splits dest!: link_turn)

lemma turn_enter:
  assumes "canonical res" "rec_turn h rootlen nf res ro c = Enter new c'"
  shows "(c', c) \<in> turn_rel" "canonical new" "below res new" "length new < PATHMAX"
proof -
  let ?n = "next_name (c_rest c)"
  have n: "?n \<notin> {[], ''.'', ''..''}" "new = add_comp res ?n" "length new < PATHMAX" "\<exists>m. c' = c\<lparr>c_mode := m, c_rest := next_rest (c_rest c)\<rparr>"
    using assms(2) by (auto simp: rec_turn_def turn_entry_def Let_def split: if_splits sum.splits)
  then show "canonical new" "below res new" "length new < PATHMAX"
    using canonical_add [OF assms(1) next_name_ok [OF n(1)]] below_add [OF assms(1) next_name_ok [OF n(1)]] by auto
  show "(c', c) \<in> turn_rel" using n(4) n(1) next_shorter [of "c_rest c"] by (auto intro!: turn_rest)
qed

lemma turn_return:
  assumes "canonical res" "rec_turn h rootlen nf res ro c = Return r c'"
  shows "rec_result rootlen res c (Some (r, c'))"
proof -
  let ?n = "next_name (c_rest c)"
  have k: "canonical (add_comp res ?n)" "below res (add_comp res ?n)" if "?n \<notin> {[], ''.'', ''..''}"
    using canonical_add [OF assms(1) next_name_ok [OF that]] below_add [OF assms(1) next_name_ok [OF that]] .
  show ?thesis
    using assms(2) assms(1) k turn_next [of c] below_refl [OF assms(1)]
    by (auto simp: rec_result_def rec_turn_def turn_entry_def Let_def split: if_splits sum.splits dest!: link_turn)
qed

lemma rec_realpath_result:
  assumes "canonical res"
  shows "rec_result rootlen res c (rec_realpath h rootlen nf res ro c)"
  using assms
proof (induction c arbitrary: res ro rule: wf_induct_rule [OF wf_turn])
  case (1 c)
  have c0: "canonical res" by (rule 1)
  show ?case
  proof (cases "rec_turn h rootlen nf res ro c")
    case (Return r c')
    then have "rec_result rootlen res c (Some (r, c'))" by (rule turn_return [OF c0])
    then show ?thesis using Return by (subst rec_realpath.simps) simp
  next
    case (Continue c')
    then have t: "(c', c) \<in> turn_rel" by (rule turn_continue)
    then show ?thesis using 1(1) [OF t c0] Continue rec_result_mono [OF _ t] by (subst rec_realpath.simps) simp
  next
    case (Enter new c')
    then have t: "(c', c) \<in> turn_rel" "canonical new" "below res new" "length new < PATHMAX" using turn_enter [OF c0 Enter] by simp_all
    from 1(1) [OF t(1,2), of AGAIN_ROOT] obtain r c2 where r: "rec_realpath h rootlen nf new AGAIN_ROOT c' = Some (r, c2)"
      "res_ok rootlen new c' r c2" unfolding rec_result_def by blast
    have t2: "(c2, c) \<in> turn_rel" if "r \<in> {DOTDOT, ROOT}" using r(2) that t(1) transD [OF trans_turn] by auto
    have e: "rec_realpath h rootlen nf res ro c = (if r = DOTDOT then rec_realpath h rootlen nf res AGAIN_DOTDOT c2
          else if r = ROOT \<and> \<not> length res > rootlen then rec_realpath h rootlen nf res AGAIN_ROOT c2
          else Some (r, c2))" using Enter r(1) by (subst rec_realpath.simps) simp
    show ?thesis
    proof (cases "r \<in> {DOTDOT, ROOT}")
      case True
      from 1(1) [OF t2 [OF True] c0] have "rec_result rootlen res c (rec_realpath h rootlen nf res x c2)" for x
        using rec_result_mono [OF _ t2 [OF True]] by blast
      then show ?thesis using e True t2 [OF True] by (auto simp: rec_result_def)
    next
      case False
      then have "res_ok rootlen res c r c2" using r(2) t(3,4) by (cases r) (auto dest: below_trans)
      then show ?thesis using e False by (auto simp: rec_result_def)
    qed
  qed
qed

section \<open>The root cage\<close>

lemma next_rel:
  assumes "name_ok n" "sep tail" "s = CHR ''/'' # n @ tail \<or> s = n @ tail"
  shows "next_name s = n" "next_rest s = tail"
proof -
  obtain x n' where n: "n = x # n'" "x \<noteq> CHR ''/''" "CHR ''/'' \<notin> set n" using assms(1) by (cases n) (auto simp: name_ok_def)
  have "next_start s = n @ tail" using assms(3) n(1,2) by (auto simp: next_start_def)
  then show "next_name s = n" "next_rest s = tail"
    using name_split [OF n(3) assms(2)] by (simp_all add: next_name_def next_rest_def)
qed

text \<open>The turn that reads a name of the root: no link is followed.\<close>

lemma cage_turn:
  assumes "canonical res" "name_ok n" "next_name (c_rest c) = n" "next_rest (c_rest c) = tail" "length res \<le> rootlen"
  shows "(\<exists>r c'. rec_turn h rootlen nf res ro c = Return r c' \<and> (r = FAULT \<or> (\<exists>e. r = ERR e) \<or> r = DONE (add_comp res n) \<and> \<not> next_slash tail)) \<or>
     (\<exists>m. rec_turn h rootlen nf res ro c = Enter (add_comp res n) (c\<lparr>c_mode := m, c_rest := tail\<rparr>))"
proof -
  have "n \<noteq> []" "n \<noteq> ''.''" "n \<noteq> ''..''" using assms(2) by (auto simp: name_ok_def)
  then show ?thesis using assms(3-5)
    by (auto simp: rec_turn_def turn_entry_def follow_link_def Let_def split: sum.splits if_splits)
qed

lemma cage:
  assumes "\<forall>n \<in> set (ps @ qs). name_ok n" "length (path_of (ps @ qs)) \<le> rootlen" "sep tail"
    and "c_rest c = rel_path qs tail \<or> c_rest c = tl (rel_path qs tail) \<and> qs \<noteq> []"
  shows "\<exists>r c'. rec_realpath h rootlen nf (path_of ps) ro c = Some (r, c') \<and>
     (r = FAULT \<or> (\<exists>e. r = ERR e) \<or> (\<exists>p. r = DONE p \<and> below (path_of (ps @ qs)) p))"
  using assms
proof (induction qs arbitrary: ps c ro)
  case Nil
  then have "canonical (path_of ps)" by (auto simp: canonical_def)
  from rec_realpath_result [OF this, of rootlen c h nf ro]
  obtain r c' where "rec_realpath h rootlen nf (path_of ps) ro c = Some (r, c')" "res_ok rootlen (path_of ps) c r c'"
    unfolding rec_result_def by blast
  then show ?case using Nil.prems(2) by (cases r) auto
next
  case (Cons q qs)
  let ?res = "path_of ps" and ?new = "path_of (ps @ [q])"
  have ok: "canonical ?res" "name_ok q" "\<forall>n \<in> set ps. name_ok n" using Cons.prems(1) by (auto simp: canonical_def)
  have len: "length ?res \<le> length ?new" "length ?new \<le> length (path_of (ps @ q # qs))"
    by (auto simp: path_of_def)
  have new: "add_comp ?res q = ?new" by (rule add_comp_path [OF ok(3)])
  have nx: "next_name (c_rest c) = q" "next_rest (c_rest c) = rel_path qs tail"
    using next_rel [OF ok(2) sep_rel [OF Cons.prems(3)], of "c_rest c" qs] Cons.prems(4) by auto
  have "length ?res \<le> rootlen" using Cons.prems(2) len by simp
  from cage_turn [OF ok(1,2) nx this, of h nf ro] consider
      r c' where "rec_turn h rootlen nf ?res ro c = Return r c'" "r = FAULT \<or> (\<exists>e. r = ERR e) \<or> r = DONE ?new \<and> \<not> next_slash (rel_path qs tail)"
    | m where "rec_turn h rootlen nf ?res ro c = Enter ?new (c\<lparr>c_mode := m, c_rest := rel_path qs tail\<rparr>)"
    unfolding new by blast
  then show ?case
  proof cases
    case 1
    have "below (path_of (ps @ q # qs)) ?new" if "\<not> next_slash (rel_path qs tail)"
    proof -
      have "qs = []" using that by (cases qs) (auto simp: next_slash_def)
      moreover have "canonical ?new" using canonical_add [OF ok(1,2)] new by simp
      ultimately show ?thesis using below_refl [of ?new] by simp
    qed
    then show ?thesis using 1 by (subst rec_realpath.simps) auto
  next
    case 2
    let ?c = "c\<lparr>c_mode := m, c_rest := rel_path qs tail\<rparr>"
    obtain r c' where r: "rec_realpath h rootlen nf ?new AGAIN_ROOT ?c = Some (r, c')"
       "r = FAULT \<or> (\<exists>e. r = ERR e) \<or> (\<exists>p. r = DONE p \<and> below (path_of (ps @ q # qs)) p)"
      using Cons.IH [of "ps @ [q]" ?c AGAIN_ROOT] Cons.prems by auto
    then have "rec_realpath h rootlen nf ?res ro c = Some (r, c')" using 2 by (subst rec_realpath.simps) auto
    then show ?thesis using r(2) by blast
  qed
qed

lemma cancel_sep: "sep tail \<Longrightarrow> \<exists>tail'. sep tail' \<and> cancel_trailing_slash (rel_path ns tail) = rel_path ns tail'"
  if "ns \<noteq> []" "\<forall>n \<in> set ns. name_ok n" for ns
proof -
  assume s: "sep tail"
  show ?thesis
  proof (cases "tail \<noteq> [] \<and> last tail = CHR ''/''")
    case True
    then have "length (rel_path ns tail) > 1" "last (rel_path ns tail) = CHR ''/''" "butlast (rel_path ns tail) = rel_path ns (butlast tail)"
      using that(1) by (auto simp: rel_path_def butlast_append) (cases ns; auto)
    moreover have "sep (butlast tail)" using s True by (cases tail) (auto simp: sep_def)
    ultimately show ?thesis by (auto simp: cancel_trailing_slash_def)
  next
    case False
    have "last (rel_path ns []) \<noteq> CHR ''/''" using last_path_of [OF that] by (simp add: path_of_rel [OF that(1)])
    then have "cancel_trailing_slash (rel_path ns tail) = rel_path ns tail"
      using False by (auto simp: cancel_trailing_slash_def rel_path_def last_append)
    then show ?thesis using s by blast
  qed
qed

lemma with_slash_path: "ns \<noteq> [] \<Longrightarrow> \<forall>n \<in> set ns. name_ok n \<Longrightarrow> with_slash (path_of ns) = rel_path ns ''/''"
  using last_path_of [of ns] by (simp add: with_slash_def path_of_rel) (simp add: rel_path_def)

text \<open>The first contents of \<open>ebuf\<close> inside a root: the names of the root and a rest.\<close>

lemma start_in_root:
  assumes "\<forall>n \<in> set rs. name_ok n" "rs \<noteq> []" "name \<noteq> []"
    and "hd name \<noteq> CHR ''/'' \<longrightarrow> (\<exists>ds. cwd = Some (path_of (rs @ ds)) \<and> (\<forall>n \<in> set ds. name_ok n))"
    and "realpath_start junk (path_of rs) (Some name) cwd = Inr (ebuf, rootlen)"
  shows "length (path_of rs) \<le> rootlen \<and> (\<exists>tail. sep tail \<and> ebuf = rel_path rs tail)"
proof (cases "hd name = CHR ''/''")
  case True
  then obtain s where s: "name = CHR ''/'' # s" using assms(3) by (cases name) auto
  have "ebuf = cancel_trailing_slash (rel_path rs (CHR ''/'' # s))" "rootlen = length (rel_path rs ''/'')"
    using assms(5) s with_slash_path [OF assms(2,1)]
    by (auto simp: realpath_start_def Let_def rel_path_def split: if_splits)
  then show ?thesis using cancel_sep [OF assms(2,1), of "CHR ''/'' # s"] by (auto simp: path_of_rel [OF assms(2)] rel_path_def)
next
  case False
  then obtain ds where ds: "cwd = Some (path_of (rs @ ds))" "\<forall>n \<in> set ds. name_ok n" using assms(4) by blast
  have ok: "\<forall>n \<in> set (rs @ ds). name_ok n" "rs @ ds \<noteq> []" using assms(1,2) ds(2) by auto
  obtain x s where nm: "name = x # s" using assms(3) by (cases name) auto
  let ?e = "rel_path rs (rel_path ds ''/'')"
  have w: "with_slash (path_of (rs @ ds)) = ?e" using with_slash_path [OF ok(2,1)] by simp
  obtain y tl' where y: "rel_path ds ''/'' = CHR ''/'' # tl'" by (cases ds) auto
  have n: "take (length (path_of rs)) (?e @ junk) = path_of rs" "(?e @ junk) ! length (path_of rs) = CHR ''/''"
    unfolding path_of_rel [OF assms(2)] y by (auto simp: rel_path_def nth_append)
  have "ebuf = cancel_trailing_slash (rel_path (rs @ ds) (CHR ''/'' # name))" "rootlen \<ge> length (path_of rs)"
    using assms(5) False w n nm ds(1) unfolding realpath_start_def
    by (auto simp: Let_def rel_path_def split: if_splits)
  moreover obtain tail' where "sep tail'" "cancel_trailing_slash (rel_path (rs @ ds) (CHR ''/'' # name)) = rel_path (rs @ ds) tail'"
    using cancel_sep [OF ok(2,1), of "CHR ''/'' # name"] by auto
  ultimately show ?thesis by (intro conjI exI [of _ "rel_path ds tail'"]) simp_all
qed

section \<open>Properties\<close>

text \<open>A file system in which every name is a directory.\<close>

definition all_dirs :: host where
  "all_dirs = \<lparr>h_lstat = (\<lambda>_ _. Inr 0x4000), h_readlink = (\<lambda>_. Inl E_INVAL), h_access = (\<lambda>_ _. 0)\<rparr>"

lemma canonical_root: "canonical ''/''"
  unfolding canonical_def by (intro exI [of _ "[]"]) (simp add: path_of_def)

lemma rootlen_pos:
  assumes "root \<noteq> []" "realpath_start junk root name cwd = Inr (ebuf, rootlen)"
  shows "1 \<le> rootlen"
  using assms by (cases root) (auto simp: realpath_start_def with_slash_def Let_def split: option.splits list.splits if_splits)

lemma realpath_rec:
  assumes "realpath_start junk root name cwd = Inr (ebuf, rootlen)"
  obtains r c where "um_realpath h junk root name cwd nf = Some (r, c_mode c)"
    "res_ok rootlen ''/'' \<lparr>c_rest = tl ebuf, c_num_links = 0, c_mode = 0\<rparr> r c"
proof -
  let ?c = "\<lparr>c_rest = tl ebuf, c_num_links = 0, c_mode = 0\<rparr>"
  obtain r c' where "rec_realpath h rootlen nf ''/'' AGAIN_ROOT ?c = Some (r, c')" "res_ok rootlen ''/'' ?c r c'"
    using rec_realpath_result [OF canonical_root, of rootlen ?c h nf AGAIN_ROOT] unfolding rec_result_def by blast
  then show thesis using that assms by (simp add: um_realpath_def)
qed

text \<open>
  C21: The translation of a path always ends, whatever links the file system has: it gives an error or
  a canonical absolute path that fits the buffer (or writes beyond the buffer).
\<close>

theorem realpath_canonical:
  assumes "root \<noteq> []"
  shows "\<exists>r mode. um_realpath h junk root name cwd nf = Some (r, mode) \<and>
     (case r of DONE p \<Rightarrow> canonical p \<and> length p < PATHMAX | ERR e \<Rightarrow> True | FAULT \<Rightarrow> True | _ \<Rightarrow> False)"
proof (cases "realpath_start junk root name cwd")
  case (Inl e)
  then show ?thesis by (simp add: um_realpath_def)
next
  case (Inr x)
  obtain ebuf rootlen where x: "x = (ebuf, rootlen)" by (cases x)
  have "1 \<le> rootlen" using rootlen_pos [OF assms] Inr x by blast
  moreover obtain r c where "um_realpath h junk root name cwd nf = Some (r, c_mode c)"
    "res_ok rootlen ''/'' \<lparr>c_rest = tl ebuf, c_num_links = 0, c_mode = 0\<rparr> r c"
    using realpath_rec Inr x by metis
  ultimately show ?thesis by (cases r) (auto simp: PATHMAX_def)
qed

theorem realpath_canonical_witness:
  "\<exists>r mode. um_realpath \<lparr>h_lstat = \<lambda>_ _. Inr 0xA000, h_readlink = \<lambda>_. Inr ''x'', h_access = \<lambda>_ _. 0\<rparr> [] ''/''
     (Some ''/a/b'') None False = Some (r, mode)"
  using realpath_canonical [of "''/''" "\<lparr>h_lstat = \<lambda>_ _. Inr 0xA000, h_readlink = \<lambda>_. Inr ''x'', h_access = \<lambda>_ _. 0\<rparr>" "[]"
      "Some ''/a/b''" None False] by auto

lemmas can_eval = um_realpath_def realpath_start_def with_slash_def cancel_trailing_slash_def PATHMAX_def Let_def
  rec_realpath.simps rec_turn_def turn_entry_def next_name_def next_rest_def next_start_def add_comp_def next_slash_def
  statbuf_of_def S_ISDIR_def S_ISLNK_def mode_fmt_def

text \<open>What the translation of a path inside the root gives.\<close>

lemma realpath_below:
  assumes "\<forall>n \<in> set rs. name_ok n" "name \<noteq> []"
    and "hd name \<noteq> CHR ''/'' \<longrightarrow> (\<exists>ds. cwd = Some (path_of (rs @ ds)) \<and> (\<forall>n \<in> set ds. name_ok n))"
    and "um_realpath h junk (path_of rs) (Some name) cwd nf = Some (DONE p, mode)"
  shows "below (path_of rs) p"
proof (cases "rs = []")
  case True
  obtain ebuf rootlen where st: "realpath_start junk (path_of rs) (Some name) cwd = Inr (ebuf, rootlen)"
    using assms(4) by (auto simp: um_realpath_def split: sum.splits)
  have "canonical p" by (rule realpath_rec [OF st, of h nf]) (use assms(4) in auto)
  then obtain ns where "p = path_of ns" "\<forall>n \<in> set ns. name_ok n" unfolding canonical_def by blast
  then show ?thesis unfolding True below_def by (intro exI [of _ "[]"] exI [of _ ns]) simp
next
  case False
  obtain ebuf rootlen where st: "realpath_start junk (path_of rs) (Some name) cwd = Inr (ebuf, rootlen)"
    using assms(4) by (auto simp: um_realpath_def split: sum.splits)
  obtain tail where t: "length (path_of rs) \<le> rootlen" "sep tail" "ebuf = rel_path rs tail"
    using start_in_root [OF assms(1) False assms(2,3) st] by blast
  let ?c = "\<lparr>c_rest = tl ebuf, c_num_links = 0, c_mode = 0\<rparr>"
  obtain r c' where "rec_realpath h rootlen nf (path_of []) AGAIN_ROOT ?c = Some (r, c')"
     "r = FAULT \<or> (\<exists>e. r = ERR e) \<or> (\<exists>p. r = DONE p \<and> below (path_of ([] @ rs)) p)"
    using cage [of "[]" rs rootlen tail ?c h nf AGAIN_ROOT] assms(1) t False by auto
  then show ?thesis using assms(4) st by (auto simp: um_realpath_def path_of_def)
qed

text \<open>
  C10: A path never leads out of the current root: the result of translating an absolute path, or a
  path relative to a directory inside the root, is the root or a path below it.
\<close>

theorem realpath_caged:
  assumes "\<forall>n \<in> set rs. name_ok n" "name \<noteq> []"
    and "hd name \<noteq> CHR ''/'' \<longrightarrow> (\<exists>ds. cwd = Some (path_of (rs @ ds)) \<and> (\<forall>n \<in> set ds. name_ok n))"
    and "um_realpath h junk (path_of rs) (Some name) cwd nf = Some (DONE p, mode)"
  shows "below (path_of rs) p"
  by (rule realpath_below [OF assms])





theorem realpath_caged_witness:
  "\<exists>mode p. um_realpath all_dirs [] ''/jail'' (Some ''/../a'') None False = Some (DONE p, mode) \<and> below ''/jail'' p"
proof -
  have j: "path_of [''jail''] = ''/jail''" "\<forall>n \<in> set [''jail'']. name_ok n" by (simp_all add: path_of_def name_ok_def)
  have "\<exists>mode. um_realpath all_dirs [] ''/jail'' (Some ''/../a'') None False = Some (DONE ''/jail/a'', mode)"
    by (simp add: can_eval all_dirs_def)
  then obtain mode where m: "um_realpath all_dirs [] ''/jail'' (Some ''/../a'') None False = Some (DONE ''/jail/a'', mode)" by blast
  have "below (path_of [''jail'']) ''/jail/a''" by (rule realpath_caged [OF j(2) _ _ m [folded j(1)]]) simp_all
  then show ?thesis using m j(1) by auto
qed



text \<open>
  A symbolic link that is an entry of the root directory itself is not followed: a path through it
  is reported as missing.
\<close>

theorem root_link_refused:
  assumes "name_ok n" "length n + 2 < PATHMAX" "h_lstat h (CHR ''/'' # n) False = Inr mode" "S_ISLNK mode"
  shows "um_realpath h junk ''/'' (Some (CHR ''/'' # n)) cwd False = Some (ERR E_NOENT, mode)"
proof -
  let ?c = "\<lparr>c_rest = n, c_num_links = 0, c_mode = 0\<rparr>"
  have l: "last n \<noteq> CHR ''/''" "n \<noteq> []" "n \<noteq> ''.''" "n \<noteq> ''..''"
    using assms(1) last_path_of [of "[n]"] by (auto simp: name_ok_def path_of_def)
  have st: "realpath_start junk ''/'' (Some (CHR ''/'' # n)) cwd = Inr (CHR ''/'' # n, 1)"
    using l assms(2) by (simp add: realpath_start_def with_slash_def cancel_trailing_slash_def)
  have nx: "next_name n = n" "next_rest n = []" using next_rel [OF assms(1) sep_simps(1), of n] by auto
  have "rec_turn h 1 False ''/'' AGAIN_ROOT ?c = Return (ERR E_NOENT) (?c\<lparr>c_mode := mode\<rparr>)"
    using nx l(2-4) assms(2-4) by (simp add: rec_turn_def turn_entry_def follow_link_def add_comp_def Let_def)
  then show ?thesis using st by (simp add: um_realpath_def rec_realpath.simps)
qed

theorem root_link_refused_witness:
  "um_realpath \<lparr>h_lstat = \<lambda>_ _. Inr 0xA000, h_readlink = \<lambda>_. Inr ''usr/lib'', h_access = \<lambda>_ _. 0\<rparr> [] ''/''
     (Some ''/lib'') None False = Some (ERR E_NOENT, 0xA000)"
  by (rule root_link_refused) (simp_all add: name_ok_def PATHMAX_def S_ISLNK_def mode_fmt_def)

text \<open>A directory with a long name whose entries are links.\<close>

definition long_name :: string where "long_name = replicate 4089 (CHR ''x'')"

definition long_host :: host where
  "long_host = \<lparr>h_lstat = (\<lambda>p _. if p = CHR ''/'' # long_name then Inr 0x4000 else Inr 0xA000),
     h_readlink = (\<lambda>_. Inr ''yyyyyy''), h_access = (\<lambda>_ _. 0)\<rparr>"

text \<open>
  C38: The test for the length of the result leaves out the slash and the final NUL: with a link from a
  directory with a long name the translation writes beyond the end of the buffer.
\<close>

theorem realpath_overflow:
  "\<exists>mode. um_realpath long_host junk ''/'' (Some (CHR ''/'' # long_name @ ''/s'')) None False = Some (FAULT, mode)"
proof -
  let ?dir = "CHR ''/'' # long_name"
  have len: "length long_name = 4089" by (simp add: long_name_def)
  have "long_name \<noteq> w" if "length w < 4089" for w using len that by auto
  then have nl: "long_name \<noteq> []" "long_name \<noteq> ''.''" "long_name \<noteq> ''..''" by simp_all
  have ln: "name_ok long_name" unfolding name_ok_def using nl by (auto simp: long_name_def)
  have st: "realpath_start junk ''/'' (Some (?dir @ ''/s'')) None = Inr (?dir @ ''/s'', 1)"
    by (simp add: realpath_start_def with_slash_def cancel_trailing_slash_def PATHMAX_def len)
  let ?c0 = "\<lparr>c_rest = long_name @ ''/s'', c_num_links = 0, c_mode = 0\<rparr>"
  have nx: "next_name (long_name @ ''/s'') = long_name" "next_rest (long_name @ ''/s'') = ''/s''"
    using next_rel [OF ln, of "''/s''" "long_name @ ''/s''"] by auto
  have dl: "last long_name \<noteq> CHR ''/''" using last_path_of [of "[long_name]"] ln nl by (auto simp: path_of_def)
  have d: "h_lstat long_host ?dir b = Inr 0x4000" "h_lstat long_host (?dir @ CHR ''/'' # s) b = Inr 0xA000" for s b
    by (simp_all add: long_host_def)
  let ?c1 = "\<lparr>c_rest = ''/s'', c_num_links = 0, c_mode = 0x4000\<rparr>"
  have t0: "rec_turn long_host 1 False ''/'' AGAIN_ROOT ?c0 = Enter ?dir ?c1"
    using nx nl d(1) by (simp add: rec_turn_def turn_entry_def add_comp_def Let_def len PATHMAX_def next_slash_def)
       (simp add: S_ISDIR_def S_ISLNK_def mode_fmt_def long_host_def)
  let ?c2 = "\<lparr>c_rest = ''yyyyyy'', c_num_links = 1, c_mode = 0xA000\<rparr>"
  have ac: "add_comp ?dir s = ?dir @ CHR ''/'' # s" for s using dl nl(1) by (simp add: add_comp_def)
  have t1: "rec_turn long_host 1 False ?dir AGAIN_ROOT ?c1 = Continue ?c2"
    using d(2) [of "''s''" False]
    by (simp add: rec_turn_def next_name_def next_rest_def next_start_def ac turn_entry_def follow_link_def Let_def len PATHMAX_def next_slash_def)
       (simp add: S_ISLNK_def mode_fmt_def long_host_def MAXSYMLINKS_def PATHMAX_def Let_def next_slash_def)
  obtain c3 where t2: "rec_turn long_host 1 False ?dir AGAIN_ROOT ?c2 = Return FAULT c3"
    by (simp add: rec_turn_def next_name_def next_rest_def next_start_def ac Let_def len PATHMAX_def)
  have "rec_realpath long_host 1 False ?dir AGAIN_ROOT ?c1 = Some (FAULT, c3)"
    using t1 t2 by (simp add: rec_realpath.simps)
  then have "rec_realpath long_host 1 False ''/'' AGAIN_ROOT ?c0 = Some (FAULT, c3)"
    using t0 by (subst rec_realpath.simps) simp
  then show ?thesis using st by (simp add: um_realpath_def)
qed

end
