(* ===== verification/Slot_Table.thy ===== *)
theory Slot_Table
  imports View_Prelude
begin

text \<open>
  Tables whose unused entries are linked together by using the pointers as the index of the next
  unused element: the table of local file descriptors of \<open>umproc.c\<close> (\<open>lfd_alloc\<close>, \<open>lfd_free\<close>,
  \<open>lfd_forall\<close>) and the table for the modules of \<open>sctab.c\<close> (\<open>addfiletab\<close>, \<open>delfiletab\<close>,
  \<open>getfiletab\<close>), which are the same code with another step.

  An entry is a pointer to an object or an index; the NULL pointer is the index 0.  Using an index
  as a pointer or a pointer as an index, and an access beyond the allocated entries, are \<open>None\<close>.
\<close>

section \<open>Operations\<close>

datatype 'a slot = Used 'a | Next int

record 'a slots =
  sl_tab :: "'a slot list"     \<comment> \<open>the entries in use; the length is \<open>lfd_tabmax\<close>\<close>
  sl_size :: nat               \<comment> \<open>the allocated entries, \<open>lfd_tabsize\<close>\<close>
  sl_free :: int               \<comment> \<open>the first unused entry or -1, \<open>lfd_tabfree\<close>\<close>

definition slots_init :: "'a slots" where
  "slots_init = \<lparr>sl_tab = [], sl_size = 0, sl_free = -1\<rparr>"

definition slot_get :: "'a slots \<Rightarrow> nat \<Rightarrow> 'a option" where
  "slot_get t i = (if i < length (sl_tab t) then (case sl_tab t ! i of Used x \<Rightarrow> Some x | Next _ \<Rightarrow> None) else None)"

definition slot_set :: "'a slots \<Rightarrow> nat \<Rightarrow> 'a \<Rightarrow> 'a slots" where
  "slot_set t i x = t\<lparr>sl_tab := (sl_tab t)[i := Used x]\<rparr>"

text \<open>\<open>step\<close> is a power of two: \<open>(rv + step) & ~(step - 1)\<close>.\<close>

definition slot_alloc :: "nat \<Rightarrow> 'a \<Rightarrow> 'a slots \<Rightarrow> (nat \<times> 'a slots) option" where
  "slot_alloc step x t =
     (if sl_free t \<ge> 0 then
        let rv = nat (sl_free t) in
        if rv < length (sl_tab t) then
          (case sl_tab t ! rv of
             Next n \<Rightarrow> Some (rv, t\<lparr>sl_free := n, sl_tab := (sl_tab t)[rv := Used x]\<rparr>)
           | Used _ \<Rightarrow> None)
        else None
      else
        let rv = length (sl_tab t);
            size = (if rv \<ge> sl_size t then (rv + step) - (rv + step) mod step else sl_size t) in
        if rv < size then Some (rv, t\<lparr>sl_tab := sl_tab t @ [Used x], sl_size := size\<rparr>) else None)"

definition slot_free :: "nat \<Rightarrow> 'a slots \<Rightarrow> 'a slots option" where
  "slot_free i t = (case slot_get t i of None \<Rightarrow> None
     | Some _ \<Rightarrow> Some (t\<lparr>sl_tab := (sl_tab t)[i := Next (sl_free t)], sl_free := int i\<rparr>))"

text \<open>The scan of the objects: the list of unused entries is deleted and built again.\<close>

partial_function (option) slot_unlink :: "'a slots \<Rightarrow> 'a slots option" where
  "slot_unlink t =
     (if sl_free t \<ge> 0 then
        if nat (sl_free t) < length (sl_tab t) then
          (case sl_tab t ! nat (sl_free t) of
             Next n \<Rightarrow> slot_unlink (t\<lparr>sl_tab := (sl_tab t)[nat (sl_free t) := Next 0], sl_free := n\<rparr>)
           | Used _ \<Rightarrow> None)
        else None
      else Some t)"

fun slot_visit :: "(nat \<Rightarrow> 'a \<Rightarrow> 'b \<Rightarrow> 'b) \<Rightarrow> nat list \<Rightarrow> 'a slots \<Rightarrow> 'b \<Rightarrow> ('b \<times> 'a slots) option" where
  "slot_visit f [] t acc = Some (acc, t)"
| "slot_visit f (i # is) t acc = (case sl_tab t ! i of
       Used x \<Rightarrow> slot_visit f is t (f i x acc)
     | Next n \<Rightarrow> if n \<noteq> 0 then None
                 else slot_visit f is (t\<lparr>sl_tab := (sl_tab t)[i := Next (sl_free t)], sl_free := int i\<rparr>) acc)"

definition slot_forall :: "(nat \<Rightarrow> 'a \<Rightarrow> 'b \<Rightarrow> 'b) \<Rightarrow> 'a slots \<Rightarrow> 'b \<Rightarrow> ('b \<times> 'a slots) option" where
  "slot_forall f t acc = do {
     t \<leftarrow> slot_unlink t;
     slot_visit f [0..<length (sl_tab t)] t acc
   }"

text \<open>The variant that returns the first result that is not NULL.\<close>

definition slot_forall_r :: "(nat \<Rightarrow> 'a \<Rightarrow> 'b option) \<Rightarrow> 'a slots \<Rightarrow> ('b option \<times> 'a slots) option" where
  "slot_forall_r f t = slot_forall (\<lambda>i x rv. if rv = None then f i x else rv) t None"

declare slot_unlink.simps [code]

section \<open>Invariant\<close>

text \<open>\<open>chain tab f is\<close>: the entries \<open>is\<close> are linked from \<open>f\<close>.\<close>

fun chain :: "'a slot list \<Rightarrow> int \<Rightarrow> nat list \<Rightarrow> bool" where
  "chain tab f [] \<longleftrightarrow> f = -1"
| "chain tab f (i # is) \<longleftrightarrow> f = int i \<and> i < length tab \<and> (\<exists>n. tab ! i = Next n \<and> chain tab n is)"

definition unused :: "'a slot list \<Rightarrow> nat set" where
  "unused tab = {i. i < length tab \<and> (\<exists>n. tab ! i = Next n)}"

definition slots_ok :: "'a slots \<Rightarrow> bool" where
  "slots_ok t \<longleftrightarrow> length (sl_tab t) \<le> sl_size t \<and>
     (\<exists>is. distinct is \<and> chain (sl_tab t) (sl_free t) is \<and>
       set is = unused (sl_tab t))"

lemma chain_cong:
  "(\<And>i. i \<in> set is \<Longrightarrow> tab' ! i = tab ! i) \<Longrightarrow> length tab' = length tab \<Longrightarrow> chain tab f is \<Longrightarrow> chain tab' f is"
  by (induction "is" arbitrary: f) auto

lemma chain_update: "i \<notin> set is \<Longrightarrow> chain tab f is \<Longrightarrow> chain (tab[i := v]) f is"
  by (rule chain_cong [of _ _ tab]) (metis nth_list_update_neq, simp_all)

lemma chain_append: "chain tab f is \<Longrightarrow> chain (tab @ xs) f is"
  by (induction "is" arbitrary: f) (auto simp: nth_append)

lemma chain_bound: "chain tab f is \<Longrightarrow> set is \<subseteq> {..<length tab}"
  by (induction "is" arbitrary: f) auto

lemma unused_simps:
  "unused (tab @ [Used x]) = unused tab"
  "i < length tab \<Longrightarrow> unused (tab[i := Used x]) = unused tab - {i}"
  "i < length tab \<Longrightarrow> unused (tab[i := Next n]) = insert i (unused tab)"
  by (auto simp: unused_def nth_append nth_list_update less_Suc_eq)

lemma slots_okI:
  assumes "length (sl_tab t) \<le> sl_size t" "distinct is" "chain (sl_tab t) (sl_free t) is"
    and "set is = unused (sl_tab t)"
  shows "slots_ok t"
  using assms unfolding slots_ok_def by blast

lemma slots_init_ok: "slots_ok slots_init"
  by (rule slots_okI [of _ "[]"]) (simp_all add: slots_init_def unused_def)

lemma alloc_ok:
  assumes ok: "slots_ok t" and s: "0 < step"
  shows "\<exists>i t'. slot_alloc step x t = Some (i, t') \<and> slots_ok t' \<and> slot_get t i = None \<and> slot_get t' = (slot_get t)(i \<mapsto> x)"
proof -
  obtain l where l: "length (sl_tab t) \<le> sl_size t" "distinct l" "chain (sl_tab t) (sl_free t) l"
     "set l = unused (sl_tab t)" using ok unfolding slots_ok_def by blast
  show ?thesis
  proof (cases l)
    case Nil
    define size where "size = (if length (sl_tab t) \<ge> sl_size t then (length (sl_tab t) + step) - (length (sl_tab t) + step) mod step else sl_size t)"
    have sz: "length (sl_tab t) < size"
    proof (cases "length (sl_tab t) \<ge> sl_size t")
      case True
      have "(length (sl_tab t) + step) mod step < step" using s by simp
      then show ?thesis using True by (simp add: size_def)
    qed (simp add: size_def)
    let ?t = "t\<lparr>sl_tab := sl_tab t @ [Used x], sl_size := size\<rparr>"
    have a: "slot_alloc step x t = Some (length (sl_tab t), ?t)"
      using l(3) Nil sz by (simp add: slot_alloc_def size_def [symmetric] Let_def)
    have "slots_ok ?t"
    proof (rule slots_okI [of _ "[]"])
      show "set [] = unused (sl_tab ?t)" using l(4) Nil by (simp add: unused_simps)
    qed (use l(3) Nil sz in auto)
    moreover have "slot_get ?t = (slot_get t)(length (sl_tab t) \<mapsto> x)"
      by (auto simp: fun_eq_iff slot_get_def nth_append less_Suc_eq)
    ultimately show ?thesis using a by (intro exI conjI) (assumption+, simp add: slot_get_def, assumption)
  next
    case (Cons i l')
    then obtain n where n: "sl_free t = int i" "i < length (sl_tab t)" "sl_tab t ! i = Next n" "chain (sl_tab t) n l'"
      using l(3) by auto
    let ?t = "t\<lparr>sl_free := n, sl_tab := (sl_tab t)[i := Used x]\<rparr>"
    have a: "slot_alloc step x t = Some (i, ?t)" using n by (simp add: slot_alloc_def Let_def)
    have "slots_ok ?t"
    proof (rule slots_okI [of _ l'])
      show "chain (sl_tab ?t) (sl_free ?t) l'" using chain_update [of i l'] n(4) l(2) Cons by auto
      show "set l' = unused (sl_tab ?t)" using l(2) l(4) [symmetric] Cons n(2) by (auto simp: unused_simps)
    qed (use l(1,2) Cons in auto)
    moreover have "slot_get ?t = (slot_get t)(i \<mapsto> x)"
      using n(2) by (auto simp: fun_eq_iff slot_get_def nth_list_update)
    moreover have "slot_get t i = None" using n(2,3) by (simp add: slot_get_def)
    ultimately show ?thesis using a by blast
  qed
qed

lemma free_ok:
  assumes ok: "slots_ok t" and g: "slot_get t i = Some x"
  shows "\<exists>t'. slot_free i t = Some t' \<and> slots_ok t' \<and> slot_get t' = (slot_get t)(i := None)"
proof -
  obtain l where l: "length (sl_tab t) \<le> sl_size t" "distinct l" "chain (sl_tab t) (sl_free t) l"
     "set l = unused (sl_tab t)" using ok unfolding slots_ok_def by blast
  have i: "i < length (sl_tab t)" "sl_tab t ! i = Used x" using g by (auto simp: slot_get_def split: if_splits slot.splits)
  then have ni: "i \<notin> set l" using l(4) by (auto simp: unused_def)
  let ?t = "t\<lparr>sl_tab := (sl_tab t)[i := Next (sl_free t)], sl_free := int i\<rparr>"
  have "slots_ok ?t"
  proof (rule slots_okI [of _ "i # l"])
    show "chain (sl_tab ?t) (sl_free ?t) (i # l)"
      using chain_update [OF ni l(3)] i(1) by auto
    show "set (i # l) = unused (sl_tab ?t)" using l(4) i(1) by (simp add: unused_simps)
  qed (use l(1,2) ni in auto)
  moreover have "slot_get ?t = (slot_get t)(i := None)"
    using i(1) by (auto simp: fun_eq_iff slot_get_def nth_list_update)
  ultimately show ?thesis using g by (simp add: slot_free_def)
qed

lemma set_ok:
  assumes ok: "slots_ok t" and g: "slot_get t i = Some x"
  shows "slots_ok (slot_set t i y)" "slot_get (slot_set t i y) = (slot_get t)(i \<mapsto> y)"
proof -
  obtain l where l: "length (sl_tab t) \<le> sl_size t" "distinct l" "chain (sl_tab t) (sl_free t) l"
     "set l = unused (sl_tab t)" using ok unfolding slots_ok_def by blast
  have i: "i < length (sl_tab t)" "sl_tab t ! i = Used x" using g by (auto simp: slot_get_def split: if_splits slot.splits)
  then have ni: "i \<notin> set l" using l(4) by (auto simp: unused_def)
  show "slots_ok (slot_set t i y)"
  proof (rule slots_okI [of _ l])
    show "chain (sl_tab (slot_set t i y)) (sl_free (slot_set t i y)) l"
      using chain_update [OF ni l(3)] by (simp add: slot_set_def)
    show "set l = unused (sl_tab (slot_set t i y))" using l(4) i(1) ni by (simp add: slot_set_def unused_simps)
  qed (use l(1,2) in \<open>auto simp: slot_set_def\<close>)
  show "slot_get (slot_set t i y) = (slot_get t)(i \<mapsto> y)"
    using i(1) by (auto simp: fun_eq_iff slot_get_def slot_set_def nth_list_update)
qed

section \<open>The scan\<close>

definition live :: "'a slots \<Rightarrow> nat list" where
  "live t = filter (\<lambda>i. slot_get t i \<noteq> None) [0..<length (sl_tab t)]"

lemma unlink_ok:
  assumes "distinct l" "chain (sl_tab t) (sl_free t) l"
  shows "\<exists>t'. slot_unlink t = Some t' \<and> sl_free t' = -1 \<and> sl_size t' = sl_size t \<and> length (sl_tab t') = length (sl_tab t) \<and>
     (\<forall>i. sl_tab t' ! i = (if i \<in> set l then Next 0 else sl_tab t ! i))"
  using assms
proof (induction l arbitrary: t)
  case Nil
  then show ?case by (subst slot_unlink.simps) simp
next
  case (Cons i l)
  then obtain n where n: "sl_free t = int i" "i < length (sl_tab t)" "sl_tab t ! i = Next n" "chain (sl_tab t) n l" by auto
  let ?t = "t\<lparr>sl_tab := (sl_tab t)[i := Next 0], sl_free := n\<rparr>"
  have "chain (sl_tab ?t) (sl_free ?t) l" using chain_update [of i l] n(4) Cons.prems(1) by simp
  from Cons.IH [OF _ this] obtain t' where t': "slot_unlink ?t = Some t'" "sl_free t' = -1" "sl_size t' = sl_size t"
     "length (sl_tab t') = length (sl_tab t)" "\<forall>j. sl_tab t' ! j = (if j \<in> set l then Next 0 else (sl_tab t)[i := Next 0] ! j)"
    using Cons.prems(1) by auto
  have "slot_unlink t = Some t'" using n t'(1) by (subst slot_unlink.simps) simp
  moreover have "\<forall>j. sl_tab t' ! j = (if j \<in> set (i # l) then Next 0 else sl_tab t ! j)"
    using t'(5) n(2) by (auto simp: nth_list_update)
  ultimately show ?case using t'(2-4) by blast
qed

text \<open>The scan of the entries \<open>is\<close>, when those before are linked again.\<close>

lemma visit_ok:
  assumes "distinct (rev l @ is)" "chain (sl_tab t) (sl_free t) l" "\<forall>i \<in> set is. i < length (sl_tab t)"
    and "\<forall>i \<in> set is. \<forall>n. sl_tab t ! i = Next n \<longrightarrow> n = 0"
  shows "\<exists>t'. slot_visit f is t acc =
       Some (fold (\<lambda>i. f i (the (slot_get t i))) (filter (\<lambda>i. slot_get t i \<noteq> None) is) acc, t') \<and> slot_get t' = slot_get t \<and>
     sl_size t' = sl_size t \<and> length (sl_tab t') = length (sl_tab t) \<and>
     chain (sl_tab t') (sl_free t') (rev (filter (\<lambda>i. slot_get t i = None) is) @ l)"
  using assms
proof (induction "is" arbitrary: t l acc)
  case Nil
  then show ?case by simp
next
  case (Cons i "is")
  have i: "i < length (sl_tab t)" using Cons.prems(3) by simp
  show ?case
  proof (cases "sl_tab t ! i")
    case (Used x)
    then have g: "slot_get t i = Some x" using i by (simp add: slot_get_def)
    show ?thesis using Cons.IH [of l t "f i x acc"] Cons.prems Used g by auto
  next
    case (Next n)
    then have n: "n = 0" "slot_get t i = None" using Cons.prems(4) i by (auto simp: slot_get_def)
    let ?t = "t\<lparr>sl_tab := (sl_tab t)[i := Next (sl_free t)], sl_free := int i\<rparr>"
    have g: "slot_get ?t = slot_get t" using Next i by (auto simp: fun_eq_iff slot_get_def nth_list_update)
    have "chain (sl_tab ?t) (sl_free ?t) (i # l)" using chain_update [of i l] Cons.prems(1,2) i by auto
    moreover have "\<forall>j \<in> set is. \<forall>m. sl_tab ?t ! j = Next m \<longrightarrow> m = 0" 
      using Cons.prems(1,4) i by (auto simp: nth_list_update)
    ultimately obtain t' where "slot_visit f is ?t acc =
       Some (fold (\<lambda>i. f i (the (slot_get ?t i))) (filter (\<lambda>i. slot_get ?t i \<noteq> None) is) acc, t')" "slot_get t' = slot_get ?t"
     "sl_size t' = sl_size ?t" "length (sl_tab t') = length (sl_tab ?t)"
     "chain (sl_tab t') (sl_free t') (rev (filter (\<lambda>i. slot_get ?t i = None) is) @ i # l)"
      using Cons.IH [of "i # l" ?t acc] Cons.prems(1,3) by auto
    then show ?thesis using Next n unfolding g by simp
  qed
qed

lemma forall_ok:
  assumes "slots_ok t"
  shows "\<exists>t'. slot_forall f t acc = Some (fold (\<lambda>i. f i (the (slot_get t i))) (live t) acc, t') \<and> slots_ok t' \<and> slot_get t' = slot_get t"
proof -
  obtain l where l: "length (sl_tab t) \<le> sl_size t" "distinct l" "chain (sl_tab t) (sl_free t) l"
     "set l = unused (sl_tab t)" using assms unfolding slots_ok_def by blast
  obtain t1 where t1: "slot_unlink t = Some t1" "sl_free t1 = -1" "sl_size t1 = sl_size t" "length (sl_tab t1) = length (sl_tab t)"
     "\<And>i. sl_tab t1 ! i = (if i \<in> set l then Next 0 else sl_tab t ! i)" using unlink_ok [OF l(2,3)] by blast
  have g: "slot_get t1 = slot_get t" using t1(4,5) l(4) by (auto simp: fun_eq_iff slot_get_def unused_def split: slot.splits)
  let ?is = "[0..<length (sl_tab t1)]"
  have "\<forall>i \<in> set ?is. \<forall>n. sl_tab t1 ! i = Next n \<longrightarrow> n = 0" using t1(4,5) l(4) by (auto simp: unused_def)
  then obtain t2 where t2: "slot_visit f ?is t1 acc =
       Some (fold (\<lambda>i. f i (the (slot_get t1 i))) (filter (\<lambda>i. slot_get t1 i \<noteq> None) ?is) acc, t2)" "slot_get t2 = slot_get t1"
     "sl_size t2 = sl_size t1" "length (sl_tab t2) = length (sl_tab t1)"
     "chain (sl_tab t2) (sl_free t2) (rev (filter (\<lambda>i. slot_get t1 i = None) ?is) @ [])"
    using visit_ok [of "[]" ?is t1 f acc] t1(2) by auto
  have "slots_ok t2"
  proof (rule slots_okI)
    show "chain (sl_tab t2) (sl_free t2) (rev (filter (\<lambda>i. slot_get t1 i = None) ?is))" using t2(5) by simp
    have "slot_get x i = None \<longleftrightarrow> (\<exists>n. sl_tab x ! i = Next n)" if "i < length (sl_tab x)" for x :: "'a slots" and i
      using that by (cases "sl_tab x ! i") (auto simp: slot_get_def)
    then have u: "unused (sl_tab x) = {i. i < length (sl_tab x) \<and> slot_get x i = None}" for x :: "'a slots"
      by (auto simp: unused_def)
    show "set (rev (filter (\<lambda>i. slot_get t1 i = None) ?is)) = unused (sl_tab t2)" using t2(2,4) by (auto simp: u)
  qed (use l(1) t1 t2 in auto)
  then show ?thesis using t1(1,4) t2(1,2) g unfolding slot_forall_def live_def by auto
qed

section \<open>The interface\<close>

text \<open>What the clients of a table rely on.\<close>

locale slot_store =
  fixes alloc :: "'a \<Rightarrow> 't \<Rightarrow> (nat \<times> 't) option"
    and release :: "nat \<Rightarrow> 't \<Rightarrow> 't option"
    and lookup :: "'t \<Rightarrow> nat \<Rightarrow> 'a option"
    and valid :: "'t \<Rightarrow> bool"
  assumes alloc: "valid t \<Longrightarrow> \<exists>i t'. alloc x t = Some (i, t') \<and> valid t' \<and> lookup t i = None \<and> lookup t' = (lookup t)(i \<mapsto> x)"
    and release: "valid t \<Longrightarrow> lookup t i = Some x \<Longrightarrow> \<exists>t'. release i t = Some t' \<and> valid t' \<and> lookup t' = (lookup t)(i := None)"
begin

lemma alloc_obtain:
  assumes "valid t" "alloc x t = Some (i, t')"
  shows "valid t'" "lookup t i = None" "lookup t' = (lookup t)(i \<mapsto> x)"
  using alloc [OF assms(1), of x] assms(2) by auto

lemma alloc_release:
  assumes "valid t"
  shows "\<exists>i t1 t2. alloc x t = Some (i, t1) \<and> release i t1 = Some t2 \<and> valid t2 \<and> lookup t2 = lookup t"
proof -
  obtain i t1 where 1: "alloc x t = Some (i, t1)" "valid t1" "lookup t i = None" "lookup t1 = (lookup t)(i \<mapsto> x)"
    using alloc [OF assms] by blast
  then obtain t2 where "release i t1 = Some t2" "valid t2" "lookup t2 = (lookup t1)(i := None)" using release [OF 1(2), of i x] by auto
  then show ?thesis using 1 by auto
qed

lemma alloc_other:
  assumes "valid t" "alloc x t = Some (i, t')" "lookup t j = Some y"
  shows "j \<noteq> i" "lookup t' j = Some y"
  using alloc_obtain [OF assms(1,2)] assms(3) by auto

end

end
