(* ===== verification/Umproc.thy ===== *)
theory Umproc
  imports Hashtab Slot_Table
begin

text \<open>
  Model of \<open>src/xmview-os/xmview/umproc.c\<close> (with \<open>O1LFD\<close>, \<open>_UM_MMAP\<close> and \<open>_UM_EPOLL\<close> defined):
  the file descriptors of the processes (\<open>fd\<close>), of umview itself (\<open>lfd\<close>) and of the modules
  (\<open>sfd\<close>).

  The state has the table of the \<open>lfd\<close>s, the file tables of the processes (\<open>struct pcb_file\<close>, an
  address is an index of a list), the table of mounts of \<open>Hashtab\<close> with the context of the calling
  process, and a log of the calls that leave the file: on the fifos and to the modules.  The results
  of the calls of the host kernel are arguments.
\<close>

section \<open>Data\<close>

definition X_FD_FLAGS :: "32 word" where "X_FD_FLAGS = 0xc0000000"
definition X_FD_CLOEXEC :: "32 word" where "X_FD_CLOEXEC = 0x40000000"
definition X_FD_NBITS :: nat where "X_FD_NBITS = 30"
definition FD_CLOEXEC :: "32 word" where "FD_CLOEXEC = 1"
definition OLFD_STEP :: nat where "OLFD_STEP = 8"
definition UM_EPOLL_STEP :: nat where "UM_EPOLL_STEP = 3"

text \<open>A \<open>short\<close>.\<close>

definition s16 :: "int \<Rightarrow> int" where "s16 n = (n + 2 ^ 15) mod 2 ^ 16 - 2 ^ 15"

record lfd_vtable =
  pv_signaled :: bool
  pv_filename :: string
  pv_ififo :: int
  pv_ofifo :: int

record lfd_epoll_item =
  ei_fd :: int
  ei_event :: nat

text \<open>\<open>struct lfd_epoll\<close> with the size of its memory; \<open>ep_n\<close> is the length of the list.\<close>

record lfd_epoll =
  ep_list :: "lfd_epoll_item option list"
  ep_bytes :: nat

record lfd_table =
  lt_count :: int
  lt_hte :: "addr option"
  lt_sfd :: int
  lt_flags :: "32 word"
  lt_path :: "string option"
  lt_epoch :: epoch_t
  lt_pvtab :: "lfd_vtable option"
  lt_epoll :: "lfd_epoll option"

record pcb_file =
  pf_count :: int
  pf_lfdlist :: "32 word list"

datatype up_event =
    Mkfifo string
  | Close_fifo int
  | Unlink string
  | Write_fifo int
  | Read_fifo int
  | Service_close addr int

record umproc =
  up_lfd :: "lfd_table slots"
  up_files :: "pcb_file option list"
  up_ht :: ht_tab
  up_cx :: um_ctx
  up_tmp :: string         \<comment> \<open>the characters of \<open>um_tmpfile\<close> before \<open>um_tmpfile_tail\<close>\<close>
  up_log :: "up_event list"

section \<open>Entries of the table of local file descriptors\<close>

definition lfd_entry :: "umproc \<Rightarrow> int \<Rightarrow> lfd_table option" where
  "lfd_entry s lfd = (if lfd < 0 then None else slot_get (up_lfd s) (nat lfd))"

definition lfd_update :: "int \<Rightarrow> (lfd_table \<Rightarrow> lfd_table) \<Rightarrow> umproc \<Rightarrow> umproc option" where
  "lfd_update lfd f s = (case lfd_entry s lfd of None \<Rightarrow> None
     | Some e \<Rightarrow> Some (s\<lparr>up_lfd := slot_set (up_lfd s) (nat lfd) (f e)\<rparr>))"

definition up_emit :: "up_event \<Rightarrow> umproc \<Rightarrow> umproc" where
  "up_emit e s = s\<lparr>up_log := up_log s @ [e]\<rparr>"

definition lfd_alloc :: "lfd_table \<Rightarrow> lfd_table slots \<Rightarrow> (nat \<times> lfd_table slots) option" where
  "lfd_alloc = slot_alloc OLFD_STEP"

definition lfd_free :: "nat \<Rightarrow> lfd_table slots \<Rightarrow> lfd_table slots option" where
  "lfd_free = slot_free"

definition lfd_forall :: "(nat \<Rightarrow> lfd_table \<Rightarrow> 'b \<Rightarrow> 'b) \<Rightarrow> lfd_table slots \<Rightarrow> 'b \<Rightarrow> ('b \<times> lfd_table slots) option" where
  "lfd_forall = slot_forall"

definition lfd_forall_r :: "(nat \<Rightarrow> lfd_table \<Rightarrow> 'b option) \<Rightarrow> lfd_table slots \<Rightarrow> ('b option \<times> lfd_table slots) option" where
  "lfd_forall_r = slot_forall_r"

section \<open>Names of temporary files\<close>

text \<open>The computation of \<open>um_mmap_pageshift\<close> in \<open>um_proc_open\<close>.\<close>

fun pageshift_loop :: "nat \<Rightarrow> int \<Rightarrow> int" where
  "pageshift_loop pagesize shift = (if pagesize > 0 then pageshift_loop (pagesize div 2) (shift + 1) else shift)"

declare pageshift_loop.simps [simp del]

definition um_mmap_pageshift :: "nat \<Rightarrow> int" where
  "um_mmap_pageshift pagesize = pageshift_loop pagesize (-1)"

text \<open>\<open>um_tmpfile\<close> has room for 7 characters after \<open>up_tmp\<close>.\<close>

definition set_tail :: "umproc \<Rightarrow> string \<Rightarrow> string option" where
  "set_tail s tail = (if 7 < length tail then None else Some (up_tmp s @ tail))"

definition um_proc_fakecwd :: "umproc \<Rightarrow> string option" where
  "um_proc_fakecwd s = set_tail s ''fakecwd''"

definition pad_dec :: "nat \<Rightarrow> nat \<Rightarrow> string" where
  "pad_dec width n = (let d = dec_of_nat n in replicate (width - length d) (CHR ''0'') @ d)"

definition um_proc_tmpfile :: "umproc \<Rightarrow> addr \<Rightarrow> nat \<Rightarrow> string option" where
  "um_proc_tmpfile s hte lfd = do {
     name \<leftarrow> ht_get_servicename (up_ht s) (Some hte);
     n \<leftarrow> name;
     set_tail s (n @ pad_dec 2 lfd)
   }"

definition um_proc_tmpname :: "umproc \<Rightarrow> nat \<Rightarrow> (nat \<times> string) option" where
  "um_proc_tmpname s n = (let n = (n + 1) mod 1000000 in map_option (\<lambda>p. (n, p)) (set_tail s (pad_dec 6 n)))"

section \<open>Opening and closing local file descriptors\<close>

text \<open>\<open>ififo\<close> and \<open>ofifo\<close> are the results of \<open>r_open\<close>; \<open>confirms\<close> are the confirm functions of the modules.\<close>

definition lfd_open ::
  "confirms \<Rightarrow> int \<Rightarrow> int \<Rightarrow> umproc \<Rightarrow> addr option \<Rightarrow> int \<Rightarrow> string option \<Rightarrow> 32 word \<Rightarrow> bool \<Rightarrow> (int \<times> umproc) option" where
  "lfd_open cf ififo ofifo s hte sfd path flags nested = do {
     let e = \<lparr>lt_count = 1, lt_hte = hte, lt_sfd = sfd, lt_flags = flags, lt_path = path, lt_epoch = 0,
              lt_pvtab = None, lt_epoll = None\<rparr>;
     (lfd, tab) \<leftarrow> lfd_alloc e (up_lfd s);
     s \<leftarrow> (case hte of
         None \<Rightarrow> Some (s\<lparr>up_lfd := tab\<rparr>)
       | Some h \<Rightarrow> do { (cx, ht) \<leftarrow> ht_count_plus1 cf (up_ht s) (up_cx s) h; Some (s\<lparr>up_lfd := tab, up_ht := ht, up_cx := cx\<rparr>) });
     let (epoch, cx) = um_setnestepoch (up_cx s) 0;
     let e = e\<lparr>lt_epoch := epoch\<rparr>;
     let s = s\<lparr>up_lfd := slot_set tab lfd e, up_cx := cx\<rparr>;
     (case (hte, nested) of
        (Some h, False) \<Rightarrow> do {
          filename \<leftarrow> um_proc_tmpfile s h lfd;
          if ififo < 0 \<or> ofifo < 0 then None
          else
            let e = e\<lparr>lt_pvtab := Some \<lparr>pv_signaled = False, pv_filename = filename, pv_ififo = ififo, pv_ofifo = ofifo\<rparr>\<rparr> in
            Some (int lfd, up_emit (Mkfifo filename) (s\<lparr>up_lfd := slot_set tab lfd e\<rparr>))
        }
      | _ \<Rightarrow> Some (int lfd, s))
   }"

text \<open>The end of an entry whose last reference is closed.\<close>

definition lfd_release :: "umproc \<Rightarrow> nat \<Rightarrow> lfd_table \<Rightarrow> umproc option" where
  "lfd_release s lfd e = do {
     let s = (case lt_pvtab e of None \<Rightarrow> s
        | Some pv \<Rightarrow> up_emit (Unlink (pv_filename pv)) (up_emit (Close_fifo (pv_ofifo pv)) (up_emit (Close_fifo (pv_ififo pv)) s)));
     let s = (case lt_hte e of Some h \<Rightarrow> if lt_sfd e \<ge> 0 then up_emit (Service_close h (lt_sfd e)) s else s | None \<Rightarrow> s);
     ht \<leftarrow> (case lt_hte e of Some h \<Rightarrow> ht_count_minus1 (up_ht s) h | None \<Rightarrow> Some (up_ht s));
     tab \<leftarrow> lfd_free lfd (up_lfd s);
     Some (s\<lparr>up_ht := ht, up_lfd := tab\<rparr>)
   }"

definition lfd_close :: "umproc \<Rightarrow> int \<Rightarrow> umproc option" where
  "lfd_close s lfd =
     (if lfd < 0 then Some s
      else do {
        e \<leftarrow> lfd_entry s lfd;
        let e = e\<lparr>lt_count := s16 (lt_count e - 1)\<rparr>;
        let s = s\<lparr>up_lfd := slot_set (up_lfd s) (nat lfd) e\<rparr>;
        if lt_count e = 0 then lfd_release s (nat lfd) e else Some s
      })"

definition lfd_dup :: "umproc \<Rightarrow> int \<Rightarrow> (int \<times> umproc) option" where
  "lfd_dup s lfd =
     (if lfd \<ge> 0 then do {
        e \<leftarrow> lfd_entry s lfd;
        s \<leftarrow> lfd_update lfd (\<lambda>e. e\<lparr>lt_count := s16 (lt_count e + 1)\<rparr>) s;
        Some (s16 (lt_count e + 1), s)
      } else Some (1, s))"

definition lfd_getcount :: "umproc \<Rightarrow> int \<Rightarrow> int option" where
  "lfd_getcount s lfd = map_option lt_count (lfd_entry s lfd)"

definition lfd_nullsfd :: "umproc \<Rightarrow> int \<Rightarrow> umproc option" where
  "lfd_nullsfd s lfd = lfd_update lfd (\<lambda>e. e\<lparr>lt_sfd := -1\<rparr>) s"

definition lfd_getsfd :: "umproc \<Rightarrow> int \<Rightarrow> int option" where
  "lfd_getsfd s lfd = map_option lt_sfd (lfd_entry s lfd)"

definition lfd_getht :: "umproc \<Rightarrow> int \<Rightarrow> addr option option" where
  "lfd_getht s lfd = map_option lt_hte (lfd_entry s lfd)"

definition lfd_getfilename :: "umproc \<Rightarrow> int \<Rightarrow> string option" where
  "lfd_getfilename s lfd = do { e \<leftarrow> lfd_entry s lfd; pv \<leftarrow> lt_pvtab e; Some (pv_filename pv) }"

definition lfd_getpath :: "umproc \<Rightarrow> int \<Rightarrow> string option option" where
  "lfd_getpath s lfd = map_option lt_path (lfd_entry s lfd)"

section \<open>The file table of a process\<close>

text \<open>\<open>FD2LFD\<close> and \<open>FD2FDFLAGS\<close> of an entry of \<open>lfdlist\<close>; an entry is valid when it is not negative.\<close>

definition FD2LFD :: "32 word \<Rightarrow> int" where
  "FD2LFD w = uint (w AND NOT X_FD_FLAGS)"

definition FD2FDFLAGS :: "32 word \<Rightarrow> int" where
  "FD2FDFLAGS w = sint (signed_drop_bit X_FD_NBITS w)"

definition fd_valid :: "pcb_file \<Rightarrow> int \<Rightarrow> bool" where
  "fd_valid p fd \<longleftrightarrow> fd \<ge> 0 \<and> fd < int (length (pf_lfdlist p)) \<and> sint (pf_lfdlist p ! nat fd) \<ge> 0"

definition fd2lfd :: "pcb_file \<Rightarrow> int \<Rightarrow> int" where
  "fd2lfd p fd = (if fd_valid p fd then FD2LFD (pf_lfdlist p ! nat fd) else -1)"

definition fd_getfdfl :: "pcb_file \<Rightarrow> int \<Rightarrow> int" where
  "fd_getfdfl p fd = (if fd_valid p fd then FD2FDFLAGS (pf_lfdlist p ! nat fd) else -1)"

definition fd_setfdfl :: "pcb_file \<Rightarrow> int \<Rightarrow> 32 word \<Rightarrow> int \<times> pcb_file" where
  "fd_setfdfl p fd val =
     (if fd_valid p fd then
        let w = pf_lfdlist p ! nat fd in
        (0, p\<lparr>pf_lfdlist := (pf_lfdlist p)[nat fd := (if (val AND FD_CLOEXEC) \<noteq> 0 then w OR X_FD_CLOEXEC else w AND NOT X_FD_CLOEXEC)]\<rparr>)
      else (-1, p))"

definition fd_getflfl :: "umproc \<Rightarrow> pcb_file \<Rightarrow> int \<Rightarrow> (32 word) option" where
  "fd_getflfl s p fd = (if fd_valid p fd then map_option lt_flags (lfd_entry s (fd2lfd p fd)) else Some (-1))"

text \<open>\<open>O_APPEND | O_ASYNC | O_DIRECT | O_NOATIME | O_NONBLOCK\<close>.\<close>

definition SETFLSET :: "32 word" where "SETFLSET = (0x400 OR 0x2000 OR 0x4000 OR 0x40000 OR 0x800)"

definition fd_setflfl :: "umproc \<Rightarrow> pcb_file \<Rightarrow> int \<Rightarrow> 32 word \<Rightarrow> (int \<times> umproc) option" where
  "fd_setflfl s p fd flags =
     (if fd_valid p fd then
        map_option (\<lambda>s. (0, s))
          (lfd_update (fd2lfd p fd) (\<lambda>e. e\<lparr>lt_flags := (lt_flags e AND NOT SETFLSET) OR (flags AND SETFLSET)\<rparr>) s)
      else Some (-1, s))"

text \<open>A pointer of the list of unused entries passes the test for NULL unless it is the index 0.\<close>

definition fd_getpath :: "umproc \<Rightarrow> pcb_file \<Rightarrow> int \<Rightarrow> string option option" where
  "fd_getpath s p fd =
     (if fd \<ge> 0 \<and> fd < int (length (pf_lfdlist p)) then
        let lfd = nat (FD2LFD (pf_lfdlist p ! nat fd)) in
        if lfd < length (sl_tab (up_lfd s)) then
          (case sl_tab (up_lfd s) ! lfd of Used e \<Rightarrow> Some (lt_path e) | Next n \<Rightarrow> if n = 0 then Some None else None)
        else Some None
      else Some None)"

definition fd2sfd :: "umproc \<Rightarrow> pcb_file \<Rightarrow> int \<Rightarrow> int option" where
  "fd2sfd s p fd = (if fd_valid p fd then map_option lt_sfd (lfd_entry s (fd2lfd p fd)) else Some (-1))"

text \<open>\<open>ht_fd\<close>: \<open>HT_ERR\<close> for the descriptor of the mmap file.\<close>

datatype ht_ref = HT_ERR | HT_REF "addr option"

definition ht_fd :: "umproc \<Rightarrow> int \<Rightarrow> pcb_file \<Rightarrow> int \<Rightarrow> bool \<Rightarrow> (ht_ref \<times> umproc) option" where
  "ht_fd s um_mmap_secret p fd setepoch =
     (if fd = um_mmap_secret then Some (HT_ERR, s)
      else if fd_valid p fd then do {
        e \<leftarrow> lfd_entry s (fd2lfd p fd);
        let s = (if setepoch then s\<lparr>up_cx := snd (um_setnestepoch (up_cx s) (lt_epoch e))\<rparr> else s);
        Some (HT_REF (lt_hte e), s)
      }
      else Some (HT_REF None, s))"

text \<open>A write outside of the list is \<open>None\<close>; the list grows to a multiple of \<open>OLFD_STEP\<close>.\<close>

definition lfd_register :: "pcb_file \<Rightarrow> int \<Rightarrow> int \<Rightarrow> pcb_file option" where
  "lfd_register p fd lfd =
     (let n = length (pf_lfdlist p);
          l = (if fd \<ge> int n then
                 let m = nat ((fd + int OLFD_STEP) - (fd + int OLFD_STEP) mod int OLFD_STEP) in
                 pf_lfdlist p @ replicate (m - n) (-1)
               else pf_lfdlist p) in
      if fd < 0 \<or> fd \<ge> int (length l) then None
      else Some (p\<lparr>pf_lfdlist := l[nat fd := word_of_int lfd]\<rparr>))"

definition lfd_deregister_n_close :: "umproc \<Rightarrow> pcb_file \<Rightarrow> int \<Rightarrow> (pcb_file \<times> umproc) option" where
  "lfd_deregister_n_close s p fd =
     (if pf_lfdlist p \<noteq> [] \<and> fd < int (length (pf_lfdlist p)) then
        if fd < 0 then None
        else if sint (pf_lfdlist p ! nat fd) \<ge> 0 then do {
          s \<leftarrow> lfd_close s (FD2LFD (pf_lfdlist p ! nat fd));
          Some (p\<lparr>pf_lfdlist := (pf_lfdlist p)[nat fd := -1]\<rparr>, s)
        }
        else Some (p, s)
      else Some (p, s))"

section \<open>Processes\<close>

definition CLONE_FILES :: "32 word" where "CLONE_FILES = 0x400"

text \<open>Every entry of the new file table is one more reference to its \<open>lfd\<close>.\<close>

fun addproc_refs :: "32 word list \<Rightarrow> umproc \<Rightarrow> umproc option" where
  "addproc_refs [] s = Some s"
| "addproc_refs (w # ws) s =
     (if sint w \<ge> 0 then Option.bind (lfd_update (FD2LFD w) (\<lambda>e. e\<lparr>lt_count := s16 (lt_count e + 1)\<rparr>) s) (addproc_refs ws)
      else addproc_refs ws s)"

text \<open>\<open>ppfds\<close> is the file table of the parent; the result is the file table of the new process.\<close>

definition umproc_addproc :: "umproc \<Rightarrow> addr \<Rightarrow> 32 word \<Rightarrow> bool \<Rightarrow> addr option \<Rightarrow> (addr option \<times> umproc) option" where
  "umproc_addproc s ppfds flags npcbflag fds =
     (if npcbflag then Some (fds, s)
      else if ppfds < length (up_files s) then do {
        pp \<leftarrow> up_files s ! ppfds;
        if (flags AND CLONE_FILES) \<noteq> 0 then
          Some (Some ppfds, s\<lparr>up_files := (up_files s)[ppfds := Some (pp\<lparr>pf_count := pf_count pp + 1\<rparr>)]\<rparr>)
        else do {
          s \<leftarrow> addproc_refs (pf_lfdlist pp) s;
          Some (Some (length (up_files s)), s\<lparr>up_files := up_files s @ [Some \<lparr>pf_count = 1, pf_lfdlist = pf_lfdlist pp\<rparr>]\<rparr>)
        }
      }
      else None)"

fun delproc_close :: "32 word list \<Rightarrow> umproc \<Rightarrow> umproc option" where
  "delproc_close [] s = Some s"
| "delproc_close (w # ws) s =
     (if sint w \<ge> 0 then Option.bind (lfd_close s (FD2LFD w)) (delproc_close ws) else delproc_close ws s)"

definition umproc_delproc :: "umproc \<Rightarrow> addr \<Rightarrow> bool \<Rightarrow> umproc option" where
  "umproc_delproc s fds npcbflag =
     (if npcbflag then Some s
      else if fds < length (up_files s) then do {
        p \<leftarrow> up_files s ! fds;
        let p = p\<lparr>pf_count := pf_count p - 1\<rparr>;
        if pf_count p = 0 then do {
          s \<leftarrow> delproc_close (pf_lfdlist p) s;
          Some (s\<lparr>up_files := (up_files s)[fds := None]\<rparr>)
        }
        else Some (s\<lparr>up_files := (up_files s)[fds := Some p]\<rparr>)
      }
      else None)"

section \<open>Signals on the fifos\<close>

definition lfd_signal :: "umproc \<Rightarrow> int \<Rightarrow> umproc option" where
  "lfd_signal s lfd = do {
     e \<leftarrow> lfd_entry s lfd;
     case lt_pvtab e of
       None \<Rightarrow> Some s
     | Some pv \<Rightarrow>
       if \<not> pv_signaled pv then
         map_option (up_emit (Write_fifo (pv_ofifo pv)))
           (lfd_update lfd (\<lambda>e. e\<lparr>lt_pvtab := Some (pv\<lparr>pv_signaled := True\<rparr>)\<rparr>) s)
       else Some s
   }"

definition lfd_delsignal :: "umproc \<Rightarrow> int \<Rightarrow> umproc option" where
  "lfd_delsignal s lfd = do {
     e \<leftarrow> lfd_entry s lfd;
     pv \<leftarrow> lt_pvtab e;
     if pv_signaled pv then
       map_option (up_emit (Read_fifo (pv_ififo pv)))
         (lfd_update lfd (\<lambda>e. e\<lparr>lt_pvtab := Some (pv\<lparr>pv_signaled := False\<rparr>)\<rparr>) s)
     else Some s
   }"

definition lfd_closeall_item :: "nat \<Rightarrow> lfd_table \<Rightarrow> up_event list \<Rightarrow> up_event list" where
  "lfd_closeall_item lfd e log = (case lt_pvtab e of None \<Rightarrow> log
     | Some pv \<Rightarrow> log @ [Close_fifo (pv_ififo pv), Close_fifo (pv_ofifo pv), Unlink (pv_filename pv)])"

definition lfd_closeall :: "umproc \<Rightarrow> umproc option" where
  "lfd_closeall s = map_option (\<lambda>(log, tab). s\<lparr>up_lfd := tab, up_log := log\<rparr>) (lfd_forall lfd_closeall_item (up_lfd s) (up_log s))"

section \<open>Epoll\<close>

text \<open>The index of the first entry that satisfies \<open>P\<close>, or the length of the list.\<close>

fun first_index :: "('a \<Rightarrow> bool) \<Rightarrow> 'a list \<Rightarrow> nat" where
  "first_index P [] = 0"
| "first_index P (x # xs) = (if P x then 0 else Suc (first_index P xs))"

text \<open>The header of \<open>struct lfd_epoll\<close> and each pointer take 8 bytes, an item 16.\<close>

definition epoll_new :: lfd_epoll where
  "epoll_new = \<lparr>ep_list = replicate UM_EPOLL_STEP None, ep_bytes = 8 + 8 * UM_EPOLL_STEP\<rparr>"

definition epoll_insert :: "lfd_epoll_item \<Rightarrow> lfd_epoll \<Rightarrow> lfd_epoll option" where
  "epoll_insert item ep =
     (let new = first_index (\<lambda>x. x = None) (ep_list ep);
          ep = (if new \<ge> length (ep_list ep)
                then \<lparr>ep_list = ep_list ep @ replicate UM_EPOLL_STEP None,
                      ep_bytes = 8 + 16 * (length (ep_list ep) + UM_EPOLL_STEP - UM_EPOLL_STEP)\<rparr>
                else ep) in
      if ep_bytes ep < 8 + 8 * length (ep_list ep) then None
      else Some (ep\<lparr>ep_list := (ep_list ep)[new := Some item]\<rparr>))"

definition lfd_epoll_add :: "umproc \<Rightarrow> pcb_file \<Rightarrow> int \<Rightarrow> lfd_epoll_item \<Rightarrow> umproc option" where
  "lfd_epoll_add s p epfd item =
     (if epfd < 0 \<or> epfd \<ge> int (length (pf_lfdlist p)) then None
      else do {
        let lfd = FD2LFD (pf_lfdlist p ! nat epfd);
        e \<leftarrow> lfd_entry s lfd;
        ep \<leftarrow> epoll_insert item (case lt_epoll e of None \<Rightarrow> epoll_new | Some ep \<Rightarrow> ep);
        lfd_update lfd (\<lambda>e. e\<lparr>lt_epoll := Some ep\<rparr>) s
      })"

definition item_is :: "int \<Rightarrow> lfd_epoll_item option \<Rightarrow> bool" where
  "item_is fd x \<longleftrightarrow> (case x of None \<Rightarrow> False | Some it \<Rightarrow> ei_fd it = fd)"

definition lfd_epoll_del :: "umproc \<Rightarrow> pcb_file \<Rightarrow> int \<Rightarrow> int \<Rightarrow> umproc option" where
  "lfd_epoll_del s p epfd fd =
     (if epfd < 0 \<or> epfd \<ge> int (length (pf_lfdlist p)) then None
      else do {
        let lfd = FD2LFD (pf_lfdlist p ! nat epfd);
        e \<leftarrow> lfd_entry s lfd;
        case lt_epoll e of
          None \<Rightarrow> Some s
        | Some ep \<Rightarrow>
          lfd_update lfd (\<lambda>e. e\<lparr>lt_epoll := Some (ep\<lparr>ep_list := (ep_list ep)[first_index (item_is fd) (ep_list ep) := None]\<rparr>)\<rparr>) s
      })"

definition lfd_epoll_search :: "umproc \<Rightarrow> pcb_file \<Rightarrow> int \<Rightarrow> int \<Rightarrow> lfd_epoll_item option option" where
  "lfd_epoll_search s p epfd fd =
     (if epfd < 0 \<or> epfd \<ge> int (length (pf_lfdlist p)) then None
      else do {
        e \<leftarrow> lfd_entry s (FD2LFD (pf_lfdlist p ! nat epfd));
        Some (case lt_epoll e of
          None \<Rightarrow> None
        | Some ep \<Rightarrow> let i = first_index (item_is fd) (ep_list ep) in
                     if i < length (ep_list ep) then ep_list ep ! i else None)
      })"

definition lfd_epoll_forall :: "umproc \<Rightarrow> pcb_file \<Rightarrow> int \<Rightarrow> (lfd_epoll_item \<Rightarrow> 'a \<Rightarrow> 'a) \<Rightarrow> 'a \<Rightarrow> 'a option" where
  "lfd_epoll_forall s p epfd f acc =
     (if epfd < 0 \<or> epfd \<ge> int (length (pf_lfdlist p)) then None
      else do {
        e \<leftarrow> lfd_entry s (FD2LFD (pf_lfdlist p ! nat epfd));
        Some (case lt_epoll e of
          None \<Rightarrow> acc
        | Some ep \<Rightarrow> fold (\<lambda>x acc. case x of None \<Rightarrow> acc | Some it \<Rightarrow> f it acc) (ep_list ep) acc)
      })"

section \<open>Paths of the descriptors of the modules\<close>

definition sfd_getpath_check :: "addr option \<Rightarrow> int \<Rightarrow> nat \<Rightarrow> lfd_table \<Rightarrow> string option" where
  "sfd_getpath_check hte sfd lfd e = (if lt_hte e = hte \<and> lt_sfd e = sfd then lt_path e else None)"

definition sfd_getpath :: "umproc \<Rightarrow> addr option \<Rightarrow> int \<Rightarrow> (string option \<times> umproc) option" where
  "sfd_getpath s hte sfd =
     map_option (\<lambda>(r, tab). (r, s\<lparr>up_lfd := tab\<rparr>)) (lfd_forall_r (sfd_getpath_check hte sfd) (up_lfd s))"

end
