(* ===== verification/Umproc_Refs.thy ===== *)
theory Umproc_Refs
  imports Umproc
begin

text \<open>
  The reference counts of the local file descriptors: the table as a store, what each operation does
  to the references, the steps of the system calls and the states they reach.
\<close>

interpretation lfds: slot_store lfd_alloc lfd_free slot_get slots_ok
  by unfold_locales (use alloc_ok [where step = OLFD_STEP] free_ok in \<open>auto simp: lfd_alloc_def lfd_free_def OLFD_STEP_def\<close>)

section \<open>References\<close>

definition ref_of :: "int \<Rightarrow> 32 word \<Rightarrow> nat" where
  "ref_of l w = (if sint w \<ge> 0 \<and> FD2LFD w = l then 1 else 0)"

definition file_refs :: "int \<Rightarrow> pcb_file option \<Rightarrow> nat" where
  "file_refs l p = (case p of None \<Rightarrow> 0 | Some p \<Rightarrow> sum_list (map (ref_of l) (pf_lfdlist p)))"

definition refs :: "pcb_file option list \<Rightarrow> int \<Rightarrow> nat" where
  "refs fs l = sum_list (map (file_refs l) fs)"

lemma sum_list_upd: "k < length xs \<Longrightarrow> sum_list (map f (xs[k := x])) + f (xs ! k) = sum_list (map f xs) + (f x :: nat)"
  by (induction xs arbitrary: k) (auto simp: nth_Cons split: nat.splits)

lemma refs_upd: "a < length fs \<Longrightarrow> refs (fs[a := p]) l + file_refs l (fs ! a) = refs fs l + file_refs l p"
  unfolding refs_def by (rule sum_list_upd)

lemma refs_append: "refs (fs @ [p]) l = refs fs l + file_refs l p"
  by (simp add: refs_def)

text \<open>
  The references of a state: those of the file tables and \<open>pend\<close>, the descriptors that are open and
  not yet registered.
\<close>

fun entry_ok :: "nat \<Rightarrow> lfd_table option \<Rightarrow> bool" where
  "entry_ok n None \<longleftrightarrow> n = 0"
| "entry_ok n (Some e) \<longleftrightarrow> lt_count e = int n \<and> 0 < lt_count e \<and> lt_count e < 2 ^ 15"

definition up_ok :: "(int \<Rightarrow> nat) \<Rightarrow> umproc \<Rightarrow> bool" where
  "up_ok pend s \<longleftrightarrow> slots_ok (up_lfd s) \<and> (\<forall>l. entry_ok (refs (up_files s) l + pend l) (lfd_entry s l))"

lemma up_okD:
  assumes "up_ok pend s"
  shows "slots_ok (up_lfd s)" "entry_ok (refs (up_files s) l + pend l) (lfd_entry s l)"
  using assms unfolding up_ok_def by blast+

lemma up_okI:
  assumes "slots_ok (up_lfd s)" "\<And>l. entry_ok (refs (up_files s) l + pend l) (lfd_entry s l)"
  shows "up_ok pend s"
  using assms unfolding up_ok_def by blast

lemma entry_files [simp]: "lfd_entry (s\<lparr>up_files := fs\<rparr>) l = lfd_entry s l"
  by (simp add: lfd_entry_def)

lemma up_ok_move:
  assumes "up_ok pend s" "\<And>l. refs fs l + pend' l = refs (up_files s) l + pend l"
  shows "up_ok pend' (s\<lparr>up_files := fs\<rparr>)"
  by (rule up_okI) (use up_okD [OF assms(1)] assms(2) in simp_all)

lemma s16_id: "- (2 ^ 15) \<le> n \<Longrightarrow> n < 2 ^ 15 \<Longrightarrow> s16 n = n"
  by (simp add: s16_def)

lemma entry_slot: "lfd_entry s l = Some e \<Longrightarrow> 0 \<le> l \<and> slot_get (up_lfd s) (nat l) = Some e"
  by (simp add: lfd_entry_def split: if_splits)

lemma entry_set:
  assumes "slots_ok (up_lfd s)" "lfd_entry s l = Some e"
  shows "slots_ok (slot_set (up_lfd s) (nat l) e')"
    "lfd_entry (s\<lparr>up_lfd := slot_set (up_lfd s) (nat l) e'\<rparr>) k = (if k = l then Some e' else lfd_entry s k)"
  using set_ok [OF assms(1), of "nat l" e e'] entry_slot [OF assms(2)] by (auto simp: lfd_entry_def)

lemma up_ok_set:
  assumes ok: "up_ok pend s" and e: "lfd_entry s l = Some e"
    and c: "lt_count e' = int (refs (up_files s) l + pend' l)" "0 < lt_count e'" "lt_count e' < 2 ^ 15"
    and p: "\<And>k. k \<noteq> l \<Longrightarrow> pend' k = pend k"
  shows "up_ok pend' (s\<lparr>up_lfd := slot_set (up_lfd s) (nat l) e'\<rparr>)"
proof -
  note sl = up_okD(1) [OF ok]
  show ?thesis
  proof (rule up_okI)
    fix k
    show "entry_ok (refs (up_files (s\<lparr>up_lfd := slot_set (up_lfd s) (nat l) e'\<rparr>)) k + pend' k)
        (lfd_entry (s\<lparr>up_lfd := slot_set (up_lfd s) (nat l) e'\<rparr>) k)"
      unfolding entry_set(2) [OF sl e] using up_okD(2) [OF ok, of k] c p [of k] by (cases "k = l") simp_all
  qed (use entry_set(1) [OF sl e] in simp)
qed

lemma release_SomeD:
  assumes "lfd_release s l e = Some s'"
  shows "lfd_free l (up_lfd s) = Some (up_lfd s')" "up_files s' = up_files s"
  using assms by (auto simp: lfd_release_def Let_def up_emit_def bind_eq_Some_conv split: option.splits if_splits)

lemma close_ok:
  assumes ok: "up_ok pend s" and p: "0 < pend l" and r: "lfd_close s l = Some s'"
  shows "up_ok (pend(l := pend l - 1)) s' \<and> up_files s' = up_files s"
proof -
  have "lfd_entry s l \<noteq> None" using up_okD(2) [OF ok, of l] p by (cases "lfd_entry s l") auto
  then obtain e where e: "lfd_entry s l = Some e" by blast
  have c: "lt_count e = int (refs (up_files s) l + pend l)" "0 < lt_count e" "lt_count e < 2 ^ 15" using up_okD(2) [OF ok, of l] e by auto
  have l: "0 \<le> l" using entry_slot [OF e] by simp
  have s16: "s16 (lt_count e - 1) = lt_count e - 1" by (rule s16_id) (use c in auto)
  let ?e = "e\<lparr>lt_count := lt_count e - 1\<rparr>"
  let ?s = "s\<lparr>up_lfd := slot_set (up_lfd s) (nat l) ?e\<rparr>"
  have r': "(if lt_count e - 1 = 0 then lfd_release ?s (nat l) ?e else Some ?s) = Some s'"
    using r e l s16 by (auto simp: lfd_close_def Let_def)
  show ?thesis
  proof (cases "lt_count e - 1 = 0")
    case False
    then have "s' = ?s" using r' by simp
    moreover have "up_ok (pend(l := pend l - 1)) ?s" by (rule up_ok_set [OF ok e]) (use c p False in auto)
    ultimately show ?thesis by simp
  next
    case True
    define tab where "tab = up_lfd s'"
    have t: "lfd_free (nat l) (up_lfd ?s) = Some tab" "up_files s' = up_files s" "up_lfd s' = tab"
      using release_SomeD [of ?s "nat l" ?e s'] r' True by (simp_all add: tab_def)
    note sl = up_okD(1) [OF ok]
    have sg: "slots_ok (up_lfd ?s)" "slot_get (up_lfd ?s) (nat l) = Some ?e"
      using set_ok [OF sl conjunct2 [OF entry_slot [OF e]], of ?e] by simp_all
    obtain tab' where "slot_free (nat l) (up_lfd ?s) = Some tab'" "slots_ok tab'" "slot_get tab' = (slot_get (up_lfd ?s))(nat l := None)"
      using free_ok [OF sg] by blast
    then have tb: "slots_ok tab" "slot_get tab = (slot_get (up_lfd ?s))(nat l := None)" using t(1) by (auto simp: lfd_free_def)
    have en: "lfd_entry s' k = (if k = l then None else lfd_entry s k)" for k
      using tb(2) entry_set(2) [OF sl e, of ?e k] l by (auto simp: lfd_entry_def t(3) split: if_splits)
    have "refs (up_files s) l + (pend l - 1) = 0" using c(1) True p by linarith
    then have "entry_ok (refs (up_files s') k + (pend(l := pend l - 1)) k) (lfd_entry s' k)" for k
      unfolding en t(2) using up_okD(2) [OF ok, of k] by (cases "k = l") simp_all
    then have "up_ok (pend(l := pend l - 1)) s'" using tb(1) t(3) by (intro up_okI) simp_all
    then show ?thesis by (simp add: t(2))
  qed
qed

lemma dup_ok:
  assumes ok: "up_ok pend s" and r: "lfd_dup s l = Some (n, s')" and l: "0 \<le> l" and n: "refs (up_files s) l + pend l + 1 < 2 ^ 15"
  shows "up_ok (pend(l := pend l + 1)) s' \<and> up_files s' = up_files s"
proof -
  obtain e where e: "lfd_entry s l = Some e" "n = s16 (lt_count e + 1)"
     "s' = s\<lparr>up_lfd := slot_set (up_lfd s) (nat l) (e\<lparr>lt_count := s16 (lt_count e + 1)\<rparr>)\<rparr>"
    using r l by (auto simp: lfd_dup_def lfd_update_def bind_eq_Some_conv split: option.splits)
  have c: "lt_count e = int (refs (up_files s) l + pend l)" "0 < lt_count e" "lt_count e < 2 ^ 15" using up_okD(2) [OF ok, of l] e(1) by auto
  have "lt_count e + 1 < 2 ^ 15" using n c(1) by simp
  then have s16: "s16 (lt_count e + 1) = lt_count e + 1" by (intro s16_id) (use c in auto)
  have "up_ok (pend(l := pend l + 1)) s'" unfolding e(3) s16
    by (rule up_ok_set [OF ok e(1)]) (use c \<open>lt_count e + 1 < 2 ^ 15\<close> in auto)
  then show ?thesis by (simp add: e(3))
qed

lemma open_SomeD:
  assumes r: "lfd_open cf i_f o_f s hte sfd path flags nested = Some (l, s')"
  defines "e \<equiv> \<lparr>lt_count = 1, lt_hte = hte, lt_sfd = sfd, lt_flags = flags, lt_path = path, lt_epoch = 0,
              lt_pvtab = None, lt_epoll = None\<rparr>"
  shows "\<exists>i tab ep pv. lfd_alloc e (up_lfd s) = Some (i, tab) \<and> l = int i \<and> up_files s' = up_files s \<and>
     up_lfd s' = slot_set tab i (e\<lparr>lt_epoch := ep, lt_pvtab := pv\<rparr>)"
proof -
  obtain i tab where a: "lfd_alloc e (up_lfd s) = Some (i, tab)"
    using r unfolding lfd_open_def e_def by (auto simp: bind_eq_Some_conv)
  have "l = int i \<and> up_files s' = up_files s \<and> (\<exists>ep pv. up_lfd s' = slot_set tab i (e\<lparr>lt_epoch := ep, lt_pvtab := pv\<rparr>))"
    using r a unfolding lfd_open_def e_def
    by (cases hte; cases nested)
       (auto simp: bind_eq_Some_conv Let_def up_emit_def case_prod_beta split: if_splits, (intro exI, rule refl)+)
  then show ?thesis using a by blast
qed

lemma open_ok:
  assumes ok: "up_ok pend s" and r: "lfd_open cf i_f o_f s hte sfd path flags nested = Some (l, s')"
  shows "up_ok (pend(l := pend l + 1)) s' \<and> up_files s' = up_files s \<and> 0 \<le> l \<and> lfd_entry s l = None \<and>
     (\<exists>e. lfd_entry s' l = Some e \<and> lt_hte e = hte \<and> lt_sfd e = sfd \<and> lt_path e = path \<and> lt_flags e = flags) \<and>
     (\<forall>k. k \<noteq> l \<longrightarrow> lfd_entry s' k = lfd_entry s k)"
proof -
  define e where "e = \<lparr>lt_count = 1, lt_hte = hte, lt_sfd = sfd, lt_flags = flags, lt_path = path, lt_epoch = 0,
              lt_pvtab = None, lt_epoll = None\<rparr>"
  obtain i tab ep pv where a: "lfd_alloc e (up_lfd s) = Some (i, tab)"
    and s': "l = int i" "up_files s' = up_files s" "up_lfd s' = slot_set tab i (e\<lparr>lt_epoch := ep, lt_pvtab := pv\<rparr>)"
    using open_SomeD [OF r] unfolding e_def [symmetric] by blast
  note al = lfds.alloc_obtain [OF up_okD(1) [OF ok] a]
  let ?e = "e\<lparr>lt_epoch := ep, lt_pvtab := pv\<rparr>"
  have g: "slot_get tab i = Some e" using al(3) by simp
  have st: "slots_ok (slot_set tab i ?e)" "slot_get (slot_set tab i ?e) = (slot_get (up_lfd s))(i \<mapsto> ?e)"
    using set_ok [OF al(1) g, of ?e] al(3) by simp_all
  have en: "lfd_entry s' k = (if k = l then Some ?e else lfd_entry s k)" for k
    using s'(1,3) st(2) by (auto simp: lfd_entry_def)
  have none: "lfd_entry s l = None" using al(2) s'(1) by (simp add: lfd_entry_def)
  have "up_ok (pend(l := pend l + 1)) s'"
  proof (rule up_okI)
    fix k
    show "entry_ok (refs (up_files s') k + (pend(l := pend l + 1)) k) (lfd_entry s' k)"
      unfolding en s'(2) using up_okD(2) [OF ok, of k] none by (cases "k = l") (simp_all add: e_def)
  qed (use s'(3) st(1) in simp)
  then show ?thesis using s'(1,2) none en by (auto simp: e_def)
qed

text \<open>The entries of the list of a process.\<close>

lemma fd_word: "sint w \<ge> 0 \<longleftrightarrow> \<not> bit (w :: 32 word) 31"
  using bit_last_iff [of w] by auto

lemma flags_mask: "NOT X_FD_FLAGS = mask 30" "X_FD_CLOEXEC = 2 ^ 30"
  by (simp_all add: X_FD_FLAGS_def X_FD_CLOEXEC_def mask_eq_exp_minus_1)

lemma FD2LFD_take: "FD2LFD w = take_bit 30 (uint w)"
  unfolding FD2LFD_def flags_mask take_bit_eq_mask [symmetric] by (rule unsigned_take_bit_eq)

lemma fd2lfd_word:
  assumes "0 \<le> l" "l < 2 ^ 30"
  shows "sint (word_of_int l :: 32 word) \<ge> 0" "FD2LFD (word_of_int l) = l"
proof -
  have u: "uint (word_of_int l :: 32 word) = l" using assms by (simp add: uint_word_of_int)
  then have "take_bit 30 (uint (word_of_int l :: 32 word)) = l" using assms by (simp add: take_bit_int_eq_self)
  then show "FD2LFD (word_of_int l) = l" by (simp add: FD2LFD_take)
  show "sint (word_of_int l :: 32 word) \<ge> 0" using assms by (simp add: sint_uint u signed_take_bit_int_eq_self)
qed

lemma bit_cloexec: "bit X_FD_CLOEXEC n \<longleftrightarrow> n = 30"
  unfolding flags_mask(2) bit_exp_iff by auto

lemma cloexec_word:
  "sint (w OR X_FD_CLOEXEC) \<ge> 0 \<longleftrightarrow> sint w \<ge> 0" "FD2LFD (w OR X_FD_CLOEXEC) = FD2LFD w"
  "sint (w AND NOT X_FD_CLOEXEC) \<ge> 0 \<longleftrightarrow> sint w \<ge> 0" "FD2LFD (w AND NOT X_FD_CLOEXEC) = FD2LFD w"
proof -
  show "sint (w OR X_FD_CLOEXEC) \<ge> 0 \<longleftrightarrow> sint w \<ge> 0" "sint (w AND NOT X_FD_CLOEXEC) \<ge> 0 \<longleftrightarrow> sint w \<ge> 0"
    unfolding fd_word by (simp_all add: bit_simps bit_cloexec)
  show "FD2LFD (w OR X_FD_CLOEXEC) = FD2LFD w" "FD2LFD (w AND NOT X_FD_CLOEXEC) = FD2LFD w"
    unfolding FD2LFD_take by (rule bit_eqI; auto simp: bit_simps bit_cloexec)+
qed

lemma ref_of_cloexec: "ref_of l (w OR X_FD_CLOEXEC) = ref_of l w" "ref_of l (w AND NOT X_FD_CLOEXEC) = ref_of l w"
  by (simp_all add: ref_of_def cloexec_word)

lemma ref_of_invalid [simp]: "ref_of l (- 1) = 0"
  by (simp add: ref_of_def)

text \<open>The registration of \<open>l\<close> at a free \<open>fd\<close>, and the release of a registered one.\<close>

definition list_refs :: "int \<Rightarrow> 32 word list \<Rightarrow> nat" where
  "list_refs l ws = sum_list (map (ref_of l) ws)"

lemma file_refs_Some [simp]: "file_refs l (Some p) = list_refs l (pf_lfdlist p)" "file_refs l None = 0"
  by (simp_all add: file_refs_def list_refs_def)

lemma list_refs_upd: "k < length ws \<Longrightarrow> list_refs l (ws[k := w]) + ref_of l (ws ! k) = list_refs l ws + ref_of l w"
  unfolding list_refs_def by (rule sum_list_upd)

lemma list_refs_simps [simp]: "list_refs l [] = 0" "list_refs l (w # ws) = ref_of l w + list_refs l ws"
  "list_refs l (ws @ replicate n (- 1)) = list_refs l ws"
  by (simp_all add: list_refs_def sum_list_replicate)

lemma register_refs:
  assumes r: "lfd_register p fd l = Some p'" and i: "\<not> fd_valid p fd" and l: "0 \<le> l" "l < 2 ^ 30"
  shows "list_refs k (pf_lfdlist p') = list_refs k (pf_lfdlist p) + (if k = l then 1 else 0)"
proof -
  define ws where "ws = (if fd \<ge> int (length (pf_lfdlist p)) then
      pf_lfdlist p @ replicate (nat ((fd + int OLFD_STEP) - (fd + int OLFD_STEP) mod int OLFD_STEP) - length (pf_lfdlist p)) (-1)
      else pf_lfdlist p)"
  have p': "0 \<le> fd" "nat fd < length ws" "pf_lfdlist p' = ws[nat fd := word_of_int l]"
    using r unfolding lfd_register_def ws_def [symmetric] Let_def by (auto split: if_splits)
  have "sint (ws ! nat fd) < 0"
  proof (cases "fd < int (length (pf_lfdlist p))")
    case True
    then show ?thesis using i p'(1) by (simp add: ws_def fd_valid_def)
  next
    case False
    then have "\<not> nat fd < length (pf_lfdlist p)" using p'(1) by simp
    then show ?thesis using False p'(2) by (simp add: ws_def nth_append)
  qed
  then have "ref_of k (ws ! nat fd) = 0" by (simp add: ref_of_def)
  moreover have "ref_of k (word_of_int l) = (if k = l then 1 else 0)" using fd2lfd_word [OF l] by (simp add: ref_of_def)
  moreover have "list_refs k ws = list_refs k (pf_lfdlist p)" by (simp add: ws_def)
  ultimately show ?thesis using list_refs_upd [OF p'(2), of k "word_of_int l"] p'(3) by simp
qed

text \<open>A registered descriptor may be taken out of the list of the process.\<close>

lemma up_ok_take:
  assumes ok: "up_ok pend s" and p: "a < length (up_files s)" "up_files s ! a = Some p" and k: "k < length (pf_lfdlist p)"
  shows "up_ok (\<lambda>l. pend l + ref_of l (pf_lfdlist p ! k))
     (s\<lparr>up_files := (up_files s)[a := Some (p\<lparr>pf_lfdlist := (pf_lfdlist p)[k := - 1]\<rparr>)]\<rparr>)"
proof (rule up_ok_move [OF ok])
  fix l
  show "refs ((up_files s)[a := Some (p\<lparr>pf_lfdlist := (pf_lfdlist p)[k := - 1]\<rparr>)]) l + (pend l + ref_of l (pf_lfdlist p ! k)) =
      refs (up_files s) l + pend l"
    using refs_upd [OF p(1), of "Some (p\<lparr>pf_lfdlist := (pf_lfdlist p)[k := - 1]\<rparr>)" l] p(2) list_refs_upd [OF k, of l "- 1"]
    by simp
qed

lemma close_files: "lfd_close (s\<lparr>up_files := fs\<rparr>) l = map_option (\<lambda>s. s\<lparr>up_files := fs\<rparr>) (lfd_close s l)"
proof -
  have rel: "lfd_release (s\<lparr>up_files := fs\<rparr>) i e = map_option (\<lambda>s. s\<lparr>up_files := fs\<rparr>) (lfd_release s i e)" for s i e
    by (auto simp: lfd_release_def Let_def up_emit_def split: option.splits Option.bind_splits)
  have "lfd_release ((s\<lparr>up_files := fs\<rparr>)\<lparr>up_lfd := t\<rparr>) i e = map_option (\<lambda>s. s\<lparr>up_files := fs\<rparr>) (lfd_release (s\<lparr>up_lfd := t\<rparr>) i e)" for t i e
  proof -
    have eq: "s\<lparr>up_files := fs, up_lfd := t\<rparr> = s\<lparr>up_lfd := t, up_files := fs\<rparr>" by simp
    show ?thesis unfolding eq by (rule rel)
  qed
  then show ?thesis by (auto simp: lfd_close_def Let_def split: Option.bind_splits)
qed

lemma deregister_ok:
  assumes ok: "up_ok pend s" and p: "a < length (up_files s)" "up_files s ! a = Some p"
    and r: "lfd_deregister_n_close s p fd = Some (p', s')"
  shows "up_ok pend (s'\<lparr>up_files := (up_files s)[a := Some p']\<rparr>)"
proof (cases "fd_valid p fd")
  case True
  define w where "w = pf_lfdlist p ! nat fd"
  define fs where "fs = (up_files s)[a := Some (p\<lparr>pf_lfdlist := (pf_lfdlist p)[nat fd := - 1]\<rparr>)]"
  have w: "0 \<le> fd" "nat fd < length (pf_lfdlist p)" "sint w \<ge> 0" "pf_lfdlist p \<noteq> []"
    using True by (auto simp: fd_valid_def w_def)
  have c: "lfd_close s (FD2LFD w) = Some s'" "p' = p\<lparr>pf_lfdlist := (pf_lfdlist p)[nat fd := - 1]\<rparr>"
    using r w unfolding lfd_deregister_n_close_def w_def [symmetric]
    by (auto simp: bind_eq_Some_conv split: if_splits)
  have "up_ok (\<lambda>l. pend l + ref_of l w) (s\<lparr>up_files := fs\<rparr>)" unfolding fs_def w_def by (rule up_ok_take [OF ok p w(2)])
  from close_ok [OF this, of "FD2LFD w" "s'\<lparr>up_files := fs\<rparr>"] c(1) w(3)
  have "up_ok ((\<lambda>l. pend l + ref_of l w)(FD2LFD w := pend (FD2LFD w) + ref_of (FD2LFD w) w - 1)) (s'\<lparr>up_files := fs\<rparr>)"
    by (simp add: close_files ref_of_def)
  moreover have "(\<lambda>l. pend l + ref_of l w)(FD2LFD w := pend (FD2LFD w) + ref_of (FD2LFD w) w - 1) = pend"
    using w(3) by (auto simp: ref_of_def fun_eq_iff)
  ultimately show ?thesis by (simp add: fs_def c(2))
next
  case False
  then have eq: "p' = p" "s' = s" using r by (auto simp: lfd_deregister_n_close_def fd_valid_def bind_eq_Some_conv split: if_splits)
  have "(up_files s)[a := Some p] = up_files s" using p by (metis list_update_id)
  then show ?thesis using ok eq by simp
qed

lemma delproc_close_ok:
  assumes "up_ok (\<lambda>l. pend l + list_refs l ws) s" "delproc_close ws s = Some s'"
  shows "up_ok pend s' \<and> up_files s' = up_files s"
  using assms
proof (induction ws arbitrary: s)
  case (Cons w ws)
  show ?case
  proof (cases "sint w \<ge> 0")
    case True
    then obtain s1 where s1: "lfd_close s (FD2LFD w) = Some s1" "delproc_close ws s1 = Some s'"
      using Cons.prems(2) by (auto simp: bind_eq_Some_conv)
    have "(\<lambda>l. pend l + list_refs l (w # ws))(FD2LFD w := pend (FD2LFD w) + list_refs (FD2LFD w) (w # ws) - 1) =
        (\<lambda>l. pend l + list_refs l ws)" using True by (auto simp: ref_of_def fun_eq_iff)
    then have "up_ok (\<lambda>l. pend l + list_refs l ws) s1 \<and> up_files s1 = up_files s"
      using close_ok [OF Cons.prems(1), of "FD2LFD w" s1] s1(1) True by (simp add: ref_of_def)
    then show ?thesis using Cons.IH [of s1] s1(2) by simp
  next
    case False
    then show ?thesis using Cons by (simp add: ref_of_def)
  qed
qed simp

lemma delproc_close_files: "delproc_close ws (s\<lparr>up_files := fs\<rparr>) = map_option (\<lambda>s. s\<lparr>up_files := fs\<rparr>) (delproc_close ws s)"
  by (induction ws arbitrary: s) (auto simp: close_files split: Option.bind_splits)

lemma delproc_ok:
  assumes ok: "up_ok pend s" and r: "umproc_delproc s a b = Some s'"
  shows "up_ok pend s'"
proof (cases b)
  case False
  then obtain p where p: "a < length (up_files s)" "up_files s ! a = Some p"
    using r by (auto simp: umproc_delproc_def bind_eq_Some_conv split: if_splits)
  let ?p = "p\<lparr>pf_count := pf_count p - 1\<rparr>"
  show ?thesis
  proof (cases "pf_count p - 1 = 0")
    case True
    define fs where "fs = (up_files s)[a := None]"
    obtain s1 where s1: "delproc_close (pf_lfdlist p) s = Some s1" "s' = s1\<lparr>up_files := (up_files s1)[a := None]\<rparr>"
      using r p False True by (auto simp: umproc_delproc_def Let_def bind_eq_Some_conv)
    have ok1: "up_ok (\<lambda>l. pend l + list_refs l (pf_lfdlist p)) (s\<lparr>up_files := fs\<rparr>)"
      by (rule up_ok_move [OF ok]) (use refs_upd [OF p(1), of None] p(2) in \<open>simp add: fs_def\<close>)
    have "up_ok pend (s1\<lparr>up_files := fs\<rparr>)"
      using delproc_close_ok [OF ok1, of "s1\<lparr>up_files := fs\<rparr>"] s1(1) by (simp add: delproc_close_files)
    moreover have "up_files s1 = up_files s"
    proof -
      have "delproc_close (pf_lfdlist p) (s\<lparr>up_files := up_files s\<rparr>) = map_option (\<lambda>x. x\<lparr>up_files := up_files s\<rparr>) (Some s1)"
        unfolding delproc_close_files s1(1) by simp
      then have "s1 = s1\<lparr>up_files := up_files s\<rparr>" using s1(1) by simp
      then show ?thesis by (metis umproc.select_convs(2) umproc.surjective umproc.update_convs(2))
    qed
    ultimately show ?thesis by (simp add: s1(2) fs_def)
  next
    case nz: False
    then have s': "s' = s\<lparr>up_files := (up_files s)[a := Some ?p]\<rparr>"
      using r p False by (simp add: umproc_delproc_def Let_def)
    show ?thesis unfolding s' by (rule up_ok_move [OF ok]) (use refs_upd [OF p(1), of "Some ?p"] p(2) in simp)
  qed
qed (use ok r in \<open>simp add: umproc_delproc_def\<close>)

lemma addproc_refs_files: "addproc_refs ws s = Some s' \<Longrightarrow> up_files s' = up_files s"
proof (induction ws arbitrary: s)
  case (Cons w ws)
  show ?case
  proof (cases "sint w \<ge> 0")
    case True
    then obtain s1 where "lfd_update (FD2LFD w) (\<lambda>e. e\<lparr>lt_count := s16 (lt_count e + 1)\<rparr>) s = Some s1" "addproc_refs ws s1 = Some s'"
      using Cons.prems by (auto simp: bind_eq_Some_conv)
    then show ?thesis using Cons.IH [of s1] by (auto simp: lfd_update_def split: option.splits)
  qed (use Cons in auto)
qed simp

lemma addproc_refs_ok:
  assumes "up_ok pend s" "addproc_refs ws s = Some s'" "\<And>l. refs (up_files s) l + pend l + list_refs l ws < 2 ^ 15"
  shows "up_ok (\<lambda>l. pend l + list_refs l ws) s'"
  using assms
proof (induction ws arbitrary: s pend)
  case (Cons w ws)
  show ?case
  proof (cases "sint w \<ge> 0")
    case True
    then obtain s1 where u: "lfd_update (FD2LFD w) (\<lambda>e. e\<lparr>lt_count := s16 (lt_count e + 1)\<rparr>) s = Some s1" "addproc_refs ws s1 = Some s'"
      using Cons.prems(2) by (auto simp: bind_eq_Some_conv)
    then obtain e where e: "lfd_entry s (FD2LFD w) = Some e"
      by (auto simp: lfd_update_def split: option.splits)
    have d: "lfd_dup s (FD2LFD w) = Some (s16 (lt_count e + 1), s1)"
      using u(1) e by (simp add: lfd_dup_def entry_slot [OF e])
    let ?pend = "pend(FD2LFD w := pend (FD2LFD w) + 1)"
    have p: "?pend l + list_refs l ws = pend l + list_refs l (w # ws)" for l using True by (auto simp: ref_of_def)
    have "refs (up_files s) (FD2LFD w) + pend (FD2LFD w) + 1 < 2 ^ 15"
      using Cons.prems(3) [of "FD2LFD w"] True by (simp add: ref_of_def)
    then have s1: "up_ok ?pend s1 \<and> up_files s1 = up_files s"
      using dup_ok [OF Cons.prems(1) d] entry_slot [OF e] by blast
    have "refs (up_files s1) l + ?pend l + list_refs l ws < 2 ^ 15" for l
      using Cons.prems(3) [of l] p [of l] s1 by (simp only: add.assoc)
    then have "up_ok (\<lambda>l. ?pend l + list_refs l ws) s'" by (rule Cons.IH [OF conjunct1 [OF s1] u(2)])
    then show ?thesis unfolding p .
  next
    case False
    then have "up_ok (\<lambda>l. pend l + list_refs l ws) s'"
      using Cons.prems(2,3) by (intro Cons.IH [OF Cons.prems(1)]) (auto simp: ref_of_def)
    then show ?thesis using False by (simp add: ref_of_def)
  qed
qed simp

lemma addproc_ok:
  assumes ok: "up_ok pend s" and r: "umproc_addproc s pp flags b fds = Some (x, s')"
    and c: "\<And>l. refs (up_files s') l + pend l < 2 ^ 15"
  shows "up_ok pend s'"
proof (cases b)
  case False
  then obtain p where p: "pp < length (up_files s)" "up_files s ! pp = Some p"
    using r by (auto simp: umproc_addproc_def bind_eq_Some_conv split: if_splits)
  show ?thesis
  proof (cases "flags AND CLONE_FILES = 0")
    case True
    then obtain s1 where s1: "addproc_refs (pf_lfdlist p) s = Some s1"
      and s': "s' = s1\<lparr>up_files := up_files s1 @ [Some \<lparr>pf_count = 1, pf_lfdlist = pf_lfdlist p\<rparr>]\<rparr>"
      using r p False by (auto simp: umproc_addproc_def bind_eq_Some_conv)
    note f1 = addproc_refs_files [OF s1]
    have "refs (up_files s) l + pend l + list_refs l (pf_lfdlist p) < 2 ^ 15" for l
      using c [of l] unfolding s' f1 by (simp add: refs_append)
    then have "up_ok (\<lambda>l. pend l + list_refs l (pf_lfdlist p)) s1" by (rule addproc_refs_ok [OF ok s1])
    then show ?thesis unfolding s' by (rule up_ok_move) (simp add: refs_append)
  next
    case nz: False
    let ?p = "Some (p\<lparr>pf_count := pf_count p + 1\<rparr>)"
    have s': "s' = s\<lparr>up_files := (up_files s)[pp := ?p]\<rparr>"
      using r p False nz by (simp add: umproc_addproc_def)
    show ?thesis unfolding s' by (rule up_ok_move [OF ok]) (use refs_upd [OF p(1), of ?p] p(2) in simp)
  qed
qed (use ok r in \<open>simp add: umproc_addproc_def\<close>)

text \<open>Updates that do not touch the counters.\<close>

lemma update_ok:
  assumes ok: "up_ok pend s" and u: "lfd_update l f s = Some s'" and f: "\<And>e. lt_count (f e) = lt_count e"
  shows "up_ok pend s'"
proof -
  obtain e where e: "lfd_entry s l = Some e" "s' = s\<lparr>up_lfd := slot_set (up_lfd s) (nat l) (f e)\<rparr>"
    using u by (auto simp: lfd_update_def split: option.splits)
  show ?thesis unfolding e(2)
    by (rule up_ok_set [OF ok e(1)]) (use up_okD(2) [OF ok, of l] e(1) f in auto)
qed

lemma up_ok_emit: "up_ok pend (up_emit ev s) = up_ok pend s"
  by (simp add: up_ok_def up_emit_def lfd_entry_def)

lemma up_ok_cx: "up_ok pend (s\<lparr>up_cx := cx\<rparr>) = up_ok pend s"
  by (simp add: up_ok_def lfd_entry_def)

lemma signal_ok:
  assumes ok: "up_ok pend s" and r: "lfd_signal s l = Some s'"
  shows "up_ok pend s'"
proof -
  obtain e where e: "lfd_entry s l = Some e" using r by (auto simp: lfd_signal_def bind_eq_Some_conv)
  show ?thesis
  proof (cases "\<exists>pv. lt_pvtab e = Some pv \<and> \<not> pv_signaled pv")
    case True
    then obtain pv s1 where "lfd_update l (\<lambda>e. e\<lparr>lt_pvtab := Some (pv\<lparr>pv_signaled := True\<rparr>)\<rparr>) s = Some s1"
       "s' = up_emit (Write_fifo (pv_ofifo pv)) s1"
      using r e by (auto simp: lfd_signal_def)
    then show ?thesis using update_ok [OF ok] by (simp add: up_ok_emit)
  next
    case False
    then have "s' = s" using r e by (auto simp: lfd_signal_def split: option.splits)
    then show ?thesis using ok by simp
  qed
qed

lemma delsignal_ok:
  assumes ok: "up_ok pend s" and r: "lfd_delsignal s l = Some s'"
  shows "up_ok pend s'"
proof -
  obtain e pv where e: "lfd_entry s l = Some e" "lt_pvtab e = Some pv" using r by (auto simp: lfd_delsignal_def bind_eq_Some_conv)
  show ?thesis
  proof (cases "pv_signaled pv")
    case True
    then obtain s1 where "lfd_update l (\<lambda>e. e\<lparr>lt_pvtab := Some (pv\<lparr>pv_signaled := False\<rparr>)\<rparr>) s = Some s1"
       "s' = up_emit (Read_fifo (pv_ififo pv)) s1"
      using r e by (auto simp: lfd_delsignal_def)
    then show ?thesis using update_ok [OF ok] by (simp add: up_ok_emit)
  qed (use r e ok in \<open>simp add: lfd_delsignal_def\<close>)
qed

lemma up_ok_tab: "up_ok pend s \<Longrightarrow> slots_ok t \<Longrightarrow> slot_get t = slot_get (up_lfd s) \<Longrightarrow> up_ok pend (s\<lparr>up_lfd := t\<rparr>)"
proof (rule up_okI)
  fix l
  assume ok: "up_ok pend s" and g: "slot_get t = slot_get (up_lfd s)"
  have "lfd_entry (s\<lparr>up_lfd := t\<rparr>) l = lfd_entry s l" by (simp add: lfd_entry_def g)
  then show "entry_ok (refs (up_files (s\<lparr>up_lfd := t\<rparr>)) l + pend l) (lfd_entry (s\<lparr>up_lfd := t\<rparr>) l)"
    using up_okD(2) [OF ok, of l] by simp
qed simp

text \<open>The scan that returns a result returns the one of the first object that gives one.\<close>

definition first_result :: "(nat \<Rightarrow> 'b option) \<Rightarrow> nat list \<Rightarrow> 'b option" where
  "first_result g is = (case filter (\<lambda>i. g i \<noteq> None) is of [] \<Rightarrow> None | i # _ \<Rightarrow> g i)"

lemma fold_first: "fold (\<lambda>i rv. if rv = None then g i else rv) is rv = (if rv = None then first_result g is else rv)"
  by (induction "is" arbitrary: rv) (auto simp: first_result_def)

lemma forall_r_ok:
  assumes "slots_ok t"
  shows "\<exists>t'. lfd_forall_r f t = Some (first_result (\<lambda>i. f i (the (slot_get t i))) (live t), t') \<and>
     slots_ok t' \<and> slot_get t' = slot_get t"
  using forall_ok [OF assms, of "\<lambda>i x rv. if rv = None then f i x else rv" None]
  by (simp add: lfd_forall_r_def slot_forall_r_def fold_first)

lemma register_ok:
  assumes ok: "up_ok pend s" and p: "a < length (up_files s)" "up_files s ! a = Some p" and l: "0 < pend l" "l < 2 ^ 30"
    and i: "\<not> fd_valid p fd" and r: "lfd_register p fd l = Some p'"
  shows "up_ok (pend(l := pend l - 1)) (s\<lparr>up_files := (up_files s)[a := Some p']\<rparr>)"
proof (rule up_ok_move [OF ok])
  fix k
  have "lfd_entry s l \<noteq> None" using up_okD(2) [OF ok, of l] l(1) by (cases "lfd_entry s l") auto
  then have "0 \<le> l" by (auto dest: entry_slot)
  from register_refs [OF r i this l(2), of k]
  show "refs ((up_files s)[a := Some p']) k + (pend(l := pend l - 1)) k = refs (up_files s) k + pend k"
    using refs_upd [OF p(1), of "Some p'" k] p(2) l(1) by (auto split: if_splits)
qed

lemma setfdfl_ok:
  assumes ok: "up_ok pend s" and p: "a < length (up_files s)" "up_files s ! a = Some p"
  shows "up_ok pend (s\<lparr>up_files := (up_files s)[a := Some (snd (fd_setfdfl p fd v))]\<rparr>)"
proof (rule up_ok_move [OF ok])
  fix k
  have "list_refs k (pf_lfdlist (snd (fd_setfdfl p fd v))) = list_refs k (pf_lfdlist p)"
  proof (cases "fd_valid p fd")
    case True
    then have b: "nat fd < length (pf_lfdlist p)" by (simp add: fd_valid_def nat_less_iff)
    show ?thesis using True list_refs_upd [OF b, of k "pf_lfdlist p ! nat fd OR X_FD_CLOEXEC"]
       list_refs_upd [OF b, of k "pf_lfdlist p ! nat fd AND NOT X_FD_CLOEXEC"]
      by (simp add: fd_setfdfl_def Let_def ref_of_cloexec)
  qed (simp add: fd_setfdfl_def)
  then show "refs ((up_files s)[a := Some (snd (fd_setfdfl p fd v))]) k + pend k = refs (up_files s) k + pend k"
    using refs_upd [OF p(1), of "Some (snd (fd_setfdfl p fd v))" k] p(2) by simp
qed

section \<open>Steps\<close>

text \<open>
  The operations of the system calls on the descriptors, with the number of descriptors that are
  open and not registered.
\<close>

inductive up_step :: "(int \<Rightarrow> nat) \<times> umproc \<Rightarrow> (int \<Rightarrow> nat) \<times> umproc \<Rightarrow> bool" where
  open_step: "lfd_open cf i_f o_f s hte sfd path flags nested = Some (l, s') \<Longrightarrow> up_step (pend, s) (pend(l := pend l + 1), s')"
| dup_step: "0 \<le> l \<Longrightarrow> lfd_dup s l = Some (n, s') \<Longrightarrow> up_step (pend, s) (pend(l := pend l + 1), s')"
| close_step: "0 < pend l \<Longrightarrow> lfd_close s l = Some s' \<Longrightarrow> up_step (pend, s) (pend(l := pend l - 1), s')"
| register_step: "a < length (up_files s) \<Longrightarrow> up_files s ! a = Some p \<Longrightarrow> 0 < pend l \<Longrightarrow> l < 2 ^ 30 \<Longrightarrow> \<not> fd_valid p fd \<Longrightarrow>
     lfd_register p fd l = Some p' \<Longrightarrow> up_step (pend, s) (pend(l := pend l - 1), s\<lparr>up_files := (up_files s)[a := Some p']\<rparr>)"
| deregister_step: "a < length (up_files s) \<Longrightarrow> up_files s ! a = Some p \<Longrightarrow> lfd_deregister_n_close s p fd = Some (p', s') \<Longrightarrow>
     up_step (pend, s) (pend, s'\<lparr>up_files := (up_files s)[a := Some p']\<rparr>)"
| setfdfl_step: "a < length (up_files s) \<Longrightarrow> up_files s ! a = Some p \<Longrightarrow>
     up_step (pend, s) (pend, s\<lparr>up_files := (up_files s)[a := Some (snd (fd_setfdfl p fd v))]\<rparr>)"
| setflfl_step: "fd_setflfl s p fd fl = Some (r, s') \<Longrightarrow> up_step (pend, s) (pend, s')"
| nullsfd_step: "lfd_nullsfd s l = Some s' \<Longrightarrow> up_step (pend, s) (pend, s')"
| signal_step: "lfd_signal s l = Some s' \<Longrightarrow> up_step (pend, s) (pend, s')"
| delsignal_step: "lfd_delsignal s l = Some s' \<Longrightarrow> up_step (pend, s) (pend, s')"
| epoll_add_step: "lfd_epoll_add s p epfd it = Some s' \<Longrightarrow> up_step (pend, s) (pend, s')"
| epoll_del_step: "lfd_epoll_del s p epfd fd = Some s' \<Longrightarrow> up_step (pend, s) (pend, s')"
| getpath_step: "sfd_getpath s hte sfd = Some (r, s') \<Longrightarrow> up_step (pend, s) (pend, s')"
| addproc_step: "umproc_addproc s pp flags b fds = Some (x, s') \<Longrightarrow> up_step (pend, s) (pend, s')"
| delproc_step: "umproc_delproc s a b = Some s' \<Longrightarrow> up_step (pend, s) (pend, s')"

text \<open>
  The counter of a local file descriptor is a \<open>short\<close>: it counts less than \<open>2 ^ 15\<close> references.  A step
  after which each descriptor has fewer references than that:
\<close>

definition few_refs :: "(int \<Rightarrow> nat) \<times> umproc \<Rightarrow> bool" where
  "few_refs x \<longleftrightarrow> (\<forall>l. refs (up_files (snd x)) l + fst x l < 2 ^ 15)"

definition few_step :: "(int \<Rightarrow> nat) \<times> umproc \<Rightarrow> (int \<Rightarrow> nat) \<times> umproc \<Rightarrow> bool" where
  "few_step x y \<longleftrightarrow> up_step x y \<and> few_refs y"

lemma up_step_ok: "up_step x y \<Longrightarrow> few_refs y \<Longrightarrow> up_ok (fst x) (snd x) \<Longrightarrow> up_ok (fst y) (snd y)"
proof (induction rule: up_step.induct)
  case (open_step cf i_f o_f s hte sfd path flags nested l s' pend)
  then show ?case unfolding fst_conv snd_conv by (blast dest: open_ok)
next
  case (dup_step l s n s' pend)
  have "up_files s' = up_files s" using dup_step.hyps by (auto simp: lfd_dup_def lfd_update_def bind_eq_Some_conv split: option.splits)
  then have "refs (up_files s) l + pend l + 1 < 2 ^ 15" using dup_step.prems(1) [unfolded few_refs_def, rule_format, of l] by simp
  then show ?case unfolding fst_conv snd_conv using dup_ok dup_step.hyps dup_step.prems(2) [unfolded fst_conv snd_conv] by blast
next
  case (close_step pend l s s')
  then show ?case unfolding fst_conv snd_conv by (blast dest: close_ok)
next
  case (register_step a s p pend l fd p')
  then show ?case unfolding fst_conv snd_conv by (blast intro: register_ok)
next
  case (deregister_step a s p fd p' s' pend)
  then show ?case unfolding fst_conv snd_conv by (blast intro: deregister_ok)
next
  case (setfdfl_step a s p pend fd v)
  then show ?case unfolding fst_conv snd_conv by (blast intro: setfdfl_ok)
next
  case (setflfl_step s p fd fl r s' pend)
  then show ?case by (auto simp: fd_setflfl_def split: if_splits elim!: update_ok)
next
  case (nullsfd_step s l s' pend)
  then show ?case by (auto simp: lfd_nullsfd_def elim!: update_ok)
next
  case (signal_step s l s' pend)
  then show ?case using signal_ok by simp
next
  case (delsignal_step s l s' pend)
  then show ?case using delsignal_ok by simp
next
  case (epoll_add_step s p epfd it s' pend)
  then obtain l ep where "lfd_update l (\<lambda>e. e\<lparr>lt_epoll := Some ep\<rparr>) s = Some s'"
    by (auto simp: lfd_epoll_add_def Let_def bind_eq_Some_conv split: if_splits)
  then show ?case using epoll_add_step.prems update_ok by simp
next
  case (epoll_del_step s p epfd fd s' pend)
  then have "s' = s \<or> (\<exists>l ep. lfd_update l (\<lambda>e. e\<lparr>lt_epoll := Some ep\<rparr>) s = Some s')"
    by (auto simp: lfd_epoll_del_def Let_def bind_eq_Some_conv split: if_splits option.split_asm)
  then show ?case using epoll_del_step.prems update_ok by auto
next
  case (getpath_step s hte sfd r s' pend)
  then obtain tab where "lfd_forall_r (sfd_getpath_check hte sfd) (up_lfd s) = Some (r, tab)" "s' = s\<lparr>up_lfd := tab\<rparr>"
    by (auto simp: sfd_getpath_def)
  then show ?case using getpath_step.prems forall_r_ok [of "up_lfd s" "sfd_getpath_check hte sfd"]
    by (auto intro: up_ok_tab dest: up_okD(1))
next
  case (addproc_step s pp flags b fds x s' pend)
  then show ?case unfolding fst_conv snd_conv few_refs_def by (blast intro: addproc_ok)
next
  case (delproc_step s a b s' pend)
  then show ?case unfolding fst_conv snd_conv by (blast intro: delproc_ok)
qed

text \<open>The start: no local descriptor and \<open>umview_file\<close>, the file table of the monitor.\<close>

definition up_init :: "ht_tab \<Rightarrow> um_ctx \<Rightarrow> string \<Rightarrow> umproc" where
  "up_init ht cx tmp = \<lparr>up_lfd = slots_init, up_files = [Some \<lparr>pf_count = 0, pf_lfdlist = []\<rparr>],
     up_ht = ht, up_cx = cx, up_tmp = tmp, up_log = []\<rparr>"

lemma up_init_ok: "up_ok (\<lambda>l. 0) (up_init ht cx tmp)"
  by (simp add: up_ok_def up_init_def slots_ok_def slots_init_def unused_def refs_def lfd_entry_def slot_get_def)

lemma up_reachable_ok:
  assumes "few_step\<^sup>*\<^sup>* (\<lambda>l. 0, up_init ht cx tmp) (pend, s)"
  shows "up_ok pend s"
proof -
  have "up_ok (fst y) (snd y)" if "few_step\<^sup>*\<^sup>* x y" "up_ok (fst x) (snd x)" for x y
    using that by (induction rule: rtranclp_induct) (auto simp: few_step_def dest: up_step_ok)
  from this [OF assms] show ?thesis by (simp add: up_init_ok)
qed

end
