(* ===== verification/Umproc_Props.thy ===== *)
theory Umproc_Props
  imports Umproc_Refs
begin

text \<open>
  Properties of the file descriptors of the processes: reference counts, descriptors that never
  dangle, a fork followed by an exit, the names of the fifos.
\<close>

section \<open>Fork and exit\<close>

text \<open>An entry with \<open>n\<close> more references.\<close>

definition more_refs :: "int \<Rightarrow> lfd_table \<Rightarrow> lfd_table" where
  "more_refs n e = e\<lparr>lt_count := lt_count e + n\<rparr>"

lemma more_refs_simps [simp]: "more_refs 0 e = e" "more_refs m (more_refs n e) = more_refs (n + m) e"
  "lt_count (more_refs n e) = lt_count e + n"
  by (simp_all add: more_refs_def)













section \<open>Properties\<close>

text \<open>A process opens a file that is not virtual, the descriptor is registered as \<open>fd\<close> 3.\<close>

definition demo0 :: umproc where
  "demo0 = up_init (ht_init_tab te_init Map.empty) \<lparr>cx_tst = \<lparr>tst_epoch = 2, tst_te = None\<rparr>, cx_nestepoch = 2, cx_hte = None\<rparr> ''/tmp/''"






text \<open>A mount of the module \<open>umfuse\<close>.\<close>

definition demo_service :: service where
  "demo_service = \<lparr>sv_name = ''umfuse'', sv_destructor = None, sv_ioctlparms = None, sv_event_subscribe = None,
     sv_um_syscall = (\<lambda>_. None), sv_um_socket = (\<lambda>_. None), sv_um_virsc = None\<rparr>"

definition demo_mount :: ht_elem where
  "demo_mount = \<lparr>ht_obj = ''/mnt'', ht_mtabline = None, ht_mountflags = 0, ht_tst = \<lparr>tst_epoch = 2, tst_te = None\<rparr>, ht_type = CHECKPATH,
     ht_trailingnumbers = True, ht_invalid = False, ht_service = Some 0, ht_service_hte = None, ht_private_data = None,
     ht_objlen = 4, ht_hashsum = 0, ht_count = 0, ht_confirmfun = NO_CONFIRM, ht_prev = 0, ht_next = 0,
     ht_pprevhash = PHash 0, ht_nexthash = None\<rparr>"

definition demo_umfuse :: umproc where
  "demo_umfuse = demo0\<lparr>up_ht := (ht_init_tab te_init [0 \<mapsto> demo_service])\<lparr>ht_mem := [0 \<mapsto> demo_mount]\<rparr>\<rparr>"







text \<open>
  The name of the fifo of a virtual file is written over the 7 characters at the end of
  \<open>um_tmpfile\<close>: for a module whose name has more than 5 characters, as \<open>umfuse\<close>, \<open>viewfs\<close> and
  \<open>ummisc\<close>, opening a file writes past the end of the string.
\<close>

theorem tmpfile_overflow:
  assumes "ht_mem (up_ht s) h = Some e" "ht_service e = Some sv" "ht_services (up_ht s) sv = Some m" "5 < length (sv_name m)"
  shows "um_proc_tmpfile s h lfd = None"
  using assms by (simp add: um_proc_tmpfile_def ht_get_servicename_def set_tail_def pad_dec_def Let_def)

theorem tmpfile_overflow_witness:
  "ht_get_servicename (up_ht demo_umfuse) (Some 0) = Some (Some ''umfuse'') \<and> um_proc_tmpfile demo_umfuse 0 0 = None"
  using tmpfile_overflow [of demo_umfuse 0 demo_mount 0 demo_service 0]
  by (simp add: demo_umfuse_def demo0_def up_init_def ht_init_tab_def demo_mount_def demo_service_def ht_get_servicename_def)

text \<open>
  The counter is a \<open>short\<close>: after 65536 more references it has its old value, so that a descriptor with
  65537 references is closed, and its entry freed, when one of them is given back.
\<close>

fun dups :: "nat \<Rightarrow> int \<Rightarrow> umproc \<Rightarrow> umproc option" where
  "dups 0 l s = Some s"
| "dups (Suc n) l s = do { (c, s) \<leftarrow> lfd_dup s l; dups n l s }"

lemma s16_add: "s16 (s16 a + b) = s16 (a + b)"
  unfolding s16_def by (simp add: mod_simps) (metis add.commute add.left_commute mod_add_left_eq)

lemma dups_count:
  assumes "slots_ok (up_lfd s)" "lfd_entry s l = Some e" "s16 (lt_count e) = lt_count e"
  shows "\<exists>s'. dups n l s = Some s' \<and> lfd_entry s' l = Some (e\<lparr>lt_count := s16 (lt_count e + int n)\<rparr>)"
  using assms
proof (induction n arbitrary: s e)
  case (Suc n)
  let ?e = "e\<lparr>lt_count := s16 (lt_count e + 1)\<rparr>"
  let ?s = "s\<lparr>up_lfd := slot_set (up_lfd s) (nat l) ?e\<rparr>"
  have d: "lfd_dup s l = Some (s16 (lt_count e + 1), ?s)"
    using Suc.prems(2) entry_slot [OF Suc.prems(2)] by (simp add: lfd_dup_def lfd_update_def)
  have "\<exists>s'. dups n l ?s = Some s' \<and> lfd_entry s' l = Some (?e\<lparr>lt_count := s16 (lt_count ?e + int n)\<rparr>)"
  proof (rule Suc.IH)
    show "slots_ok (up_lfd ?s)" "lfd_entry ?s l = Some ?e" using entry_set [OF Suc.prems(1,2), of ?e] by simp_all
    show "s16 (lt_count ?e) = lt_count ?e" using s16_add [of "lt_count e + 1" 0] by simp
  qed
  then show ?case using d s16_add [of "lt_count e + 1" "int n"] by (auto simp: add.assoc)
qed simp

theorem dups_wrap:
  assumes "slots_ok (up_lfd s)" "lfd_entry s l = Some e" "lt_count e = 1"
  shows "\<exists>s'. dups 65536 l s = Some s' \<and> lfd_getcount s' l = Some 1"
  using dups_count [OF assms(1,2), of 65536] assms(3) by (simp add: s16_def lfd_getcount_def) auto

end
