(* ===== verification/Ip_Addr.thy ===== *)
theory Ip_Addr
  imports View_Prelude
begin

text \<open>
  Addresses of the network stack: \<open>ip_addr.h\<close> and the first part of \<open>ip6_addr.c\<close>.  An address is
  four 32-bit words in network byte order; an IPv4 address is the last word of a mapped address.
  The machine is little endian, as the ports of the program are.
\<close>

unbundle bit_operations_syntax

section \<open>Byte order\<close>

definition htons :: "16 word \<Rightarrow> 16 word" where
  "htons n = push_bit 8 (n AND 0xff) OR drop_bit 8 (n AND 0xff00)"

definition htonl :: "32 word \<Rightarrow> 32 word" where
  "htonl n = push_bit 24 (n AND 0xff) OR push_bit 8 (n AND 0xff00) OR drop_bit 8 (n AND 0xff0000) OR
     drop_bit 24 (n AND 0xff000000)"

section \<open>Addresses\<close>

record ip_addr =
  addr0 :: "32 word"
  addr1 :: "32 word"
  addr2 :: "32 word"
  addr3 :: "32 word"

text \<open>\<open>struct ip4_addr\<close>.\<close>

type_synonym ip4_addr = "32 word"

definition ip4_addr_broadcast :: ip4_addr where
  "ip4_addr_broadcast = 0xffffffff"

definition ip_addr_any :: ip_addr where
  "ip_addr_any = \<lparr>addr0 = 0, addr1 = 0, addr2 = 0, addr3 = 0\<rparr>"

definition ip4_addr_any :: ip_addr where
  "ip4_addr_any = \<lparr>addr0 = 0, addr1 = 0, addr2 = 0xffff0000, addr3 = 0\<rparr>"

definition IP6_ADDR :: "32 word \<Rightarrow> 32 word \<Rightarrow> 32 word \<Rightarrow> 32 word \<Rightarrow> 32 word \<Rightarrow> 32 word \<Rightarrow> 32 word \<Rightarrow> 32 word \<Rightarrow> ip_addr" where
  "IP6_ADDR a b c d e f g h =
     \<lparr>addr0 = htonl (push_bit 16 (a AND 0xffff) OR (b AND 0xffff)),
      addr1 = htonl (push_bit 16 (c AND 0xffff) OR (d AND 0xffff)),
      addr2 = htonl (push_bit 16 (e AND 0xffff) OR (f AND 0xffff)),
      addr3 = htonl (push_bit 16 (g AND 0xffff) OR (h AND 0xffff))\<rparr>"

definition IP4_ADDR :: "32 word \<Rightarrow> 32 word \<Rightarrow> 32 word \<Rightarrow> 32 word \<Rightarrow> ip4_addr" where
  "IP4_ADDR a b c d = htonl (push_bit 24 (a AND 0xff) OR push_bit 16 (b AND 0xff) OR push_bit 8 (c AND 0xff) OR (d AND 0xff))"

definition IP64_PREFIX :: "32 word" where
  "IP64_PREFIX = htonl 0xffff"

definition IP64_CONV :: "ip4_addr \<Rightarrow> ip_addr" where
  "IP64_CONV ip4 = \<lparr>addr0 = 0, addr1 = 0, addr2 = IP64_PREFIX, addr3 = ip4\<rparr>"

definition IP64_ADDR :: "32 word \<Rightarrow> 32 word \<Rightarrow> 32 word \<Rightarrow> 32 word \<Rightarrow> ip_addr" where
  "IP64_ADDR a b c d = \<lparr>addr0 = 0, addr1 = 0, addr2 = IP64_PREFIX, addr3 = IP4_ADDR a b c d\<rparr>"

definition IP64_MASKCONV :: "ip4_addr \<Rightarrow> ip_addr" where
  "IP64_MASKCONV ip4 = \<lparr>addr0 = 0xffffffff, addr1 = 0xffffffff, addr2 = 0xffffffff, addr3 = ip4\<rparr>"

definition IP64_MASKADDR :: "32 word \<Rightarrow> 32 word \<Rightarrow> 32 word \<Rightarrow> 32 word \<Rightarrow> ip_addr" where
  "IP64_MASKADDR a b c d = \<lparr>addr0 = 0xffffffff, addr1 = 0xffffffff, addr2 = 0xffffffff, addr3 = IP4_ADDR a b c d\<rparr>"

section \<open>Comparison and assignment\<close>

definition ip_addr_maskcmp :: "ip_addr \<Rightarrow> ip_addr \<Rightarrow> ip_addr \<Rightarrow> bool" where
  "ip_addr_maskcmp a1 a2 nm \<longleftrightarrow>
     addr0 a1 AND addr0 nm = addr0 a2 AND addr0 nm \<and>
     addr1 a1 AND addr1 nm = addr1 a2 AND addr1 nm \<and>
     addr2 a1 AND addr2 nm = addr2 a2 AND addr2 nm \<and>
     addr3 a1 AND addr3 nm = addr3 a2 AND addr3 nm"

definition ip_addr_cmp :: "ip_addr \<Rightarrow> ip_addr \<Rightarrow> bool" where
  "ip_addr_cmp a1 a2 \<longleftrightarrow> addr0 a1 = addr0 a2 \<and> addr1 a1 = addr1 a2 \<and> addr2 a1 = addr2 a2 \<and> addr3 a1 = addr3 a2"

definition ip_addr_is_dhcp_broadcast :: "ip_addr \<Rightarrow> ip_addr \<Rightarrow> bool" where
  "ip_addr_is_dhcp_broadcast from to \<longleftrightarrow>
     addr3 from = 0 \<and> addr3 to = 0xffffffff \<and> addr2 from = IP64_PREFIX \<and> addr2 to = IP64_PREFIX \<and>
     (addr0 from OR addr1 from OR addr0 to OR addr1 to) = 0"

text \<open>Assignments: the new value of \<open>*dest\<close>; a NULL source is \<open>None\<close>.\<close>

definition ip_addr_set :: "ip_addr option \<Rightarrow> ip_addr" where
  "ip_addr_set src = (case src of None \<Rightarrow> ip_addr_any | Some a \<Rightarrow> a)"

definition ip_addr_set_mask :: "ip_addr option \<Rightarrow> ip_addr \<Rightarrow> ip_addr" where
  "ip_addr_set_mask src nm = (case src of None \<Rightarrow> ip_addr_any
     | Some a \<Rightarrow> \<lparr>addr0 = addr0 a AND addr0 nm, addr1 = addr1 a AND addr1 nm,
                  addr2 = addr2 a AND addr2 nm, addr3 = addr3 a AND addr3 nm\<rparr>)"

definition ip64_addr_set :: "ip_addr option \<Rightarrow> ip4_addr" where
  "ip64_addr_set src = (case src of None \<Rightarrow> addr3 ip_addr_any | Some a \<Rightarrow> addr3 a)"

definition ip4_addr_set :: "ip4_addr option \<Rightarrow> ip4_addr" where
  "ip4_addr_set src = (case src of None \<Rightarrow> addr3 ip_addr_any | Some a \<Rightarrow> a)"

section \<open>Classes of addresses\<close>

definition ip_addr_isany :: "ip_addr option \<Rightarrow> bool" where
  "ip_addr_isany x \<longleftrightarrow> (case x of None \<Rightarrow> True
     | Some a \<Rightarrow> (addr0 a OR addr1 a OR addr3 a) = 0 \<and> (addr2 a = 0 \<or> addr2 a = htonl 0xffff))"

definition ip_addr_isunspecified :: "ip_addr \<Rightarrow> bool" where
  "ip_addr_isunspecified a \<longleftrightarrow> addr0 a = 0 \<and> addr1 a = 0 \<and> addr2 a = 0 \<and> addr3 a = 0"

text \<open>The operators have the precedence that C gives them: the shift binds tighter than the conjunction.\<close>

definition IP6_ADDR_LINKSCOPE :: "(nat \<Rightarrow> 8 word) \<Rightarrow> ip_addr" where
  "IP6_ADDR_LINKSCOPE hwaddr =
     (let hw = (\<lambda>i. ucast (hwaddr i) :: 32 word) in
      IP6_ADDR 0xfe80 0 0 0
        ((if hw 0 AND 0x02 \<noteq> 0 then hw 0 AND NOT 0x02 else hw 0 AND push_bit 8 0x02) OR hw 1)
        (push_bit 8 (hw 2) OR 0xff) (0xfe00 OR hw 3) (push_bit 8 (hw 4) OR hw 5))"

definition ip_addr_islinkscope :: "ip_addr \<Rightarrow> bool" where
  "ip_addr_islinkscope a \<longleftrightarrow> addr0 a = htonl 0xfe800000 \<and> addr1 a = 0"

definition ip_addr_ismulticast :: "ip_addr \<Rightarrow> bool" where
  "ip_addr_ismulticast a \<longleftrightarrow> drop_bit 24 (htonl (addr0 a)) = 0xff"

definition ip_addr_isallnode :: "ip_addr \<Rightarrow> bool" where
  "ip_addr_isallnode a \<longleftrightarrow> (addr0 a = htonl 0xff010000 \<or> addr0 a = htonl 0xff020000) \<and>
     addr1 a = 0 \<and> addr2 a = 0 \<and> addr3 a = 1"

definition ip_addr_isallrouter :: "ip_addr \<Rightarrow> bool" where
  "ip_addr_isallrouter a \<longleftrightarrow> (addr0 a = htonl 0xff010000 \<or> addr0 a = htonl 0xff020000) \<and>
     addr1 a = 0 \<and> addr2 a = 0 \<and> addr3 a = 2"

definition IP6_NODELOCAL :: "32 word" where "IP6_NODELOCAL = 0xff010000"
definition IP6_LINKLOCAL :: "32 word" where "IP6_LINKLOCAL = 0xff020000"

definition IP6_ADDR_ALLNODE :: "32 word \<Rightarrow> ip_addr" where
  "IP6_ADDR_ALLNODE type = \<lparr>addr0 = htonl type, addr1 = 0, addr2 = 0, addr3 = htonl 1\<rparr>"

definition IP6_ADDR_ALLROUTER :: "32 word \<Rightarrow> ip_addr" where
  "IP6_ADDR_ALLROUTER type = \<lparr>addr0 = htonl type, addr1 = 0, addr2 = 0, addr3 = htonl 2\<rparr>"

definition ip_addr_issolicited :: "ip_addr \<Rightarrow> ip_addr option \<Rightarrow> bool" where
  "ip_addr_issolicited a myaddr \<longleftrightarrow> (case myaddr of None \<Rightarrow> False
     | Some my \<Rightarrow> addr0 a = htonl 0xff020000 \<and> addr1 a = 0 \<and> addr2 a = 1 \<and>
         addr3 a = (addr3 my OR htonl 0xff000000))"

definition IP6_ADDR_SOLICITED :: "ip_addr \<Rightarrow> ip_addr" where
  "IP6_ADDR_SOLICITED a = \<lparr>addr0 = htonl 0xff020000, addr1 = 0, addr2 = htonl 1, addr3 = htonl 0xff000000 OR addr3 a\<rparr>"

definition ip_addr_is_v4comp :: "ip_addr \<Rightarrow> bool" where
  "ip_addr_is_v4comp a \<longleftrightarrow> addr0 a = 0 \<and> addr1 a = 0 \<and> addr2 a = IP64_PREFIX"

definition ip_addr_is_v4broadcast_allones :: "ip_addr \<Rightarrow> bool" where
  "ip_addr_is_v4broadcast_allones a \<longleftrightarrow> addr0 a = 0 \<and> addr1 a = 0 \<and> addr2 a = IP64_PREFIX \<and> addr3 a = 0xffffffff"

definition ip_addr_is_v4broadcast :: "ip_addr \<Rightarrow> ip_addr \<Rightarrow> ip_addr \<Rightarrow> bool" where
  "ip_addr_is_v4broadcast a local nm \<longleftrightarrow> addr0 a = 0 \<and> addr1 a = 0 \<and> addr2 a = IP64_PREFIX \<and>
     addr3 a = (addr3 local OR (0xffffffff AND NOT (addr3 nm)))"

definition ip_addr_is_v4multicast :: "ip_addr \<Rightarrow> bool" where
  "ip_addr_is_v4multicast a \<longleftrightarrow> addr0 a = 0 \<and> addr1 a = 0 \<and> addr2 a = IP64_PREFIX \<and>
     addr3 a AND htonl 0xf0000000 = htonl 0xe0000000"

definition mask_wider :: "ip_addr \<Rightarrow> ip_addr \<Rightarrow> bool" where
  "mask_wider x y \<longleftrightarrow> ((addr0 y AND NOT (addr0 x)) OR (addr1 y AND NOT (addr1 x)) OR
     (addr2 y AND NOT (addr2 x)) OR (addr3 y AND NOT (addr3 x))) \<noteq> 0"

section \<open>Lemmas\<close>

lemma ip_addr_cmp_eq: "ip_addr_cmp a b \<longleftrightarrow> a = b"
  by (cases a; cases b) (simp add: ip_addr_cmp_def)

lemma ip_addr_cmp_mask: "ip_addr_maskcmp a b m \<longleftrightarrow> ip_addr_cmp (ip_addr_set_mask (Some a) m) (ip_addr_set_mask (Some b) m)"
  by (simp add: ip_addr_maskcmp_def ip_addr_cmp_def ip_addr_set_mask_def)

lemma htonl_1: "htonl 1 = 0x1000000"
  by (simp add: htonl_def)

end
