(* ===== verification/Ip_Addr_List.thy ===== *)
theory Ip_Addr_List
  imports Ip_Addr
begin

text \<open>
  The lists of the addresses of an interface, \<open>ip_addr_list_*\<close> of \<open>ip6_addr.c\<close>: circular lists,
  kept by the pointer to the last element.  The elements are in a heap; the use of a NULL pointer
  or of an element that has been freed is \<open>None\<close>.
\<close>

section \<open>Operations\<close>

record ip_addr_elem =
  al_next :: "addr option"
  al_ipaddr :: ip_addr
  al_netmask :: ip_addr
  al_netif :: "addr option"
  al_flags :: "8 word"

record al_state =
  al_mem :: "addr \<rightharpoonup> ip_addr_elem"
  al_brk :: addr
  al_tail :: "addr option"

definition al_set_next :: "addr \<Rightarrow> addr option \<Rightarrow> al_state \<Rightarrow> al_state option" where
  "al_set_next a n s = (case al_mem s a of None \<Rightarrow> None | Some e \<Rightarrow> Some (s\<lparr>al_mem := (al_mem s)(a \<mapsto> e\<lparr>al_next := n\<rparr>)\<rparr>))"

text \<open>The element after an element; \<open>None\<close> if it is not allocated or its pointer is NULL.\<close>

definition al_succ :: "(addr \<rightharpoonup> ip_addr_elem) \<Rightarrow> addr \<Rightarrow> addr option" where
  "al_succ m a = Option.bind (m a) al_next"

text \<open>\<open>ok\<close>: the answer of the allocator.\<close>

definition ip_addr_list_alloc :: "bool \<Rightarrow> al_state \<Rightarrow> addr option \<times> al_state" where
  "ip_addr_list_alloc ok s =
     (if ok then (Some (al_brk s), s\<lparr>al_mem := (al_mem s)(al_brk s \<mapsto>
          \<lparr>al_next = None, al_ipaddr = ip_addr_any, al_netmask = ip_addr_any, al_netif = None, al_flags = 0\<rparr>),
        al_brk := al_brk s + 1\<rparr>)
      else (None, s))"

definition ip_addr_list_free :: "addr \<Rightarrow> al_state \<Rightarrow> al_state option" where
  "ip_addr_list_free el s = (case al_mem s el of None \<Rightarrow> None | Some _ \<Rightarrow> Some (s\<lparr>al_mem := (al_mem s)(el := None)\<rparr>))"

partial_function (option) freelist_loop :: "addr option \<Rightarrow> al_state \<Rightarrow> al_state option" where
  "freelist_loop tail s = (case tail of None \<Rightarrow> Some s
     | Some t \<Rightarrow> (case al_mem s t of None \<Rightarrow> None
         | Some e \<Rightarrow> Option.bind (ip_addr_list_free t s) (\<lambda>s. freelist_loop (al_next e) s)))"

definition ip_addr_list_freelist :: "addr option \<Rightarrow> al_state \<Rightarrow> al_state option" where
  "ip_addr_list_freelist tail s = (case tail of None \<Rightarrow> Some s
     | Some t \<Rightarrow> Option.bind (al_set_next t None s) (\<lambda>s. freelist_loop tail s))"

definition ip_addr_list_add :: "addr \<Rightarrow> al_state \<Rightarrow> al_state option" where
  "ip_addr_list_add el s = (case al_tail s of
       None \<Rightarrow> map_option (\<lambda>s. s\<lparr>al_tail := Some el\<rparr>) (al_set_next el (Some el) s)
     | Some t \<Rightarrow> do {
         e \<leftarrow> al_mem s t;
         s \<leftarrow> al_set_next el (al_next e) s;
         s \<leftarrow> al_set_next t (Some el) s;
         Some (s\<lparr>al_tail := Some el\<rparr>)
       })"

partial_function (option) del_search :: "(addr \<rightharpoonup> ip_addr_elem) \<Rightarrow> addr \<Rightarrow> addr \<Rightarrow> addr \<Rightarrow> addr \<Rightarrow> (addr \<times> addr) option" where
  "del_search m tail el prev p =
     (if p \<noteq> el \<and> p \<noteq> tail then (case al_succ m p of None \<Rightarrow> None | Some n \<Rightarrow> del_search m tail el p n)
      else Some (prev, p))"

definition ip_addr_list_del :: "addr \<Rightarrow> al_state \<Rightarrow> al_state option" where
  "ip_addr_list_del el s = (case al_tail s of
       None \<Rightarrow> Some s
     | Some t \<Rightarrow> do {
         first \<leftarrow> al_succ (al_mem s) t;
         (prev, p) \<leftarrow> del_search (al_mem s) t el t first;
         if p = el then
           if p = prev then Some (s\<lparr>al_tail := None\<rparr>)
           else do {
             n \<leftarrow> map_option al_next (al_mem s p);
             s \<leftarrow> al_set_next prev n s;
             Some (if al_tail s = Some p then s\<lparr>al_tail := Some prev\<rparr> else s)
           }
         else Some s
       })"

text \<open>The \<open>do ... while\<close> loop of the searches: the first element that satisfies \<open>test\<close>.\<close>

partial_function (option) al_scan ::
  "(ip_addr_elem \<Rightarrow> bool) \<Rightarrow> (addr \<rightharpoonup> ip_addr_elem) \<Rightarrow> addr \<Rightarrow> addr \<Rightarrow> addr option option" where
  "al_scan test m head el = (case m el of None \<Rightarrow> None
     | Some e \<Rightarrow> if test e then Some (Some el)
         else (case al_next e of None \<Rightarrow> None
           | Some n \<Rightarrow> if n \<noteq> head then al_scan test m head n else Some None))"

definition al_search :: "(ip_addr_elem \<Rightarrow> bool) \<Rightarrow> al_state \<Rightarrow> addr option option" where
  "al_search test s = (case al_tail s of None \<Rightarrow> Some None
     | Some t \<Rightarrow> Option.bind (al_succ (al_mem s) t) (\<lambda>h. al_scan test (al_mem s) h h))"

definition find_test :: "ip_addr \<Rightarrow> ip_addr option \<Rightarrow> ip_addr_elem \<Rightarrow> bool" where
  "find_test addr netmask e \<longleftrightarrow> ip_addr_cmp (al_ipaddr e) addr \<and>
     (case netmask of None \<Rightarrow> True | Some nm \<Rightarrow> ip_addr_cmp (al_netmask e) nm)"

definition ip_addr_list_find :: "al_state \<Rightarrow> ip_addr \<Rightarrow> ip_addr option \<Rightarrow> addr option option" where
  "ip_addr_list_find s addr netmask = al_search (find_test addr netmask) s"

definition maskfind_test :: "ip_addr \<Rightarrow> ip_addr_elem \<Rightarrow> bool" where
  "maskfind_test addr e \<longleftrightarrow> ip_addr_maskcmp (al_ipaddr e) addr (al_netmask e) \<and>
     (ip_addr_islinkscope (al_ipaddr e) \<and> ip_addr_islinkscope addr \<or>
      \<not> ip_addr_islinkscope (al_ipaddr e) \<and> \<not> ip_addr_islinkscope addr)"

definition ip_addr_list_maskfind :: "al_state \<Rightarrow> ip_addr \<Rightarrow> addr option option" where
  "ip_addr_list_maskfind s addr = al_search (maskfind_test addr) s"

definition delivery_test :: "ip_addr \<Rightarrow> ip_addr \<Rightarrow> ip_addr_elem \<Rightarrow> bool" where
  "delivery_test addr sender e \<longleftrightarrow>
     ip_addr_cmp (al_ipaddr e) addr \<or>
     ip_addr_maskcmp sender (al_ipaddr e) (al_netmask e) \<and>
       (ip_addr_isallnode addr \<or>
        ip_addr_issolicited addr (Some (al_ipaddr e)) \<or>
        ip_addr_is_v4comp (al_ipaddr e) \<and> ip_addr_is_v4broadcast addr (al_ipaddr e) (al_netmask e)) \<or>
     ip_addr_is_dhcp_broadcast sender addr"

definition ip_addr_list_deliveryfind :: "al_state \<Rightarrow> ip_addr \<Rightarrow> ip_addr \<Rightarrow> addr option option" where
  "ip_addr_list_deliveryfind s addr sender = al_search (delivery_test addr sender) s"

definition masquarade_test :: "nat \<Rightarrow> ip_addr_elem \<Rightarrow> bool" where
  "masquarade_test ipv e \<longleftrightarrow> (if ipv = 4 then ip_addr_is_v4comp (al_ipaddr e)
     else \<not> ip_addr_ismulticast (al_ipaddr e) \<and> \<not> ip_addr_islinkscope (al_ipaddr e))"

definition ip_addr_list_masquarade_addr :: "al_state \<Rightarrow> nat \<Rightarrow> addr option option" where
  "ip_addr_list_masquarade_addr s ipv =
     (if ipv \<noteq> 4 \<and> ipv \<noteq> 6 then Some None else al_search (masquarade_test ipv) s)"

definition unicast_test :: "ip_addr \<Rightarrow> ip_addr_elem \<Rightarrow> bool" where
  "unicast_test addr e \<longleftrightarrow> \<not> ip_addr_is_v4comp (al_ipaddr e) \<and>
     ip_addr_maskcmp (al_ipaddr e) addr (IP6_ADDR 0 0 0 0 0 0 0xff 0xffff)"

definition ip_addr_find_unicast_from_solicited :: "al_state \<Rightarrow> ip_addr \<Rightarrow> addr option option" where
  "ip_addr_find_unicast_from_solicited s addr = al_search (unicast_test addr) s"

section \<open>The elements of a circular list\<close>

text \<open>\<open>lseg m xs b\<close>: the elements \<open>xs\<close> are linked in this order and the last one to \<open>b\<close>.\<close>

fun lseg :: "(addr \<rightharpoonup> ip_addr_elem) \<Rightarrow> addr list \<Rightarrow> addr \<Rightarrow> bool" where
  "lseg m [] b \<longleftrightarrow> True"
| "lseg m (x # xs) b \<longleftrightarrow> (\<exists>e. m x = Some e \<and> al_next e = Some (hd (xs @ [b]))) \<and> lseg m xs b"

definition al_ring :: "al_state \<Rightarrow> addr list \<Rightarrow> bool" where
  "al_ring s xs \<longleftrightarrow> distinct xs \<and> (case xs of [] \<Rightarrow> al_tail s = None
     | x # _ \<Rightarrow> al_tail s = Some (last xs) \<and> lseg (al_mem s) xs x)"

lemma lseg_append: "lseg m (xs @ ys) b \<longleftrightarrow> lseg m xs (hd (ys @ [b])) \<and> lseg m ys b"
  by (induction xs) (auto simp: hd_append)

lemma lseg_cong: "(\<And>x. x \<in> set xs \<Longrightarrow> m' x = m x) \<Longrightarrow> lseg m' xs b = lseg m xs b"
  by (induction xs) auto

lemma lseg_upd: "a \<notin> set xs \<Longrightarrow> lseg (m(a \<mapsto> e)) xs b = lseg m xs b"
  by (rule lseg_cong) auto

lemma al_ring_Nil [simp]: "al_ring s [] \<longleftrightarrow> al_tail s = None"
  by (simp add: al_ring_def)

lemma al_ring_snoc: "al_ring s (xs @ [t]) \<longleftrightarrow> distinct (xs @ [t]) \<and> al_tail s = Some t \<and> lseg (al_mem s) (xs @ [t]) (hd (xs @ [t]))"
  by (cases xs) (auto simp: al_ring_def)

lemma al_ring_ne: "xs \<noteq> [] \<Longrightarrow> al_ring s xs \<longleftrightarrow> distinct xs \<and> al_tail s = Some (last xs) \<and> lseg (al_mem s) xs (hd xs)"
  by (cases xs) (auto simp: al_ring_def)

lemma lseg_mem: "lseg m xs b \<Longrightarrow> x \<in> set xs \<Longrightarrow> \<exists>e. m x = Some e"
  by (induction xs) auto

lemma lseg_last: "lseg m (xs @ [t]) b \<Longrightarrow> al_succ m t = Some b"
  by (auto simp: lseg_append al_succ_def)

lemma lseg_next: "lseg m (xs @ x # ys) b \<Longrightarrow> al_succ m x = Some (hd (ys @ [b]))"
  by (auto simp: lseg_append al_succ_def)

text \<open>Changes of the links only.\<close>

definition al_val :: "ip_addr_elem \<Rightarrow> ip_addr \<times> ip_addr" where
  "al_val e = (al_ipaddr e, al_netmask e)"

definition al_cell :: "al_state \<Rightarrow> addr \<Rightarrow> (ip_addr \<times> ip_addr) option" where
  "al_cell s a = map_option al_val (al_mem s a)"

lemma al_val_next [simp]: "al_val (e\<lparr>al_next := n\<rparr>) = al_val e"
  by (simp add: al_val_def)

lemma al_add_ok:
  assumes r: "al_ring s xs" and c: "al_cell s el \<noteq> None" and el: "el \<notin> set xs"
  shows "\<exists>s'. ip_addr_list_add el s = Some s' \<and> al_ring s' (xs @ [el]) \<and> al_cell s' = al_cell s"
proof -
  obtain e where e: "al_mem s el = Some e" using c by (auto simp: al_cell_def)
  show ?thesis
  proof (cases xs rule: rev_cases)
    case Nil
    then show ?thesis using r e by (auto simp: ip_addr_list_add_def al_set_next_def al_ring_def al_cell_def fun_eq_iff)
  next
    case (snoc ys t)
    note r' = r [unfolded snoc al_ring_snoc]
    let ?h = "hd (ys @ [t])"
    obtain et where et: "al_mem s t = Some et" "al_next et = Some ?h" using r' by (auto simp: lseg_append)
    have ne: "el \<noteq> t" "el \<notin> set ys" using el snoc by auto
    define m where "m = (al_mem s)(el \<mapsto> e\<lparr>al_next := Some ?h\<rparr>, t \<mapsto> et\<lparr>al_next := Some el\<rparr>)"
    have add: "ip_addr_list_add el s = Some (s\<lparr>al_mem := m, al_tail := Some el\<rparr>)"
      using r' e et ne by (simp add: ip_addr_list_add_def al_set_next_def m_def)
    have "lseg m ys t = lseg (al_mem s) ys t" by (rule lseg_cong) (use r' ne in \<open>auto simp: m_def\<close>)
    then have "al_ring (s\<lparr>al_mem := m, al_tail := Some el\<rparr>) ((ys @ [t]) @ [el])"
      unfolding al_ring_snoc using r' ne by (auto simp: lseg_append m_def hd_append)
    then show ?thesis using add snoc e et(1) ne by (auto simp: m_def al_cell_def fun_eq_iff)
  qed
qed

lemma del_search_hit:
  assumes "lseg m (as @ el # bs) h" "t \<notin> set as" "el \<notin> set as"
  shows "del_search m t el prev (hd (as @ [el])) = Some (last (prev # as), el)"
  using assms
proof (induction as arbitrary: prev)
  case Nil
  then show ?case by (subst del_search.simps) simp
next
  case (Cons p as)
  have "al_succ m p = Some (hd (as @ [el]))" using Cons.prems(1) by (auto simp: al_succ_def hd_append)
  then show ?case using Cons by (subst del_search.simps) auto
qed

lemma del_search_miss:
  assumes "lseg m (as @ [t]) h" "t \<notin> set as" "el \<notin> set as" "el \<noteq> t"
  shows "del_search m t el prev (hd (as @ [t])) = Some (last (prev # as), t)"
  using assms
proof (induction as arbitrary: prev)
  case Nil
  then show ?case by (subst del_search.simps) simp
next
  case (Cons p as)
  have "al_succ m p = Some (hd (as @ [t]))" using Cons.prems(1) by (auto simp: al_succ_def hd_append)
  then show ?case using Cons by (subst del_search.simps) auto
qed

text \<open>The link around an element that is taken out of the list.\<close>

lemma lseg_unlink:
  assumes r: "distinct (as @ el # bs)" "lseg m (as @ el # bs) (hd (as @ [el]))" and ne: "as @ bs \<noteq> []"
    and q: "q = last (last (el # bs) # as)" "m q = Some e"
  shows "lseg (m(q \<mapsto> e\<lparr>al_next := Some (hd (bs @ [hd (as @ [el])]))\<rparr>)) (as @ bs) (hd (as @ bs))"
proof (cases as rule: rev_cases)
  case Nil
  then obtain cs where bs: "bs = cs @ [q]" using ne q(1) by (cases bs rule: rev_cases) auto
  have "lseg m cs q" using r(2) Nil bs by (auto simp: lseg_append)
  then have "lseg (m(q \<mapsto> e\<lparr>al_next := Some (hd (bs @ [hd (as @ [el])]))\<rparr>)) cs q" using r(1) bs by (simp add: lseg_upd)
  then show ?thesis using Nil bs by (simp add: lseg_append hd_append)
next
  case (snoc cs x)
  then have x: "q = x" using q(1) by simp
  have hh: "hd (as @ [el]) = hd as" "hd (as @ bs) = hd as" using snoc by (simp_all add: hd_append)
  let ?m = "m(q \<mapsto> e\<lparr>al_next := Some (hd (bs @ [hd as]))\<rparr>)"
  have "lseg m cs q" "lseg m bs (hd as)" using r(2) snoc x unfolding hh(1) by (auto simp: lseg_append)
  then have "lseg ?m cs q" "lseg ?m bs (hd as)" using r(1) snoc x by (simp_all add: lseg_upd)
  then have "lseg ?m (cs @ q # bs) (hd as)" by (simp add: lseg_append)
  then show ?thesis unfolding hh using snoc x by simp
qed

lemma al_del_ok:
  assumes r: "al_ring s xs"
  shows "\<exists>s'. ip_addr_list_del el s = Some s' \<and> al_ring s' (remove1 el xs) \<and> al_cell s' = al_cell s"
proof (cases xs rule: rev_cases)
  case Nil
  then show ?thesis using r by (simp add: ip_addr_list_del_def)
next
  case (snoc ys t)
  note r' = r [unfolded snoc al_ring_snoc]
  have first: "al_succ (al_mem s) t = Some (hd (ys @ [t]))" using r' by (blast dest: lseg_last)
  show ?thesis
  proof (cases "el \<in> set xs")
    case False
    then have "del_search (al_mem s) t el t (hd (ys @ [t])) = Some (last (t # ys), t)"
      by (intro del_search_miss) (use r' snoc in auto)
    then have "ip_addr_list_del el s = Some s" using r' first False snoc by (auto simp: ip_addr_list_del_def)
    then show ?thesis using r False by (simp add: remove1_idem)
  next
    case True
    then obtain as bs where xs: "xs = as @ el # bs" "el \<notin> set as" by (meson split_list_first)
    have eq: "ys @ [t] = as @ el # bs" using snoc xs(1) by simp
    have h: "hd (ys @ [t]) = hd (as @ [el])" unfolding eq by (cases as) simp_all
    have d: "distinct (as @ el # bs)" "lseg (al_mem s) (as @ el # bs) (hd (as @ [el]))" "t = last (el # bs)"
    proof -
      show "distinct (as @ el # bs)" using r' unfolding eq by blast
      show "lseg (al_mem s) (as @ el # bs) (hd (as @ [el]))" using r' unfolding h unfolding eq by blast
      show "t = last (el # bs)" using arg_cong [OF eq, of last] by simp
    qed
    have t: "t \<notin> set as" using d(1,3) by (auto split: if_splits)
    define q where "q = last (t # as)"
    have s1: "del_search (al_mem s) t el t (hd (ys @ [t])) = Some (q, el)"
      unfolding h q_def by (rule del_search_hit [OF d(2) t xs(2)])
    have rem: "remove1 el xs = as @ bs" using xs by (simp add: remove1_append)
    have qin: "q \<in> set (as @ [t])" by (simp add: q_def)
    show ?thesis
    proof (cases "as @ bs = []")
      case True
      then have "q = el" using d(3) by (simp add: q_def)
      then have "ip_addr_list_del el s = Some (s\<lparr>al_tail := None\<rparr>)" using r' first s1 by (simp add: ip_addr_list_del_def)
      then show ?thesis using True rem by (simp add: al_cell_def fun_eq_iff)
    next
      case False
      then have qel: "q \<noteq> el" using d(1,3) by (auto simp: q_def split: if_splits)
      obtain e where e: "al_mem s el = Some e" "al_next e = Some (hd (bs @ [hd (as @ [el])]))"
        using d(2) by (auto simp: lseg_append)
      obtain eq where eq: "al_mem s q = Some eq"
        using lseg_mem [OF conjunct2 [OF conjunct2 [OF r']], of q] qin xs(1) snoc by (metis Un_iff set_append list.set_intros(1) in_set_conv_decomp)
      define m where "m = (al_mem s)(q \<mapsto> eq\<lparr>al_next := Some (hd (bs @ [hd (as @ [el])]))\<rparr>)"
      define s' where "s' = s\<lparr>al_mem := m, al_tail := Some (if t = el then q else t)\<rparr>"
      have run: "ip_addr_list_del el s = Some s'"
        using r' first s1 qel e eq by (simp add: ip_addr_list_del_def al_set_next_def m_def s'_def)
      have "lseg m (as @ bs) (hd (as @ bs))" unfolding m_def
        by (rule lseg_unlink [OF d(1,2) False]) (use eq d(3) in \<open>simp_all add: q_def\<close>)
      moreover have "(if t = el then q else t) = last (as @ bs)" using d(1,3) False by (auto simp: q_def split: if_splits)
      ultimately have "al_ring s' (as @ bs)" using d(1) False by (simp add: al_ring_ne s'_def)
      then show ?thesis using run rem eq by (auto simp: s'_def m_def al_cell_def fun_eq_iff)
    qed
  qed
qed

lemma al_scan_ok:
  assumes "lseg m xs h" "xs \<noteq> []" "h \<notin> set (tl xs)"
  shows "al_scan test m h (hd xs) = Some (find (\<lambda>a. test (the (m a))) xs)"
  using assms
proof (induction xs)
  case (Cons x xs)
  then obtain e where e: "m x = Some e" "al_next e = Some (hd (xs @ [h]))" by auto
  show ?case
  proof (cases xs)
    case Nil
    then show ?thesis using e by (subst al_scan.simps) simp
  next
    case (Cons y ys)
    then show ?thesis using e Cons.IH Cons.prems by (subst al_scan.simps) auto
  qed
qed simp

lemma al_search_ok:
  assumes r: "al_ring s xs"
  shows "al_search test s = Some (find (\<lambda>a. test (the (al_mem s a))) xs)"
proof (cases "xs = []")
  case False
  then have d: "distinct xs" "al_tail s = Some (last xs)" "lseg (al_mem s) xs (hd xs)" using r by (simp_all add: al_ring_ne)
  have "al_succ (al_mem s) (last xs) = Some (hd xs)" using d(3) False by (metis append_butlast_last_id lseg_last)
  then show ?thesis using al_scan_ok [OF d(3) False] d(1,2) False by (cases xs) (auto simp: al_search_def)
qed (use r in \<open>simp add: al_search_def\<close>)

end
