(* ===== verification/Ip_Addr_Props.thy ===== *)
theory Ip_Addr_Props
  imports Ip_Addr_List
begin

text \<open>
  Properties of the lists of addresses: the circular lists implement sequences, and what the macros
  on addresses do.
\<close>

section \<open>Sequences in linked elements\<close>

text \<open>
  The interface of a linked sequence: \<open>repr s xs\<close> relates a state to the elements in their order,
  \<open>cell s x\<close> is the content of an element.
\<close>

locale linked_seq =
  fixes repr :: "'s \<Rightarrow> 'a list \<Rightarrow> bool"
    and cell :: "'s \<Rightarrow> 'a \<Rightarrow> 'v option"
    and add :: "'a \<Rightarrow> 's \<Rightarrow> 's option"
    and del :: "'a \<Rightarrow> 's \<Rightarrow> 's option"
    and search :: "('v \<Rightarrow> bool) \<Rightarrow> 's \<Rightarrow> 'a option option"
  assumes add: "repr s xs \<Longrightarrow> cell s x \<noteq> None \<Longrightarrow> x \<notin> set xs \<Longrightarrow>
      \<exists>s'. add x s = Some s' \<and> repr s' (xs @ [x]) \<and> cell s' = cell s"
    and del: "repr s xs \<Longrightarrow> \<exists>s'. del x s = Some s' \<and> repr s' (remove1 x xs) \<and> cell s' = cell s"
    and search: "repr s xs \<Longrightarrow> search P s = Some (find (\<lambda>x. P (the (cell s x))) xs)"
begin

lemma seq_add_del:
  assumes "repr s xs" "cell s x \<noteq> None" "x \<notin> set xs"
  shows "\<exists>s1 s2. add x s = Some s1 \<and> del x s1 = Some s2 \<and> repr s2 xs \<and> cell s2 = cell s"
proof -
  obtain s1 where s1: "add x s = Some s1" "repr s1 (xs @ [x])" "cell s1 = cell s" using add [OF assms] by blast
  obtain s2 where "del x s1 = Some s2" "repr s2 (remove1 x (xs @ [x]))" "cell s2 = cell s1" using del [OF s1(2), of x] by blast
  then show ?thesis using s1 assms(3) by (auto simp: remove1_append)
qed

text \<open>An element that is added is found unless an older one is.\<close>

lemma seq_add_search:
  assumes "repr s xs" "cell s x = Some v" "x \<notin> set xs" "P v"
  shows "\<exists>s1 y. add x s = Some s1 \<and> search P s1 = Some (Some y) \<and> (search P s = Some None \<longrightarrow> y = x)"
proof -
  have "cell s x \<noteq> None" using assms(2) by simp
  then obtain s1 where s1: "add x s = Some s1" "repr s1 (xs @ [x])" "cell s1 = cell s" using add [OF assms(1) _ assms(3)] by blast
  define F where "F = find (\<lambda>x. P (the (cell s x))) xs"
  have "find (\<lambda>x. P (the (cell s x))) (xs @ [x]) = (case F of None \<Rightarrow> Some x | Some y \<Rightarrow> Some y)"
    unfolding F_def using assms(2,4) by (induction xs) auto
  then show ?thesis using s1 search [OF s1(2), of P] search [OF assms(1), of P] by (cases F) (auto simp: F_def)
qed

end

definition al_find_val :: "(ip_addr \<times> ip_addr \<Rightarrow> bool) \<Rightarrow> al_state \<Rightarrow> addr option option" where
  "al_find_val P s = al_search (\<lambda>e. P (al_val e)) s"

lemma find_cong_set: "(\<And>x. x \<in> set xs \<Longrightarrow> P x = Q x) \<Longrightarrow> find P xs = find Q xs"
  by (induction xs) auto

lemma al_ring_mem: "al_ring s xs \<Longrightarrow> x \<in> set xs \<Longrightarrow> \<exists>e. al_mem s x = Some e"
  by (cases "xs = []") (auto simp: al_ring_ne dest: lseg_mem)

interpretation al: linked_seq al_ring al_cell ip_addr_list_add ip_addr_list_del al_find_val
proof (unfold_locales, goal_cases)
  case (1 s xs x)
  then show ?case by (rule al_add_ok)
next
  case (2 s xs x)
  then show ?case by (rule al_del_ok)
next
  case (3 s xs P)
  then show ?case unfolding al_find_val_def al_search_ok [OF 3]
    by (auto intro!: find_cong_set simp: al_cell_def dest!: al_ring_mem [OF 3])
qed

section \<open>Properties\<close>

text \<open>Two addresses of an interface, 10.0.0.1/24 and fe80::1.\<close>

definition ex_al :: al_state where
  "ex_al = \<lparr>al_mem = [0 \<mapsto> \<lparr>al_next = Some 1, al_ipaddr = IP64_ADDR 10 0 0 1, al_netmask = IP64_MASKADDR 255 255 255 0, al_netif = Some 0, al_flags = 0\<rparr>,
       1 \<mapsto> \<lparr>al_next = Some 0, al_ipaddr = IP6_ADDR 0xfe80 0 0 0 0 0 0 1, al_netmask = IP6_ADDR 0xffff 0xffff 0xffff 0xffff 0 0 0 0, al_netif = Some 0, al_flags = 0\<rparr>,
       2 \<mapsto> \<lparr>al_next = None, al_ipaddr = IP64_ADDR 10 0 1 1, al_netmask = IP64_MASKADDR 255 255 255 0, al_netif = Some 0, al_flags = 0\<rparr>],
     al_brk = 3, al_tail = Some 1\<rparr>"

lemma ex_al_ring: "al_ring ex_al [0, 1]"
  by (simp add: ex_al_def al_ring_def)

lemma ex_al_cells: "al_cell ex_al 2 \<noteq> None" "al_ipaddr (the (al_mem ex_al 0)) = IP64_ADDR 10 0 0 1"
  by (simp_all add: ex_al_def al_cell_def)

text \<open>
  C14: The circular list of the addresses of an interface implements a sequence: adding an element
  appends it, deleting one takes it out and leaves the order of the others, deleting an element that
  is not in the list changes nothing, and each search returns the first element that satisfies its
  condition.  None of them follows a bad pointer or goes around forever.
\<close>

theorem addr_list_refines:
  assumes "al_ring s xs"
  shows "(al_cell s el \<noteq> None \<and> el \<notin> set xs \<longrightarrow>
            (\<exists>s'. ip_addr_list_add el s = Some s' \<and> al_ring s' (xs @ [el]) \<and> al_cell s' = al_cell s)) \<and>
     (\<exists>s'. ip_addr_list_del el s = Some s' \<and> al_ring s' (remove1 el xs) \<and> al_cell s' = al_cell s) \<and>
     ip_addr_list_find s addr nm = Some (find (\<lambda>x. find_test addr nm (the (al_mem s x))) xs) \<and>
     ip_addr_list_maskfind s addr = Some (find (\<lambda>x. maskfind_test addr (the (al_mem s x))) xs) \<and>
     ip_addr_list_deliveryfind s addr sender = Some (find (\<lambda>x. delivery_test addr sender (the (al_mem s x))) xs)"
  using al.add [OF assms, of el] al.del [OF assms, of el] al_search_ok [OF assms]
  by (simp add: ip_addr_list_find_def ip_addr_list_maskfind_def ip_addr_list_deliveryfind_def)

theorem addr_list_refines_witness:
  "(\<exists>s'. ip_addr_list_add 2 ex_al = Some s' \<and> al_ring s' [0, 1, 2]) \<and> (\<exists>s'. ip_addr_list_del 0 ex_al = Some s' \<and> al_ring s' [1]) \<and>
     ip_addr_list_find ex_al (IP64_ADDR 10 0 0 1) None = Some (Some 0)"
  using addr_list_refines [OF ex_al_ring, of 2 "IP64_ADDR 10 0 0 1" None ip_addr_any]
    addr_list_refines [OF ex_al_ring, of 0 ip_addr_any None ip_addr_any] ex_al_cells
  by (auto simp: find_test_def ip_addr_cmp_eq)

text \<open>
  The macros that recognise the all-nodes address and the solicited-node address of a host never
  recognise the addresses that the macros of the same file build: they compare a word in network
  order with 1.  On a little-endian machine the search for the address that a packet is delivered to
  fails for those packets, unless the interface has the multicast address itself.
\<close>

theorem multicast_not_found:
  assumes "al_ring s xs" "a = IP6_ADDR_ALLNODE IP6_LINKLOCAL \<or> a = IP6_ADDR_ALLNODE IP6_NODELOCAL \<or> a = IP6_ADDR_SOLICITED b"
    and "\<And>x e. x \<in> set xs \<Longrightarrow> al_mem s x = Some e \<Longrightarrow> al_ipaddr e \<noteq> a"
  shows "ip_addr_list_deliveryfind s a sender = Some None"
proof -
  have "htonl 1 \<noteq> 1" "htonl 1 \<noteq> 0xffffffff" "htonl 0xff020000 \<noteq> 0" "htonl 0xff010000 \<noteq> 0" "htonl 1 \<noteq> IP64_PREFIX"
    by (simp_all add: htonl_def IP64_PREFIX_def)
  then have "\<not> ip_addr_isallnode a" "\<not> ip_addr_issolicited a x" "\<not> ip_addr_is_v4broadcast a c d" "\<not> ip_addr_is_dhcp_broadcast sender a" for x c d
    using assms(2) by (auto simp: ip_addr_isallnode_def ip_addr_issolicited_def ip_addr_is_v4broadcast_def ip_addr_is_dhcp_broadcast_def
        IP6_ADDR_ALLNODE_def IP6_ADDR_SOLICITED_def IP6_LINKLOCAL_def IP6_NODELOCAL_def IP64_PREFIX_def htonl_def split: option.splits)
  then have "\<not> delivery_test a sender (the (al_mem s x))" if "x \<in> set xs" for x
    using assms(3) [OF that] al_ring_mem [OF assms(1) that] by (auto simp: delivery_test_def ip_addr_cmp_eq)
  then have "find (\<lambda>x. delivery_test a sender (the (al_mem s x))) xs = None" by (simp add: find_None_iff)
  then show ?thesis unfolding ip_addr_list_deliveryfind_def al_search_ok [OF assms(1)] by simp
qed

theorem multicast_not_found_witness:
  "ip_addr_list_deliveryfind ex_al (IP6_ADDR_ALLNODE IP6_LINKLOCAL) (IP6_ADDR 0xfe80 0 0 0 0 0 0 2) = Some None"
proof (rule multicast_not_found [OF ex_al_ring])
  fix x e
  assume "x \<in> set [0, 1]" "al_mem ex_al x = Some e"
  then show "al_ipaddr e \<noteq> IP6_ADDR_ALLNODE IP6_LINKLOCAL"
    by (auto simp: ex_al_def IP6_ADDR_ALLNODE_def IP64_ADDR_def IP6_ADDR_def IP6_LINKLOCAL_def htonl_def)
qed simp

text \<open>
  The link-scope address that is built from a hardware address whose second lowest bit is clear
  does not contain the first byte of the hardware address, and the bit is not inverted.  For the
  hardware address of the comment above the macro the address is another one than the comment says.
\<close>

theorem linkscope_loses_byte:
  assumes "hw 0 AND 2 = 0"
  shows "IP6_ADDR_LINKSCOPE hw = IP6_ADDR 0xfe80 0 0 0 (ucast (hw 1)) (push_bit 8 (ucast (hw 2)) OR 0xff)
     (0xfe00 OR ucast (hw 3)) (push_bit 8 (ucast (hw 4)) OR ucast (hw 5))"
proof -
  let ?h = "ucast (hw 0) :: 32 word"
  have "?h AND 2 = ucast (hw 0 AND 2)" by (simp add: unsigned_and_eq)
  then have 2: "?h AND 2 = 0" using assms by simp
  have "?h = ?h AND mask 8" by (rule bit_word_eqI) (auto simp: bit_simps dest: bit_imp_le_length)
  then have "?h AND 512 = ?h AND (mask 8 AND 512)" by (metis and.assoc)
  also have "mask 8 AND 512 = (0 :: 32 word)" by (simp add: mask_eq_exp_minus_1)
  finally have "?h AND 512 = 0" by simp
  then show ?thesis using 2 by (simp add: IP6_ADDR_LINKSCOPE_def Let_def)
qed

theorem linkscope_loses_byte_witness:
  "IP6_ADDR_LINKSCOPE ((!) [0x00, 0x80, 0xad, 0xc8, 0xa9, 0x81]) \<noteq> IP6_ADDR 0xfe80 0 0 0 0x0280 0xadff 0xfec8 0xa981"
  using linkscope_loses_byte [of "(!) [0x00, 0x80, 0xad, 0xc8, 0xa9, 0x81]"]
  by (simp add: IP6_ADDR_def htonl_def)

text \<open>
  Freeing the list of the addresses of an interface frees its last element only: the pointer to
  the rest of the circular list is overwritten before it is followed.
\<close>

theorem freelist_frees_last:
  assumes "al_ring s (xs @ [t])"
  shows "\<exists>s'. ip_addr_list_freelist (al_tail s) s = Some s' \<and> al_mem s' = (al_mem s)(t := None)"
proof -
  obtain e where e: "al_mem s t = Some e" "al_tail s = Some t" using assms by (auto simp: al_ring_snoc lseg_append)
  have last: "freelist_loop None s' = Some s'" for s' by (subst freelist_loop.simps) simp
  have "freelist_loop (Some t) (s\<lparr>al_mem := (al_mem s)(t \<mapsto> e\<lparr>al_next := None\<rparr>)\<rparr>) =
      Some (s\<lparr>al_mem := (al_mem s)(t := None)\<rparr>)"
    by (subst freelist_loop.simps) (simp add: ip_addr_list_free_def last)
  then show ?thesis using e by (simp add: ip_addr_list_freelist_def al_set_next_def)
qed

theorem freelist_frees_last_witness:
  "\<exists>s'. ip_addr_list_freelist (al_tail ex_al) ex_al = Some s' \<and> al_mem s' 1 = None \<and> al_mem s' 0 \<noteq> None"
  using freelist_frees_last [of ex_al "[0]" 1] ex_al_ring by (auto simp: ex_al_def)

end
