(* ===== verification/Inet_Chksum.thy ===== *)
theory Inet_Chksum
  imports Ip_Addr
begin

text \<open>
  The Internet checksum, \<open>inet6.c\<close>: sums of 16-bit words over a piece of memory and over a chain of
  packet buffers, on a little-endian machine.  Memory is a list of bytes; a chain is the list of the
  payloads of its buffers, each shorter than \<open>2 ^ 16\<close> bytes (\<open>len\<close> is an \<open>u16_t\<close>).
\<close>

section \<open>The functions\<close>

type_synonym bytes = "8 word list"

text \<open>The 16-bit word at the start of the memory.\<close>

definition le16 :: "8 word \<Rightarrow> 8 word \<Rightarrow> 16 word" where
  "le16 a b = ucast a OR push_bit 8 (ucast b)"

fun chksum_loop :: "bytes \<Rightarrow> 32 word \<Rightarrow> 32 word" where
  "chksum_loop (a # b # xs) acc = chksum_loop xs (acc + ucast (le16 a b))"
| "chksum_loop [a] acc = acc + ucast (htons (push_bit 8 (ucast a AND 0xff)))"
| "chksum_loop [] acc = acc"

definition chksum :: "bytes \<Rightarrow> 32 word" where
  "chksum data = chksum_loop data 0"

text \<open>\<open>while (acc >> 16) acc = (acc & 0xffff) + (acc >> 16)\<close>.\<close>

function fold_acc :: "32 word \<Rightarrow> 32 word" where
  "fold_acc acc = (if drop_bit 16 acc \<noteq> 0 then fold_acc ((acc AND 0xffff) + drop_bit 16 acc) else acc)"
  by pat_completeness auto

definition swap_acc :: "32 word \<Rightarrow> 32 word" where
  "swap_acc acc = push_bit 8 (acc AND 0xff) OR drop_bit 8 (acc AND 0xff00)"

lemma and_ffff: "unat (acc AND 0xffff :: 32 word) = unat acc mod 65536"
proof -
  have "(0xffff :: 32 word) = mask 16" by (simp add: mask_eq_exp_minus_1)
  then have "(acc AND 0xffff) = take_bit 16 acc" by (simp add: take_bit_eq_mask)
  then have "unat (acc AND 0xffff) = take_bit 16 (unat acc)" by (simp only: unsigned_take_bit_eq)
  then show ?thesis by (simp add: take_bit_eq_mod)
qed

lemma shr16: "unat (drop_bit 16 acc :: 32 word) = unat acc div 65536"
  unfolding unat_drop_bit_eq by (simp add: drop_bit_eq_div)

lemma fold_step:
  fixes acc :: "32 word"
  shows "unat ((acc AND 0xffff) + drop_bit 16 acc) = unat acc mod 65536 + unat acc div 65536"
proof -
  have "unat acc < 4294967296" using unsigned_less [of acc] by simp
  then have "unat acc div 65536 < 65536" by (simp add: div_less_iff_less_mult)
  then have "unat acc mod 65536 + unat acc div 65536 < 4294967296" using mod_less_divisor [of 65536 "unat acc"] by linarith
  then show ?thesis by (simp add: unat_word_ariths and_ffff shr16)
qed

termination fold_acc
proof (relation "measure unat", simp, simp only: in_measure fold_step)
  fix acc :: "32 word"
  assume "drop_bit 16 acc \<noteq> 0"
  then have "unat (drop_bit 16 acc) \<noteq> 0" by (simp add: unat_eq_zero)
  then have d: "0 < unat acc div 65536" by (simp only: shr16)
  have "unat acc = unat acc div 65536 * 65536 + unat acc mod 65536" by simp
  then show "unat acc mod 65536 + unat acc div 65536 < unat acc" using d by linarith
qed

declare fold_acc.simps [simp del]

fun pbuf_loop :: "bytes list \<Rightarrow> 32 word \<Rightarrow> bool \<Rightarrow> 32 word \<times> bool" where
  "pbuf_loop [] acc swapped = (acc, swapped)"
| "pbuf_loop (q # p) acc swapped =
     (let acc = fold_acc (acc + chksum q) in
      if length q mod 2 \<noteq> 0 then pbuf_loop p (swap_acc acc) (\<not> swapped) else pbuf_loop p acc swapped)"

text \<open>The address as eight 16-bit words.\<close>

definition addr_half :: "ip_addr \<Rightarrow> nat \<Rightarrow> 16 word" where
  "addr_half a i =
     (let w = [addr0 a, addr1 a, addr2 a, addr3 a] ! (i div 2) in
      if i mod 2 = 0 then ucast w else ucast (drop_bit 16 w))"

fun addr_loop :: "ip_addr \<Rightarrow> ip_addr \<Rightarrow> nat list \<Rightarrow> 32 word \<Rightarrow> 32 word" where
  "addr_loop src dest [] acc = acc"
| "addr_loop src dest (i # is) acc =
     addr_loop src dest is (fold_acc (acc + (ucast (addr_half src i) AND 0xffff) + (ucast (addr_half dest i) AND 0xffff)))"

definition inet6_chksum_pseudo :: "bytes list \<Rightarrow> ip_addr \<Rightarrow> ip_addr \<Rightarrow> 8 word \<Rightarrow> 32 word \<Rightarrow> 16 word" where
  "inet6_chksum_pseudo p src dest proto proto_len =
     (let (acc, swapped) = pbuf_loop p 0 False;
          acc = (if swapped then swap_acc acc else acc);
          acc = addr_loop src dest [(if ip_addr_is_v4comp src then 6 else 0)..<8] acc;
          acc = acc + ucast (htons (ucast proto));
          acc = acc + (ucast (htons (ucast proto_len)) AND 0xffff);
          acc = acc + (ucast (htons (ucast (drop_bit 16 proto_len))) AND 0xffff);
          acc = fold_acc acc
      in ucast (NOT (acc AND 0xffff)))"

definition inet_chksum :: "bytes \<Rightarrow> 16 word" where
  "inet_chksum data =
     (let acc = chksum data;
          s = (acc AND 0xffff) + drop_bit 16 acc;
          s = s + drop_bit 16 s
      in ucast (NOT (s AND 0xffff)))"

text \<open>
  In the loop of \<open>inet_chksum_pbuf\<close> the operators are \<open>(acc & 0xff << 8) | (acc & 0xff00 >> 8)\<close>, in
  which C shifts the constants.
\<close>

fun pbuf_loop2 :: "bytes list \<Rightarrow> 32 word \<Rightarrow> bool \<Rightarrow> 32 word \<times> bool" where
  "pbuf_loop2 [] acc swapped = (acc, swapped)"
| "pbuf_loop2 (q # p) acc swapped =
     (let acc = fold_acc (acc + chksum q) in
      if length q mod 2 \<noteq> 0 then
        pbuf_loop2 p ((acc AND push_bit 8 0xff) OR (acc AND drop_bit 8 0xff00)) (\<not> swapped)
      else pbuf_loop2 p acc swapped)"

definition inet_chksum_pbuf :: "bytes list \<Rightarrow> 16 word" where
  "inet_chksum_pbuf p =
     (let (acc, swapped) = pbuf_loop2 p 0 False;
          acc = (if swapped then swap_acc acc else acc)
      in ucast (NOT (acc AND 0xffff)))"

section \<open>Ones' complement sums\<close>

text \<open>The sum with end-around carry of a natural number.\<close>

definition oc :: "nat \<Rightarrow> nat" where
  "oc n = (if n = 0 then 0 else (n - 1) mod 65535 + 1)"

text \<open>The sum of the 16-bit words of a piece of memory, an odd byte at the end is followed by 0.\<close>

fun sum16 :: "bytes \<Rightarrow> nat" where
  "sum16 (a # b # xs) = unat a + 256 * unat b + sum16 xs"
| "sum16 [a] = unat a"
| "sum16 [] = 0"

lemma oc_zero [simp]: "oc 0 = 0" "oc n = 0 \<longleftrightarrow> n = 0"
  by (auto simp: oc_def)

lemma oc_bound: "oc n \<le> 65535"
proof -
  have "(n - 1) mod 65535 < 65535" by (rule mod_less_divisor) simp
  then show ?thesis unfolding oc_def by (cases "n = 0") simp_all
qed

lemma oc_mod: "oc n mod 65535 = n mod 65535"
proof (cases n)
  case (Suc m)
  then show ?thesis by (simp add: oc_def mod_Suc_eq)
qed simp

text \<open>A number is determined by its residue, its bound and whether it is 0.\<close>

lemma oc_unique:
  assumes "m \<le> 65535" "m mod 65535 = n mod 65535" "m = 0 \<longleftrightarrow> n = 0"
  shows "m = oc n"
proof (cases "n = 0")
  case False
  have "oc n \<noteq> 0" "m \<noteq> 0" using False assms(3) by simp_all
  moreover have "oc n mod 65535 = m mod 65535" using assms(2) by (simp add: oc_mod)
  ultimately show ?thesis using assms(1) oc_bound [of n]
    by (cases "m = 65535"; cases "oc n = 65535") auto
qed (use assms in simp)

lemma oc_cong: "m mod 65535 = n mod 65535 \<Longrightarrow> (m = 0 \<longleftrightarrow> n = 0) \<Longrightarrow> oc m = oc n"
  by (rule oc_unique) (simp_all add: oc_bound oc_mod)

lemma oc_id: "m \<le> 65535 \<Longrightarrow> oc m = m"
  by (rule sym, rule oc_unique) simp_all

lemma oc_add: "oc (oc m + n) = oc (m + n)"
  by (rule oc_cong) (metis mod_add_left_eq oc_mod, simp)

lemma oc_mult: "oc (256 * oc n) = oc (256 * n)"
  by (rule oc_cong) (metis mod_mult_right_eq oc_mod, simp)

lemma fold_acc_oc: "unat (fold_acc acc) = oc (unat acc)"
proof (induction acc rule: fold_acc.induct)
  case (1 acc)
  let ?n = "unat acc"
  show ?case
  proof (cases "drop_bit 16 acc = 0")
    case True
    then have "unat (drop_bit 16 acc) = 0" by simp
    then have "?n div 65536 = 0" by (simp only: shr16)
    then have "?n \<le> 65535" by (simp add: div_eq_0_iff)
    then show ?thesis using True by (simp add: fold_acc.simps [of acc] oc_id)
  next
    case False
    have n: "?n = ?n mod 65536 + 65536 * (?n div 65536)" by simp
    have "(?n mod 65536 + ?n div 65536) mod 65535 = (?n mod 65536 + ?n div 65536 + 65535 * (?n div 65536)) mod 65535" by (rule mod_mult_self2 [symmetric])
    also have "?n mod 65536 + ?n div 65536 + 65535 * (?n div 65536) = ?n" using n by linarith
    finally have m: "(?n mod 65536 + ?n div 65536) mod 65535 = ?n mod 65535" .
    have z: "?n mod 65536 + ?n div 65536 = 0 \<longleftrightarrow> ?n = 0" using n by fastforce
    have "fold_acc acc = fold_acc ((acc AND 0xffff) + drop_bit 16 acc)" using False by (simp add: fold_acc.simps [of acc])
    then have "unat (fold_acc acc) = oc (?n mod 65536 + ?n div 65536)" using 1 [OF False] by (simp only: fold_step)
    then show ?thesis using oc_cong [OF m z] by simp
  qed
qed

text \<open>Swapping the bytes of a sum multiplies it by 256.\<close>

lemma swap_acc_unat:
  assumes "unat acc \<le> 65535"
  shows "unat (swap_acc acc) = unat acc mod 256 * 256 + unat acc div 256"
proof -
  have c: "(0xff :: 32 word) = mask 8" "(0xff00 :: 32 word) = push_bit 8 (mask 8)" by (simp_all add: mask_eq_exp_minus_1)
  have s: "swap_acc acc = push_bit 8 (take_bit 8 acc) OR take_bit 8 (drop_bit 8 acc)"
    unfolding swap_acc_def c take_bit_eq_mask [symmetric] by (rule bit_word_eqI) (auto simp: bit_simps)
  also have "\<dots> = push_bit 8 (take_bit 8 acc) + take_bit 8 (drop_bit 8 acc)"
    by (rule disjunctive_add [symmetric]) (auto simp: bit_simps)
  finally have s: "swap_acc acc = push_bit 8 (take_bit 8 acc) + take_bit 8 (drop_bit 8 acc)" .
  have t: "unat (take_bit 8 acc) = unat acc mod 256" unfolding unsigned_take_bit_eq by (simp add: take_bit_eq_mod)
  have "unat (push_bit 8 (take_bit 8 acc)) = take_bit 32 (push_bit 8 (unat (take_bit 8 acc)))"
    unfolding unsigned_push_bit_eq by simp
  also have "push_bit 8 (unat (take_bit 8 acc)) = unat acc mod 256 * 256" unfolding t by (simp add: push_bit_eq_mult)
  also have "take_bit 32 (unat acc mod 256 * 256) = unat acc mod 256 * 256"
    using mod_less_divisor [of 256 "unat acc"] by (intro take_bit_nat_eq_self) simp
  finally have p: "unat (push_bit 8 (take_bit 8 acc)) = unat acc mod 256 * 256" .
  have "unat (take_bit 8 (drop_bit 8 acc)) = unat acc div 256 mod 256"
    unfolding unsigned_take_bit_eq unat_drop_bit_eq by (simp add: take_bit_eq_mod drop_bit_eq_div)
  then have d: "unat (take_bit 8 (drop_bit 8 acc)) = unat acc div 256" using assms by simp
  have "unat acc mod 256 * 256 + unat acc div 256 < 4294967296" using assms mod_less_divisor [of 256 "unat acc"] by linarith
  then show ?thesis unfolding s unat_word_ariths p d by simp
qed

lemma swap_acc_oc:
  assumes "unat acc = oc n"
  shows "unat (swap_acc acc) = oc (256 * n)"
proof -
  let ?m = "unat acc"
  have b: "?m \<le> 65535" using assms oc_bound by simp
  have m: "?m = ?m mod 256 + 256 * (?m div 256)" by simp
  have d: "?m div 256 \<le> 255" using b by simp
  have "(?m mod 256 * 256 + ?m div 256) mod 65535 = (?m mod 256 * 256 + ?m div 256 + 65535 * (?m div 256)) mod 65535" by (rule mod_mult_self2 [symmetric])
  also have "?m mod 256 * 256 + ?m div 256 + 65535 * (?m div 256) = 256 * ?m" using m by linarith
  finally have "(?m mod 256 * 256 + ?m div 256) mod 65535 = (256 * ?m) mod 65535" .
  moreover have "?m mod 256 * 256 + ?m div 256 \<le> 65535" using d mod_less_divisor [of 256 ?m] by linarith
  moreover have "?m mod 256 * 256 + ?m div 256 = 0 \<longleftrightarrow> 256 * ?m = 0" using m by linarith
  ultimately have "?m mod 256 * 256 + ?m div 256 = oc (256 * ?m)" by (intro oc_unique) auto
  then show ?thesis using swap_acc_unat [OF b] assms by (simp add: oc_mult)
qed

section \<open>Sums of bytes\<close>

lemma byte_bound: "unat (a :: 8 word) < 256" "unat (a :: 8 word) \<le> 255"
proof -
  have "unat a < 2 ^ LENGTH(8)" by (rule unsigned_less)
  then show "unat a < 256" "unat a \<le> 255" by simp_all
qed

lemma half_bound: "unat (h :: 16 word) < 65536" "unat (h :: 16 word) \<le> 65535"
proof -
  have "unat h < 2 ^ LENGTH(16)" by (rule unsigned_less)
  then show "unat h < 65536" "unat h \<le> 65535" by simp_all
qed

lemma ucast_unat [simp]: "unat (ucast (a :: 8 word) :: 16 word) = unat a" "unat (ucast (h :: 16 word) :: 32 word) = unat h"
proof -
  have "unat a < 2 ^ 16" "unat h < 2 ^ 32" using byte_bound(1) [of a] half_bound(1) [of h] by simp_all
  then have "take_bit 16 (unat a) = unat a" "take_bit 32 (unat h) = unat h" by (simp_all only: take_bit_nat_eq_self)
  then show "unat (ucast a :: 16 word) = unat a" "unat (ucast h :: 32 word) = unat h" by (simp_all add: unsigned_ucast_eq)
qed

lemma htons_unat: "unat (htons n) = unat n mod 256 * 256 + unat n div 256"
proof -
  have c: "(0xff :: 16 word) = mask 8" "(0xff00 :: 16 word) = push_bit 8 (mask 8)" by (simp_all add: mask_eq_exp_minus_1)
  have s: "htons n = push_bit 8 (take_bit 8 n) OR take_bit 8 (drop_bit 8 n)"
    unfolding htons_def c take_bit_eq_mask [symmetric] by (rule bit_word_eqI) (auto simp: bit_simps)
  also have "\<dots> = push_bit 8 (take_bit 8 n) + take_bit 8 (drop_bit 8 n)"
    by (rule disjunctive_add [symmetric]) (auto simp: bit_simps)
  finally have s: "htons n = push_bit 8 (take_bit 8 n) + take_bit 8 (drop_bit 8 n)" .
  have b: "unat n < 65536" by (rule half_bound)
  have t: "unat (take_bit 8 n) = unat n mod 256" unfolding unsigned_take_bit_eq by (simp add: take_bit_eq_mod)
  have "unat (push_bit 8 (take_bit 8 n)) = take_bit 16 (push_bit 8 (unat (take_bit 8 n)))"
    unfolding unsigned_push_bit_eq by simp
  also have "push_bit 8 (unat (take_bit 8 n)) = unat n mod 256 * 256" unfolding t by (simp add: push_bit_eq_mult)
  also have "take_bit 16 (unat n mod 256 * 256) = unat n mod 256 * 256"
    using mod_less_divisor [of 256 "unat n"] by (intro take_bit_nat_eq_self) simp
  finally have p: "unat (push_bit 8 (take_bit 8 n)) = unat n mod 256 * 256" .
  have "unat (take_bit 8 (drop_bit 8 n)) = unat n div 256 mod 256"
    unfolding unsigned_take_bit_eq unat_drop_bit_eq by (simp add: take_bit_eq_mod drop_bit_eq_div)
  then have d: "unat (take_bit 8 (drop_bit 8 n)) = unat n div 256" using b by simp
  have "unat n mod 256 * 256 + unat n div 256 < 65536" using b mod_less_divisor [of 256 "unat n"] by linarith
  then show ?thesis unfolding s unat_word_ariths p d by simp
qed

lemma push8_unat: "unat (push_bit 8 (ucast (a :: 8 word)) :: 16 word) = 256 * unat a"
proof -
  have "unat (push_bit 8 (ucast a) :: 16 word) = take_bit 16 (push_bit 8 (unat (ucast a :: 16 word)))"
    unfolding unsigned_push_bit_eq by simp
  also have "push_bit 8 (unat (ucast a :: 16 word)) = 256 * unat a" by (simp add: push_bit_eq_mult)
  also have "take_bit 16 (256 * unat a) = 256 * unat a" using byte_bound(1) [of a] by (intro take_bit_nat_eq_self) simp
  finally show ?thesis .
qed

lemma le16_unat: "unat (le16 a b) = unat a + 256 * unat b"
proof -
  have "le16 a b = ucast a + push_bit 8 (ucast b)" unfolding le16_def
    by (rule disjunctive_add [symmetric]) (auto simp: bit_simps dest: bit_imp_le_length)
  moreover have "unat a + 256 * unat b < 65536" using byte_bound(2) [of a] byte_bound(2) [of b] by linarith
  ultimately show ?thesis by (simp add: unat_word_ariths push8_unat)
qed

lemma odd_byte: "unat (htons (push_bit 8 (ucast (a :: 8 word) AND 0xff))) = unat a"
proof -
  have c: "(0xff :: 16 word) = mask 8" by (simp add: mask_eq_exp_minus_1)
  have "(ucast a AND 0xff :: 16 word) = ucast a" unfolding c
    by (rule bit_word_eqI) (auto simp: bit_simps dest: bit_imp_le_length)
  then show ?thesis by (simp add: htons_unat push8_unat)
qed

lemma chksum_loop_unat: "unat acc + sum16 xs < 4294967296 \<Longrightarrow> unat (chksum_loop xs acc) = unat acc + sum16 xs"
  by (induction xs acc rule: chksum_loop.induct) (simp_all add: unat_word_ariths le16_unat odd_byte [simplified])

lemma sum16_bound: "2 * sum16 xs \<le> 65535 * (length xs + 1)"
proof (induction xs rule: sum16.induct)
  case (1 a b xs)
  then show ?case using byte_bound(2) [of a] byte_bound(2) [of b] by simp
next
  case (2 a)
  then show ?case using byte_bound(2) [of a] by simp
qed simp

lemma chksum_unat:
  assumes "length xs < 65536"
  shows "unat (chksum xs) = sum16 xs" "sum16 xs \<le> 2147483648"
proof -
  show b: "sum16 xs \<le> 2147483648" using order_trans [OF sum16_bound [of xs], of "65535 * 65536"] assms by simp
  then show "unat (chksum xs) = sum16 xs" using chksum_loop_unat [of 0 xs] by (simp add: chksum_def)
qed

text \<open>The sum of a concatenation.\<close>

lemma sum16_even: "even (length xs) \<Longrightarrow> sum16 (xs @ ys) = sum16 xs + sum16 ys"
  by (induction xs rule: sum16.induct) simp_all

lemma sum16_Cons: "\<exists>k. unat a + 256 * sum16 xs = sum16 (a # xs) + 65535 * k"
proof (induction xs arbitrary: a rule: sum16.induct)
  case (1 b c xs)
  obtain k where "unat c + 256 * sum16 xs = sum16 (c # xs) + 65535 * k" using 1 [of c] by blast
  then have "unat a + 256 * sum16 (b # c # xs) = sum16 (a # b # c # xs) + 65535 * (k + unat c)" by simp
  then show ?case by blast
qed auto

lemma sum16_odd: "odd (length xs) \<Longrightarrow> \<exists>k. sum16 xs + 256 * sum16 ys = sum16 (xs @ ys) + 65535 * k"
proof (induction xs rule: sum16.induct)
  case (1 a b xs)
  then obtain k where "sum16 xs + 256 * sum16 ys = sum16 (xs @ ys) + 65535 * k" by auto
  then have "sum16 (a # b # xs) + 256 * sum16 ys = sum16 ((a # b # xs) @ ys) + 65535 * k" by simp
  then show ?case by blast
qed (use sum16_Cons in auto)

lemma sum16_zero: "sum16 xs = 0 \<longleftrightarrow> (\<forall>a \<in> set xs. a = 0)"
  by (induction xs rule: sum16.induct) (auto simp: unat_eq_zero)

text \<open>The loop over the chain: the sum of the data so far, shifted by a byte after an odd number of bytes.\<close>

definition oc_scale :: "bool \<Rightarrow> nat \<Rightarrow> nat" where
  "oc_scale b n = (if b then 256 * n else n)"

lemma oc_scale_swap: "oc (256 * oc_scale b n) = oc (oc_scale (\<not> b) n)"
proof (cases b)
  case True
  have "(n + 65535 * n) mod 65535 = n mod 65535" by (rule mod_mult_self2)
  then have "oc (n + 65535 * n) = oc n" by (rule oc_cong) simp
  then show ?thesis using True by (simp add: oc_scale_def)
qed (simp add: oc_scale_def)

lemma oc_scale_append:
  assumes "b = odd (length d)"
  shows "oc (oc_scale b (sum16 d) + sum16 q) = oc (oc_scale b (sum16 (d @ q)))"
proof (cases b)
  case False
  then show ?thesis using assms by (simp add: oc_scale_def sum16_even)
next
  case True
  then obtain k where k: "sum16 d + 256 * sum16 q = sum16 (d @ q) + 65535 * k" using sum16_odd assms by blast
  have "256 * sum16 (d @ q) + 65535 * (256 * k) = 256 * sum16 d + sum16 q + 65535 * sum16 q" using k by linarith
  then have "(256 * sum16 (d @ q)) mod 65535 = (256 * sum16 d + sum16 q) mod 65535" by (metis mod_mult_self2)
  moreover have "256 * sum16 (d @ q) = 0 \<longleftrightarrow> 256 * sum16 d + sum16 q = 0" by (auto simp: sum16_zero)
  ultimately show ?thesis using True by (auto simp: oc_scale_def intro!: oc_cong)
qed

lemma add_chksum_oc:
  assumes "unat acc \<le> 65535" "length q < 65536"
  shows "unat (fold_acc (acc + chksum q)) = oc (unat acc + sum16 q)"
  using assms chksum_unat [OF assms(2)] by (simp add: fold_acc_oc unat_word_ariths)

lemma pbuf_loop_oc:
  assumes "unat acc = oc (oc_scale b (sum16 d))" "b = odd (length d)" "\<forall>q \<in> set p. length q < 65536"
  shows "\<exists>acc'. pbuf_loop p acc b = (acc', odd (length (d @ concat p))) \<and>
     unat acc' = oc (oc_scale (odd (length (d @ concat p))) (sum16 (d @ concat p)))"
  using assms
proof (induction p arbitrary: acc b d)
  case (Cons q p)
  let ?acc = "fold_acc (acc + chksum q)"
  have "unat acc \<le> 65535" using Cons.prems(1) oc_bound by simp
  then have a: "unat ?acc = oc (oc_scale b (sum16 (d @ q)))"
    using add_chksum_oc [of acc q] Cons.prems(1,3) oc_scale_append [OF Cons.prems(2), of q] by (simp add: oc_add)
  show ?case
  proof (cases "odd (length q)")
    case True
    have "unat (swap_acc ?acc) = oc (oc_scale (\<not> b) (sum16 (d @ q)))" using swap_acc_oc [OF a] by (simp add: oc_scale_swap)
    then have "\<exists>acc'. pbuf_loop p (swap_acc ?acc) (\<not> b) = (acc', odd (length ((d @ q) @ concat p))) \<and>
       unat acc' = oc (oc_scale (odd (length ((d @ q) @ concat p))) (sum16 ((d @ q) @ concat p)))"
      using Cons.prems(2,3) True by (intro Cons.IH) auto
    moreover have "pbuf_loop (q # p) acc b = pbuf_loop p (swap_acc ?acc) (\<not> b)" using True by (simp add: Let_def odd_iff_mod_2_eq_one)
    ultimately show ?thesis by (simp only: concat.simps append_assoc)
  next
    case False
    then have "\<exists>acc'. pbuf_loop p ?acc b = (acc', odd (length ((d @ q) @ concat p))) \<and>
       unat acc' = oc (oc_scale (odd (length ((d @ q) @ concat p))) (sum16 ((d @ q) @ concat p)))"
      using Cons.prems(2,3) a by (intro Cons.IH) auto
    moreover have "pbuf_loop (q # p) acc b = pbuf_loop p ?acc b" using False by (simp add: Let_def even_iff_mod_2_eq_zero)
    ultimately show ?thesis by (simp only: concat.simps append_assoc)
  qed
qed simp

lemma chain_sum:
  assumes "\<forall>q \<in> set p. length q < 65536" "pbuf_loop p 0 False = (acc, swapped)"
  shows "unat (if swapped then swap_acc acc else acc) = oc (sum16 (concat p))"
proof -
  have "\<exists>acc'. pbuf_loop p 0 False = (acc', odd (length ([] @ concat p))) \<and>
     unat acc' = oc (oc_scale (odd (length ([] @ concat p))) (sum16 ([] @ concat p)))"
    by (rule pbuf_loop_oc) (use assms(1) in \<open>simp_all add: oc_scale_def\<close>)
  then have s: "swapped = odd (length (concat p))" "unat acc = oc (oc_scale swapped (sum16 (concat p)))" using assms(2) by auto
  show ?thesis using swap_acc_oc [OF s(2)] s(2) oc_scale_swap [of True "sum16 (concat p)"]
    by (cases swapped) (simp_all add: oc_scale_def)
qed

end
