(* ===== verification/Inet_Props.thy ===== *)
theory Inet_Props
  imports Inet_Chksum
begin

text \<open>
  Properties of the Internet checksum: the functions compute the checksum of RFC 1071, whatever the
  fragmentation of the data into buffers is, and a receiver accepts what a sender computed.
\<close>

section \<open>The reference\<close>

definition rfc1071 :: "bytes \<Rightarrow> 16 word" where
  "rfc1071 data = word_of_nat (65535 - oc (sum16 data))"

text \<open>The bytes of words in memory and in network order, and the pseudo header of RFC 8200.\<close>

definition word_bytes :: "32 word \<Rightarrow> bytes" where
  "word_bytes w = [ucast w, ucast (drop_bit 8 w), ucast (drop_bit 16 w), ucast (drop_bit 24 w)]"

definition addr_bytes :: "ip_addr \<Rightarrow> bytes" where
  "addr_bytes a = word_bytes (addr0 a) @ word_bytes (addr1 a) @ word_bytes (addr2 a) @ word_bytes (addr3 a)"

definition pseudo_header :: "ip_addr \<Rightarrow> ip_addr \<Rightarrow> 8 word \<Rightarrow> 32 word \<Rightarrow> bytes" where
  "pseudo_header src dest proto len =
     (if ip_addr_is_v4comp src then word_bytes (addr3 src) @ word_bytes (addr3 dest) else addr_bytes src @ addr_bytes dest) @
     rev (word_bytes len) @ [0, 0, 0, proto]"

section \<open>Words and their bytes\<close>

lemma byte_of_word: "unat (ucast (w :: 32 word) :: 8 word) = unat w mod 256"
  by (simp add: unsigned_ucast_eq take_bit_eq_mod)

lemma half_of_word: "unat (ucast (w :: 32 word) :: 16 word) = unat w mod 65536"
  by (simp add: unsigned_ucast_eq take_bit_eq_mod)

lemma shift_unat: "unat (drop_bit n (w :: 32 word)) = unat w div 2 ^ n"
  unfolding unat_drop_bit_eq by (simp add: drop_bit_eq_div)

lemma split_half: "(n :: nat) mod 65536 = n mod 256 + 256 * (n div 256 mod 256)"
  using mod_mult2_eq [of n 256 256] by simp

lemma word_bytes_sum:
  "sum16 (word_bytes w) = unat w mod 65536 + unat w div 65536 mod 65536"
  "sum16 (rev (word_bytes w)) = unat (htons (ucast w)) + unat (htons (ucast (drop_bit 16 w)))"
proof -
  let ?n = "unat w"
  have d: "?n div 2 ^ 16 = ?n div 65536" "?n div 2 ^ 24 = ?n div 65536 div 256" "?n div 2 ^ 8 = ?n div 256"
    by (simp_all add: div_mult2_eq [symmetric])
  have b: "unat (ucast w :: 8 word) = ?n mod 256" "unat (ucast (drop_bit 8 w) :: 8 word) = ?n div 256 mod 256"
     "unat (ucast (drop_bit 16 w) :: 8 word) = ?n div 65536 mod 256" "unat (ucast (drop_bit 24 w) :: 8 word) = ?n div 65536 div 256 mod 256"
    unfolding byte_of_word shift_unat d by simp_all
  show "sum16 (word_bytes w) = ?n mod 65536 + ?n div 65536 mod 65536"
    unfolding word_bytes_def sum16.simps b split_half by simp
  have h: "unat (htons (ucast w)) = ?n mod 256 * 256 + ?n div 256 mod 256"
    unfolding htons_unat half_of_word split_half by simp
  have h2: "unat (htons (ucast (drop_bit 16 w))) = ?n div 65536 mod 256 * 256 + ?n div 65536 div 256 mod 256"
    unfolding htons_unat half_of_word shift_unat d split_half by simp
  show "sum16 (rev (word_bytes w)) = unat (htons (ucast w)) + unat (htons (ucast (drop_bit 16 w)))"
    unfolding word_bytes_def h h2 by (simp add: b)
qed

lemma and_half: "(ucast (h :: 16 word) AND 0xffff :: 32 word) = ucast h"
proof -
  have c: "(0xffff :: 32 word) = mask 16" by (simp add: mask_eq_exp_minus_1)
  show ?thesis unfolding c by (rule bit_word_eqI) (auto simp: bit_simps dest: bit_imp_le_length)
qed

lemma addr_loop_oc:
  assumes "unat acc = oc n"
  shows "unat (addr_loop src dest is acc) = oc (n + (\<Sum>i\<leftarrow>is. unat (addr_half src i) + unat (addr_half dest i)))"
  using assms
proof (induction "is" arbitrary: acc n)
  case (Cons i "is")
  let ?a = "unat (addr_half src i)" and ?b = "unat (addr_half dest i)"
  let ?acc = "acc + (ucast (addr_half src i) AND 0xffff) + (ucast (addr_half dest i) AND 0xffff) :: 32 word"
  have "unat ?acc = oc n + (?a + ?b)" unfolding and_half
    using oc_bound [of n] half_bound(2) [of "addr_half src i"] half_bound(2) [of "addr_half dest i"] Cons.prems
    by (simp add: unat_word_ariths)
  then have "unat (fold_acc ?acc) = oc (n + (?a + ?b))" by (simp add: fold_acc_oc oc_add)
  from Cons.IH [OF this] show ?case by (simp add: add.assoc)
qed simp

lemma addr_half_word:
  assumes "j < 4"
  shows "unat (addr_half a (2 * j)) + unat (addr_half a (2 * j + 1)) = sum16 (word_bytes ([addr0 a, addr1 a, addr2 a, addr3 a] ! j))"
  unfolding word_bytes_sum addr_half_def Let_def by (simp add: half_of_word shift_unat)

lemma even_word_bytes [simp]: "length (word_bytes w) = 4"
  by (simp add: word_bytes_def)

lemma addr_bytes_sum:
  "sum16 (addr_bytes a) = sum16 (word_bytes (addr0 a)) + sum16 (word_bytes (addr1 a)) + sum16 (word_bytes (addr2 a)) + sum16 (word_bytes (addr3 a))"
  by (simp add: addr_bytes_def sum16_even)

lemma addr_sum:
  "(\<Sum>i\<leftarrow>[6..<8]. unat (addr_half a i) + unat (addr_half b i)) = sum16 (word_bytes (addr3 a)) + sum16 (word_bytes (addr3 b))"
  "(\<Sum>i\<leftarrow>[0..<8]. unat (addr_half a i) + unat (addr_half b i)) = sum16 (addr_bytes a) + sum16 (addr_bytes b)"
proof -
  note h = addr_half_word [of 0] addr_half_word [of 1] addr_half_word [of 2] addr_half_word [of 3]
  show "(\<Sum>i\<leftarrow>[6..<8]. unat (addr_half a i) + unat (addr_half b i)) = sum16 (word_bytes (addr3 a)) + sum16 (word_bytes (addr3 b))"
    using h(4) [of a] h(4) [of b] by (simp add: upt_rec numeral_eq_Suc)
  show "(\<Sum>i\<leftarrow>[0..<8]. unat (addr_half a i) + unat (addr_half b i)) = sum16 (addr_bytes a) + sum16 (addr_bytes b)"
    using h(1) [of a] h(1) [of b] h(2) [of a] h(2) [of b] h(3) [of a] h(3) [of b] h(4) [of a] h(4) [of b]
    by (simp add: upt_rec numeral_eq_Suc addr_bytes_sum)
qed

lemma not_half:
  fixes acc :: "32 word"
  assumes "unat acc \<le> 65535"
  shows "ucast (NOT (acc AND 0xffff)) = (word_of_nat (65535 - unat acc) :: 16 word)"
proof -
  have n: "unat acc mod 65536 = unat acc" using assms by simp
  have 1: "acc AND 0xffff = acc" by (rule word_unat_eq_iff [THEN iffD2]) (simp only: and_ffff n)
  have 2: "ucast (NOT acc) = (NOT (ucast acc) :: 16 word)" by (rule bit_word_eqI) (simp add: bit_simps)
  have 3: "ucast acc = (word_of_nat (unat acc) :: 16 word)" by simp
  have "NOT (word_of_nat (unat acc)) = - 1 - (word_of_nat (unat acc) :: 16 word)" by (simp only: not_eq_complement) simp
  also have "(- 1 :: 16 word) = word_of_nat 65535" by simp
  also have "word_of_nat 65535 - word_of_nat (unat acc) = (word_of_nat (65535 - unat acc) :: 16 word)"
    by (rule of_nat_diff [OF assms, symmetric])
  finally show ?thesis unfolding 1 2 3 .
qed

lemma chksum_spec: "unat (acc :: 32 word) = oc (sum16 data) \<Longrightarrow> ucast (NOT (acc AND 0xffff)) = rfc1071 data"
  using not_half [of acc] oc_bound [of "sum16 data"] by (simp add: rfc1071_def)

lemma rfc_unat: "unat (rfc1071 data) = 65535 - oc (sum16 data)"
proof -
  have "65535 - oc (sum16 data) < 2 ^ LENGTH(16)" by simp
  then show ?thesis unfolding rfc1071_def unsigned_of_nat of_nat_id by (rule take_bit_nat_eq_self)
qed

section \<open>The checksum over a piece of memory\<close>

lemma inet_chksum_rfc:
  assumes "length data < 65536"
  shows "inet_chksum data = rfc1071 data"
proof -
  define acc where "acc = chksum data"
  define s1 where "s1 = (acc AND 0xffff) + drop_bit 16 acc"
  define s2 where "s2 = s1 + drop_bit 16 s1"
  have n: "unat acc = sum16 data" using chksum_unat [OF assms] by (simp add: acc_def)
  let ?n = "unat acc"
  have s1: "unat s1 = ?n mod 65536 + ?n div 65536" unfolding s1_def by (rule fold_step)
  have b: "unat s1 \<le> 131070" using s1 unsigned_less [of acc, where 'a = nat] by simp
  have "unat s2 = unat s1 + unat s1 div 65536" unfolding s2_def using b by (simp add: unat_word_ariths shr16)
  moreover have "oc ?n = oc (unat s1)"
  proof (rule oc_cong)
    have "(?n mod 65536 + ?n div 65536 + 65535 * (?n div 65536)) mod 65535 = (?n mod 65536 + ?n div 65536) mod 65535" by (rule mod_mult_self2)
    moreover have "?n mod 65536 + ?n div 65536 + 65535 * (?n div 65536) = ?n" by (simp add: mod_div_decomp)
    ultimately show "?n mod 65535 = unat s1 mod 65535" using s1 by simp
    show "?n = 0 \<longleftrightarrow> unat s1 = 0" using s1 by fastforce
  qed
  moreover have "(unat s1 + unat s1 div 65536) mod 65536 = oc (unat s1)"
  proof (cases "unat s1 \<le> 65535")
    case True
    then show ?thesis by (simp add: oc_id)
  next
    case False
    then have "unat s1 div 65536 = 1" using b by simp
    moreover obtain m where m: "unat s1 = m + 65535" "0 < m" "m \<le> 65535"
      using False b by (intro that [of "unat s1 - 65535"]) simp_all
    moreover have "(m + 65535 + 1) mod 65536 = m" using m(3) by (simp add: mod_if)
    moreover have "m = oc (m + 65535)" by (rule oc_unique) (use m in simp_all)
    ultimately show ?thesis by simp
  qed
  ultimately have "unat (s2 AND 0xffff) = oc (sum16 data)" using n by (simp add: and_ffff)
  then have "ucast (NOT ((s2 AND 0xffff) AND 0xffff)) = rfc1071 data" by (rule chksum_spec)
  then show ?thesis by (simp add: inet_chksum_def Let_def acc_def s1_def s2_def and.assoc)
qed

section \<open>The checksum over a chain without a pseudo header\<close>

lemma keep_halves: "unat acc \<le> 65535 \<Longrightarrow> (acc AND push_bit 8 0xff) OR (acc AND drop_bit 8 0xff00) = (acc :: 32 word)"
proof -
  assume b: "unat acc \<le> 65535"
  then have n: "unat acc mod 65536 = unat acc" by simp
  have "(acc AND push_bit 8 0xff) OR (acc AND drop_bit 8 0xff00) = acc AND 0xffff"
    unfolding bit.conj_disj_distrib [symmetric] by simp
  also have "\<dots> = acc" by (rule word_unat_eq_iff [THEN iffD2]) (simp only: and_ffff n)
  finally show ?thesis .
qed

lemma swap_complement: "m \<le> 65535 \<Longrightarrow> 65535 - (m mod 256 * 256 + m div 256) = (65535 - m) mod 256 * 256 + (65535 - m) div (256 :: nat)"
proof -
  assume m: "m \<le> 65535"
  define a b where "a = m div 256" and "b = m mod 256"
  have ab: "m = a * 256 + b" "b < 256" "a < 256" using m by (auto simp: a_def b_def)
  have "65535 - m = (255 - a) * 256 + (255 - b)" using ab by (simp add: algebra_simps)
  moreover define c d where "c = 255 - a" and "d = 255 - b"
  ultimately have cd: "65535 - m = c * 256 + d" "d < 256" by simp_all
  then have "(65535 - m) div 256 = c" "(65535 - m) mod 256 = d" by simp_all
  moreover have "65535 - (b * 256 + a) = d * 256 + c" using ab c_def d_def by (simp add: algebra_simps)
  ultimately show ?thesis by (simp add: a_def b_def)
qed

section \<open>Properties\<close>

definition ex_src :: ip_addr where "ex_src = IP64_ADDR 10 0 0 1"
definition ex_dest :: ip_addr where "ex_dest = IP64_ADDR 10 0 0 2"

text \<open>
  C16: The checksum of UDP, TCP and ICMPv6 over a chain of buffers is the checksum of RFC 1071 over
  the pseudo header followed by the concatenation of the payloads: it does not depend on how the
  data is split into buffers, even at odd offsets, and no sum overflows.
\<close>

theorem chksum_pseudo_rfc:
  assumes "\<forall>q \<in> set p. length q < 65536"
  shows "inet6_chksum_pseudo p src dest proto len = rfc1071 (pseudo_header src dest proto len @ concat p)"
proof -
  obtain a sw where pl: "pbuf_loop p 0 False = (a, sw)" by fastforce
  define acc0 where "acc0 = (if sw then swap_acc a else a)"
  define ixs where "ixs = [(if ip_addr_is_v4comp src then 6 else 0)..<8 :: nat]"
  define acc1 where "acc1 = addr_loop src dest ixs acc0"
  define S where "S = (\<Sum>i\<leftarrow>ixs. unat (addr_half src i) + unat (addr_half dest i))"
  define acc2 where "acc2 = acc1 + ucast (htons (ucast proto)) + (ucast (htons (ucast len)) AND 0xffff) + (ucast (htons (ucast (drop_bit 16 len))) AND 0xffff)"
  have 0: "unat acc0 = oc (sum16 (concat p))" unfolding acc0_def by (rule chain_sum [OF assms pl])
  have 1: "unat acc1 = oc (sum16 (concat p) + S)" unfolding acc1_def S_def by (rule addr_loop_oc [OF 0])
  let ?L = "unat (htons (ucast len)) + unat (htons (ucast (drop_bit 16 len)))" and ?P = "256 * unat proto"
  have pr: "unat (htons (ucast proto)) = ?P" using byte_bound(1) [of proto] by (simp add: htons_unat)
  have "unat acc2 = unat acc1 + (?P + ?L)" unfolding acc2_def and_half
    using 1 oc_bound [of "sum16 (concat p) + S"] byte_bound(2) [of proto] half_bound(2) [of "htons (ucast len)"]
       half_bound(2) [of "htons (ucast (drop_bit 16 len))"]
    by (simp add: unat_word_ariths pr)
  then have 2: "unat (fold_acc acc2) = oc (sum16 (concat p) + S + (?P + ?L))" using 1 by (simp add: fold_acc_oc oc_add)
  have "S = sum16 (if ip_addr_is_v4comp src then word_bytes (addr3 src) @ word_bytes (addr3 dest) else addr_bytes src @ addr_bytes dest)"
    unfolding S_def ixs_def using addr_sum [of src dest] by (simp add: sum16_even addr_bytes_def)
  moreover have "sum16 ([0, 0, 0, proto] @ concat p) = ?P + sum16 (concat p)" by simp
  ultimately have "sum16 (pseudo_header src dest proto len @ concat p) = S + (?L + (?P + sum16 (concat p)))"
    unfolding pseudo_header_def word_bytes_sum(2) [symmetric] append_assoc
    by (subst sum16_even, simp add: addr_bytes_def, subst sum16_even, simp, simp)
  then have "unat (fold_acc acc2) = oc (sum16 (pseudo_header src dest proto len @ concat p))" using 2 by (simp add: ac_simps)
  then have "ucast (NOT (fold_acc acc2 AND 0xffff)) = rfc1071 (pseudo_header src dest proto len @ concat p)" by (rule chksum_spec)
  then show ?thesis by (simp add: inet6_chksum_pseudo_def pl Let_def acc2_def acc1_def ixs_def acc0_def)
qed

theorem chksum_pseudo_rfc_witness:
  "inet6_chksum_pseudo [[1], [2, 3], [4]] ex_src ex_dest 17 4 = inet6_chksum_pseudo [[1, 2, 3, 4]] ex_src ex_dest 17 4"
  using chksum_pseudo_rfc [of "[[1], [2, 3], [4]]"] chksum_pseudo_rfc [of "[[1, 2, 3, 4]]"] by simp

text \<open>
  C35: A header into which the sender has stored the checksum computed over it with the field set to
  0 has the checksum 0, which is what the receiver tests.
\<close>

theorem chksum_verifies:
  assumes "even (length xs)" "length xs + 2 + length ys < 65536"
  shows "let c = inet_chksum (xs @ [0, 0] @ ys) in inet_chksum (xs @ [ucast c, ucast (drop_bit 8 c)] @ ys) = 0"
proof -
  define c where "c = inet_chksum (xs @ [0, 0] @ ys)"
  define n where "n = sum16 (xs @ [0, 0] @ ys)"
  have c: "unat c = 65535 - oc n" using assms(2) by (simp add: c_def inet_chksum_rfc rfc_unat n_def)
  have "unat (ucast c :: 8 word) + 256 * unat (ucast (drop_bit 8 c) :: 8 word) = unat c"
  proof -
    have "unat (ucast c :: 8 word) = unat c mod 256" by (simp add: unsigned_ucast_eq take_bit_eq_mod)
    moreover have "unat (ucast (drop_bit 8 c) :: 8 word) = unat c div 256 mod 256"
      unfolding unsigned_ucast_eq unat_drop_bit_eq by (simp add: take_bit_eq_mod drop_bit_eq_div)
    ultimately show ?thesis using half_bound(1) [of c] by simp
  qed
  then have "sum16 (xs @ [ucast c, ucast (drop_bit 8 c)] @ ys) = n + unat c"
    using assms(1) by (simp add: sum16_even n_def)
  moreover have "oc (n + unat c) = 65535"
  proof (rule oc_unique [symmetric])
    have "(oc n + (65535 - oc n)) mod 65535 = (n + (65535 - oc n)) mod 65535" by (metis mod_add_left_eq oc_mod)
    then show "65535 mod 65535 = (n + unat c) mod 65535" using oc_bound [of n] c by simp
    show "(65535 = (0 :: nat)) = (n + unat c = 0)" using c by (cases "n = 0") simp_all
  qed simp
  ultimately have "inet_chksum (xs @ [ucast c, ucast (drop_bit 8 c)] @ ys) = 0"
    using assms(2) by (simp add: inet_chksum_rfc rfc1071_def)
  then show ?thesis by (simp add: c_def)
qed

theorem chksum_verifies_witness:
  "let c = inet_chksum ([0x45, 0, 0, 20] @ [0, 0] @ [10, 0]) in inet_chksum ([0x45, 0, 0, 20] @ [ucast c, ucast (drop_bit 8 c)] @ [10, 0]) = 0"
  by (rule chksum_verifies) simp_all

text \<open>
  The checksum over a single buffer with an odd number of bytes is wrong: the bytes of the sum
  are not swapped in the loop, since the shifts bind tighter than the conjunctions, and are swapped
  at the end.  The result is the checksum of RFC 1071 with its two bytes exchanged.
\<close>

theorem chksum_pbuf_swapped:
  assumes "odd (length d)" "length d < 65536"
  shows "inet_chksum_pbuf [d] = htons (rfc1071 d)"
proof -
  define acc where "acc = fold_acc (chksum d)"
  have u: "unat acc = oc (sum16 d)" using chksum_unat [OF assms(2)] by (simp add: acc_def fold_acc_oc)
  have b: "unat acc \<le> 65535" using u oc_bound by simp
  have "pbuf_loop2 [d] 0 False = (acc, True)"
    using assms(1) keep_halves [OF b] by (simp add: Let_def acc_def odd_iff_mod_2_eq_one)
  then have r: "inet_chksum_pbuf [d] = ucast (NOT (swap_acc acc AND 0xffff))" by (simp only: inet_chksum_pbuf_def Let_def) simp
  have s: "unat (swap_acc acc) = unat acc mod 256 * 256 + unat acc div 256" by (rule swap_acc_unat [OF b])
  have sb: "unat (swap_acc acc) \<le> 65535" using swap_acc_oc [OF u] oc_bound by simp
  have "65535 - unat (swap_acc acc) < 2 ^ LENGTH(16)" by simp
  then have "unat (inet_chksum_pbuf [d]) = 65535 - unat (swap_acc acc)"
    unfolding r not_half [OF sb] unsigned_of_nat of_nat_id by (rule take_bit_nat_eq_self)
  also have "\<dots> = unat (htons (rfc1071 d))" unfolding s htons_unat rfc_unat u [symmetric] by (rule swap_complement [OF b])
  finally show ?thesis by (rule word_unat_eq_iff [THEN iffD2])
qed

theorem chksum_pbuf_swapped_witness: "inet_chksum_pbuf [[1]] \<noteq> inet_chksum [1]"
proof -
  have "unat (rfc1071 [1]) = 65534" by (simp add: rfc_unat oc_def)
  moreover have "unat (htons (rfc1071 [1])) \<noteq> 65534" using calculation by (simp add: htons_unat)
  ultimately show ?thesis using chksum_pbuf_swapped [of "[1]"] by (auto simp: inet_chksum_rfc)
qed

end
