(* ===== verification/Sys_Timeouts.thy ===== *)
theory Sys_Timeouts
  imports View_Prelude
begin

text \<open>
  The timeouts of the threads of the network stack, \<open>sys.c\<close>: a list ordered by time in which each
  element keeps the milliseconds after its predecessor.  The elements are in a heap; the use of an
  element that has been given back to the allocator is \<open>None\<close>.
\<close>

section \<open>Data\<close>

text \<open>A handler is a number, NULL is \<open>None\<close>.\<close>

record sys_timeout_t =
  to_next :: "addr option"
  to_time :: "32 word"
  to_h :: "nat option"
  to_arg :: nat
  to_raw :: bool

record sys_timeouts =
  ts_mem :: "addr \<rightharpoonup> sys_timeout_t"
  ts_brk :: addr
  ts_next :: "addr option"       \<comment> \<open>\<open>timeouts->next\<close>\<close>

definition SYS_ARCH_TIMEOUT :: "32 word" where
  "SYS_ARCH_TIMEOUT = 0xffffffff"

definition to_upd :: "addr \<Rightarrow> (sys_timeout_t \<Rightarrow> sys_timeout_t) \<Rightarrow> sys_timeouts \<Rightarrow> sys_timeouts option" where
  "to_upd a f s = (case ts_mem s a of None \<Rightarrow> None | Some t \<Rightarrow> Some (s\<lparr>ts_mem := (ts_mem s)(a \<mapsto> f t)\<rparr>))"

definition memp_free :: "addr \<Rightarrow> sys_timeouts \<Rightarrow> sys_timeouts option" where
  "memp_free a s = (case ts_mem s a of None \<Rightarrow> None | Some _ \<Rightarrow> Some (s\<lparr>ts_mem := (ts_mem s)(a := None)\<rparr>))"

section \<open>Arming a timeout\<close>

text \<open>The step of the search for the place: \<open>t\<close> is an element that ends not later than the new one.\<close>

definition link_here :: "addr \<Rightarrow> addr \<Rightarrow> sys_timeouts \<Rightarrow> sys_timeouts option" where
  "link_here timeout t s = do {
     n \<leftarrow> ts_mem s timeout;
     e \<leftarrow> ts_mem s t;
     s \<leftarrow> (case to_next e of None \<Rightarrow> Some s | Some x \<Rightarrow> to_upd x (\<lambda>y. y\<lparr>to_time := to_time y - to_time n\<rparr>) s);
     s \<leftarrow> to_upd timeout (\<lambda>y. y\<lparr>to_next := to_next e\<rparr>) s;
     to_upd t (\<lambda>y. y\<lparr>to_next := Some timeout\<rparr>) s
   }"

text \<open>Whether the element after \<open>t\<close> ends later than the new one, or there is none.\<close>

definition place_found :: "addr \<Rightarrow> sys_timeout_t \<Rightarrow> sys_timeouts \<Rightarrow> bool option" where
  "place_found timeout e s = (case to_next e of None \<Rightarrow> Some True
     | Some x \<Rightarrow> do { y \<leftarrow> ts_mem s x; n \<leftarrow> ts_mem s timeout; Some (to_time y > to_time n) })"

partial_function (option) link_loop :: "addr \<Rightarrow> addr option \<Rightarrow> sys_timeouts \<Rightarrow> sys_timeouts option" where
  "link_loop timeout t s = (case t of None \<Rightarrow> Some s
     | Some a \<Rightarrow> (case ts_mem s a of None \<Rightarrow> None
         | Some e \<Rightarrow> Option.bind (to_upd timeout (\<lambda>n. n\<lparr>to_time := to_time n - to_time e\<rparr>) s) (\<lambda>s.
             Option.bind (place_found timeout e s) (\<lambda>found.
               if found then link_here timeout a s else link_loop timeout (to_next e) s))))"

definition timeout_link :: "addr \<Rightarrow> 32 word \<Rightarrow> sys_timeouts \<Rightarrow> sys_timeouts option" where
  "timeout_link timeout msecs s = (case ts_next s of
       None \<Rightarrow> Some (s\<lparr>ts_next := Some timeout\<rparr>)
     | Some f \<Rightarrow> do {
         e \<leftarrow> ts_mem s f;
         if to_time e > msecs then do {
           s \<leftarrow> to_upd f (\<lambda>y. y\<lparr>to_time := to_time y - msecs\<rparr>) s;
           s \<leftarrow> to_upd timeout (\<lambda>y. y\<lparr>to_next := Some f\<rparr>) s;
           Some (s\<lparr>ts_next := Some timeout\<rparr>)
         }
         else link_loop timeout (Some f) s
       })"

text \<open>\<open>ok\<close>: the answer of \<open>memp_malloc\<close>.\<close>

definition sys_timeout :: "bool \<Rightarrow> 32 word \<Rightarrow> nat option \<Rightarrow> nat \<Rightarrow> sys_timeouts \<Rightarrow> sys_timeouts option" where
  "sys_timeout ok msecs h arg s =
     (if \<not> ok then Some s
      else
        let a = ts_brk s;
            s = s\<lparr>ts_mem := (ts_mem s)(a \<mapsto> \<lparr>to_next = None, to_time = msecs, to_h = h, to_arg = arg, to_raw = False\<rparr>),
                  ts_brk := a + 1\<rparr>
        in timeout_link a msecs s)"

text \<open>The element is the one of the caller and is not allocated here.\<close>

definition sys_timeout_raw :: "addr \<Rightarrow> sys_timeouts \<Rightarrow> sys_timeouts option" where
  "sys_timeout_raw timeout s = do {
     s \<leftarrow> to_upd timeout (\<lambda>y. y\<lparr>to_raw := True\<rparr>) s;
     e \<leftarrow> ts_mem s timeout;
     timeout_link timeout (to_time e) s
   }"

section \<open>Disarming a timeout\<close>

definition set_link :: "addr option \<Rightarrow> addr option \<Rightarrow> sys_timeouts \<Rightarrow> sys_timeouts option" where
  "set_link prev n s = (case prev of None \<Rightarrow> Some (s\<lparr>ts_next := n\<rparr>) | Some p \<Rightarrow> to_upd p (\<lambda>y. y\<lparr>to_next := n\<rparr>) s)"

text \<open>Taking \<open>t\<close> out of the list; its time goes back to the next element.\<close>

definition timeout_unlink :: "addr option \<Rightarrow> addr \<Rightarrow> sys_timeouts \<Rightarrow> sys_timeouts option" where
  "timeout_unlink prev t s = do {
     e \<leftarrow> ts_mem s t;
     s \<leftarrow> set_link prev (to_next e) s;
     (case to_next e of None \<Rightarrow> Some s | Some x \<Rightarrow> to_upd x (\<lambda>y. y\<lparr>to_time := to_time y + to_time e\<rparr>) s)
   }"

partial_function (option) find_timeout ::
  "(addr \<Rightarrow> sys_timeout_t \<Rightarrow> bool) \<Rightarrow> (addr \<rightharpoonup> sys_timeout_t) \<Rightarrow> addr option \<Rightarrow> addr option \<Rightarrow> (addr option \<times> addr) option option" where
  "find_timeout test m prev t = (case t of None \<Rightarrow> Some None
     | Some a \<Rightarrow> Option.bind (m a) (\<lambda>e. if test a e then Some (Some (prev, a)) else find_timeout test m t (to_next e)))"

definition sys_untimeout_and_check :: "nat option \<Rightarrow> nat \<Rightarrow> sys_timeouts \<Rightarrow> (int \<times> sys_timeouts) option" where
  "sys_untimeout_and_check h arg s = do {
     r \<leftarrow> find_timeout (\<lambda>_ e. to_h e = h \<and> to_arg e = arg) (ts_mem s) None (ts_next s);
     (case r of None \<Rightarrow> Some (0, s)
      | Some (prev, t) \<Rightarrow> do {
          s \<leftarrow> timeout_unlink prev t s;
          e \<leftarrow> ts_mem s t;
          s \<leftarrow> (if \<not> to_raw e then memp_free t s else Some s);
          Some (1, s)
        })
   }"

definition sys_untimeout :: "nat option \<Rightarrow> nat \<Rightarrow> sys_timeouts \<Rightarrow> sys_timeouts option" where
  "sys_untimeout h arg s = do {
     r \<leftarrow> find_timeout (\<lambda>_ e. to_h e = h \<and> to_arg e = arg) (ts_mem s) None (ts_next s);
     (case r of None \<Rightarrow> Some s
      | Some (prev, t) \<Rightarrow> do {
          s \<leftarrow> timeout_unlink prev t s;
          e \<leftarrow> ts_mem s t;
          if \<not> to_raw e then memp_free t s else Some s
        })
   }"

definition sys_untimeout_raw :: "addr \<Rightarrow> sys_timeouts \<Rightarrow> (int \<times> sys_timeouts) option" where
  "sys_untimeout_raw timeout s = do {
     e \<leftarrow> ts_mem s timeout;
     if to_next e = None then Some (0, s)
     else do {
       r \<leftarrow> find_timeout (\<lambda>a _. a = timeout) (ts_mem s) None (ts_next s);
       (case r of None \<Rightarrow> Some (0, s)
        | Some (prev, t) \<Rightarrow> do {
            s \<leftarrow> timeout_unlink prev t s;
            s \<leftarrow> to_upd t (\<lambda>y. y\<lparr>to_next := None\<rparr>) s;
            Some (1, s)
          })
     }
   }"

section \<open>Waiting\<close>

text \<open>
  \<open>sys_mbox_fetch\<close> and \<open>sys_sem_wait\<close> differ in the call that waits.  Its answers are a list: the
  milliseconds that were waited for the message, or \<open>SYS_ARCH_TIMEOUT\<close>; without an answer the thread
  is still waiting.  \<open>run\<close> is what the handlers do.
\<close>

datatype wait_result = Received | Waiting

definition timeout_expire :: "(nat \<Rightarrow> nat \<Rightarrow> sys_timeouts \<Rightarrow> sys_timeouts option) \<Rightarrow> addr \<Rightarrow> sys_timeouts \<Rightarrow> sys_timeouts option" where
  "timeout_expire run t s = do {
     e \<leftarrow> ts_mem s t;
     let s = s\<lparr>ts_next := to_next e\<rparr>;
     s \<leftarrow> (if \<not> to_raw e then memp_free t s else Some s);
     s \<leftarrow> (case to_h e of None \<Rightarrow> Some s | Some h \<Rightarrow> run h (to_arg e) s);
     e \<leftarrow> ts_mem s t;
     if to_raw e then to_upd t (\<lambda>y. y\<lparr>to_next := None\<rparr>) s else Some s
   }"

text \<open>A message arrived after \<open>time\<close> milliseconds.\<close>

definition timeout_elapse :: "32 word \<Rightarrow> addr \<Rightarrow> sys_timeouts \<Rightarrow> sys_timeouts option" where
  "timeout_elapse time t s = to_upd t (\<lambda>e. e\<lparr>to_time := if time \<le> to_time e then to_time e - time else 0\<rparr>) s"

partial_function (option) sys_wait ::
  "(nat \<Rightarrow> nat \<Rightarrow> sys_timeouts \<Rightarrow> sys_timeouts option) \<Rightarrow> (32 word) list \<Rightarrow> sys_timeouts \<Rightarrow> (wait_result \<times> sys_timeouts) option" where
  "sys_wait run answers s = (case ts_next s of
       None \<Rightarrow> Some (if answers = [] then Waiting else Received, s)
     | Some t \<Rightarrow> (case ts_mem s t of None \<Rightarrow> None
         | Some e \<Rightarrow>
             if to_time e > 0 then
               (case answers of [] \<Rightarrow> Some (Waiting, s)
                | time # answers \<Rightarrow>
                    if time = SYS_ARCH_TIMEOUT then Option.bind (timeout_expire run t s) (sys_wait run answers)
                    else map_option (\<lambda>s. (Received, s)) (timeout_elapse time t s))
             else Option.bind (timeout_expire run t s) (sys_wait run answers)))"

definition sys_mbox_fetch ::
  "(nat \<Rightarrow> nat \<Rightarrow> sys_timeouts \<Rightarrow> sys_timeouts option) \<Rightarrow> (32 word) list \<Rightarrow> sys_timeouts \<Rightarrow> (wait_result \<times> sys_timeouts) option" where
  "sys_mbox_fetch = sys_wait"

definition sys_sem_wait ::
  "(nat \<Rightarrow> nat \<Rightarrow> sys_timeouts \<Rightarrow> sys_timeouts option) \<Rightarrow> (32 word) list \<Rightarrow> sys_timeouts \<Rightarrow> (wait_result \<times> sys_timeouts) option" where
  "sys_sem_wait = sys_wait"

section \<open>The list and the times at which its elements expire\<close>

fun tseg :: "(addr \<rightharpoonup> sys_timeout_t) \<Rightarrow> addr option \<Rightarrow> addr list \<Rightarrow> bool" where
  "tseg m p [] \<longleftrightarrow> p = None"
| "tseg m p (x # xs) \<longleftrightarrow> p = Some x \<and> (\<exists>e. m x = Some e \<and> tseg m (to_next e) xs)"

type_synonym timer = "nat \<times> nat option \<times> nat"

text \<open>The timers of a list that starts at the time \<open>base\<close>.\<close>

fun timers :: "(addr \<rightharpoonup> sys_timeout_t) \<Rightarrow> nat \<Rightarrow> addr list \<Rightarrow> timer list" where
  "timers m base [] = []"
| "timers m base (x # xs) = (case m x of None \<Rightarrow> []
     | Some e \<Rightarrow> let d = base + unat (to_time e) in (d, to_h e, to_arg e) # timers m d xs)"

definition tq_ok :: "sys_timeouts \<Rightarrow> addr list \<Rightarrow> bool" where
  "tq_ok s xs \<longleftrightarrow> distinct xs \<and> tseg (ts_mem s) (ts_next s) xs \<and> (\<forall>a. ts_brk s \<le> a \<longrightarrow> ts_mem s a = None) \<and>
     (\<forall>(d, _) \<in> set (timers (ts_mem s) 0 xs). d < 2 ^ 32)"

definition queue_of :: "sys_timeouts \<Rightarrow> addr list \<Rightarrow> timer list" where
  "queue_of s xs = timers (ts_mem s) 0 xs"

text \<open>The specification: a queue ordered by the time of expiry, first come first served.\<close>

definition insert_timer :: "timer \<Rightarrow> timer list \<Rightarrow> timer list" where
  "insert_timer t q = takeWhile (\<lambda>u. fst u \<le> fst t) q @ t # dropWhile (\<lambda>u. fst u \<le> fst t) q"

fun cancel_timer :: "nat option \<Rightarrow> nat \<Rightarrow> timer list \<Rightarrow> timer list" where
  "cancel_timer h arg [] = []"
| "cancel_timer h arg (t # q) = (if snd t = (h, arg) then q else t # cancel_timer h arg q)"

end
