(* ===== verification/Sys_Props.thy ===== *)
theory Sys_Props
  imports Sys_Timeouts
begin

text \<open>
  Properties of the timeouts: the list of the differences of the times implements a queue ordered by
  the time of expiry.
\<close>

section \<open>Lists of timeouts\<close>

definition tdata :: "sys_timeout_t \<Rightarrow> 32 word \<times> nat option \<times> nat" where
  "tdata e = (to_time e, to_h e, to_arg e)"

lemma timers_cong:
  "(\<And>x. x \<in> set xs \<Longrightarrow> map_option tdata (m' x) = map_option tdata (m x)) \<Longrightarrow> timers m' b xs = timers m b xs"
proof (induction xs arbitrary: b)
  case (Cons x xs)
  have "map_option tdata (m' x) = map_option tdata (m x)" by (rule Cons.prems) simp
  then show ?case using Cons by (cases "m x"; cases "m' x") (auto simp: tdata_def Let_def)
qed simp

lemma tseg_cong:
  "(\<And>x. x \<in> set xs \<Longrightarrow> map_option to_next (m' x) = map_option to_next (m x)) \<Longrightarrow> tseg m' p xs = tseg m p xs"
proof (induction xs arbitrary: p)
  case (Cons x xs)
  have "map_option to_next (m' x) = map_option to_next (m x)" by (rule Cons.prems) simp
  then show ?case using Cons by (cases "m x"; cases "m' x") auto
qed simp

lemma tseg_mem: "tseg m p xs \<Longrightarrow> x \<in> set xs \<Longrightarrow> \<exists>e. m x = Some e"
  by (induction xs arbitrary: p) auto

definition tsum :: "(addr \<rightharpoonup> sys_timeout_t) \<Rightarrow> addr list \<Rightarrow> nat" where
  "tsum m xs = sum_list (map (\<lambda>x. unat (to_time (the (m x)))) xs)"

lemma tsum_cong:
  assumes "\<And>x. x \<in> set xs \<Longrightarrow> map_option tdata (m' x) = map_option tdata (m x)"
  shows "tsum m' xs = tsum m xs"
  unfolding tsum_def
proof (intro arg_cong [of _ _ sum_list] map_cong refl)
  fix x assume "x \<in> set xs"
  from assms [OF this] show "unat (to_time (the (m' x))) = unat (to_time (the (m x)))"
    by (cases "m x"; cases "m' x") (auto simp: tdata_def)
qed

lemma timers_append:
  "\<forall>x \<in> set xs. m x \<noteq> None \<Longrightarrow> timers m b (xs @ ys) = timers m b xs @ timers m (b + tsum m xs) ys"
  by (induction xs arbitrary: b) (auto simp: tsum_def Let_def add.assoc)

lemma insert_timer_simps:
  "insert_timer t [] = [t]"
  "fst u \<le> fst t \<Longrightarrow> insert_timer t (u # q) = u # insert_timer t q"
  "fst t < fst u \<Longrightarrow> insert_timer t (u # q) = t # u # q"
  by (simp_all add: insert_timer_def)

section \<open>Arming\<close>

lemma link_loop_ok:
  assumes "tseg (ts_mem s) (Some a) (a # xs)" "ts_mem s N = Some n" "N \<notin> set (a # xs)" "distinct (a # xs)"
    and "ts_mem s a = Some e" "to_time e \<le> to_time n"
  shows "\<exists>s' ys. link_loop N (Some a) s = Some s' \<and> ts_next s' = ts_next s \<and> ts_brk s' = ts_brk s \<and>
     (\<forall>x. x \<notin> set (a # xs) \<and> x \<noteq> N \<longrightarrow> ts_mem s' x = ts_mem s x) \<and>
     tseg (ts_mem s') (Some a) (a # ys) \<and> distinct (a # ys) \<and> set (a # ys) = insert N (set (a # xs)) \<and>
     timers (ts_mem s') b (a # ys) = insert_timer (b + unat (to_time n), to_h n, to_arg n) (timers (ts_mem s) b (a # xs))"
  using assms
proof (induction xs arbitrary: a s n e b)
  case Nil
  let ?n = "n\<lparr>to_time := to_time n - to_time e\<rparr>"
  let ?m = "(ts_mem s)(N \<mapsto> ?n\<lparr>to_next := None\<rparr>, a \<mapsto> e\<lparr>to_next := Some N\<rparr>)"
  have nx: "to_next e = None" "N \<noteq> a" using Nil.prems by auto
  have "link_loop N (Some a) s = Some (s\<lparr>ts_mem := ?m\<rparr>)"
    using Nil.prems nx by (subst link_loop.simps) (simp add: to_upd_def place_found_def link_here_def)
  moreover have "unat (to_time n - to_time e) = unat (to_time n) - unat (to_time e)" "unat (to_time e) \<le> unat (to_time n)"
    using Nil.prems(6) by (simp_all add: unat_sub word_le_nat_alt)
  ultimately show ?case using Nil.prems nx
    by (intro exI [of _ "s\<lparr>ts_mem := ?m\<rparr>"] exI [of _ "[N]"]) (auto simp: insert_timer_simps Let_def)
next
  case (Cons x xs)
  let ?n = "n\<lparr>to_time := to_time n - to_time e\<rparr>"
  let ?s = "s\<lparr>ts_mem := (ts_mem s)(N \<mapsto> ?n)\<rparr>"
  let ?d = "b + unat (to_time e)"
  have nx: "to_next e = Some x" "N \<noteq> a" "N \<noteq> x" "a \<noteq> x" using Cons.prems by auto
  obtain y where y: "ts_mem s x = Some y" using Cons.prems(1,5) nx by auto
  have sub: "unat (to_time n - to_time e) = unat (to_time n) - unat (to_time e)" "unat (to_time e) \<le> unat (to_time n)"
    using Cons.prems(6) by (simp_all add: unat_sub word_le_nat_alt)
  show ?case
  proof (cases "to_time y > to_time n - to_time e")
    case True
    define m where "m = (ts_mem s)(N \<mapsto> ?n\<lparr>to_next := Some x\<rparr>, x \<mapsto> y\<lparr>to_time := to_time y - (to_time n - to_time e)\<rparr>, a \<mapsto> e\<lparr>to_next := Some N\<rparr>)"
    have m: "m a = Some (e\<lparr>to_next := Some N\<rparr>)" "m N = Some (?n\<lparr>to_next := Some x\<rparr>)"
      "m x = Some (y\<lparr>to_time := to_time y - (to_time n - to_time e)\<rparr>)"
      "\<And>z. z \<noteq> a \<Longrightarrow> z \<noteq> N \<Longrightarrow> z \<noteq> x \<Longrightarrow> m z = ts_mem s z"
      using nx by (simp_all add: m_def)
    have run: "link_loop N (Some a) s = Some (s\<lparr>ts_mem := m\<rparr>)"
      using Cons.prems nx y True
      by (subst link_loop.simps) (simp add: to_upd_def place_found_def link_here_def fun_upd_twist m_def)
    have ysub: "unat (to_time y - (to_time n - to_time e)) = unat (to_time y) - (unat (to_time n) - unat (to_time e))"
        "unat (to_time n) - unat (to_time e) < unat (to_time y)"
      using True sub by (simp_all add: unat_sub word_less_nat_alt word_le_nat_alt)
    have other: "m z = ts_mem s z" if "z \<in> set xs" for z using Cons.prems(3,4) that by (intro m(4)) auto
    have "tseg (ts_mem s) (to_next y) xs" using Cons.prems(1,5) nx y by auto
    then have tail: "tseg m (to_next y) xs" "timers m c xs = timers (ts_mem s) c xs" for c
      using other by (simp_all add: tseg_cong [of xs m "ts_mem s"] timers_cong [of xs m "ts_mem s"])
    have "timers m b (a # N # x # xs) = insert_timer (b + unat (to_time n), to_h n, to_arg n) (timers (ts_mem s) b (a # x # xs))"
      using Cons.prems(5) y sub ysub tail(2) m(1-3) by (simp add: insert_timer_simps Let_def)
    moreover have "tseg m (Some a) (a # N # x # xs)" using m(1-3) tail(1) by simp
    moreover have "distinct (a # N # x # xs)" "set (a # N # x # xs) = insert N (set (a # x # xs))" using Cons.prems(3,4) by auto
    moreover have "\<forall>z. z \<notin> set (a # x # xs) \<and> z \<noteq> N \<longrightarrow> m z = ts_mem s z" using m(4) by simp
    ultimately show ?thesis using run
      by (intro exI [of _ "s\<lparr>ts_mem := m\<rparr>"] exI [of _ "N # x # xs"]) (simp del: timers.simps tseg.simps set_simps distinct.simps)
  next
    case False
    have run: "link_loop N (Some a) s = link_loop N (Some x) ?s"
      using Cons.prems nx y False by (subst link_loop.simps) (simp add: to_upd_def place_found_def)
    have seg: "tseg (ts_mem ?s) (Some x) (x # xs)"
    proof -
      have "tseg (ts_mem s) (Some x) (x # xs)" using Cons.prems(1,5) nx by simp
      then show ?thesis using Cons.prems(2,3) by (subst tseg_cong [of _ _ "ts_mem s"]) auto
    qed
    have "\<exists>s' ys. link_loop N (Some x) ?s = Some s' \<and> ts_next s' = ts_next ?s \<and> ts_brk s' = ts_brk ?s \<and>
       (\<forall>z. z \<notin> set (x # xs) \<and> z \<noteq> N \<longrightarrow> ts_mem s' z = ts_mem ?s z) \<and>
       tseg (ts_mem s') (Some x) (x # ys) \<and> distinct (x # ys) \<and> set (x # ys) = insert N (set (x # xs)) \<and>
       timers (ts_mem s') ?d (x # ys) = insert_timer (?d + unat (to_time ?n), to_h ?n, to_arg ?n) (timers (ts_mem ?s) ?d (x # xs))"
      by (rule Cons.IH [OF seg]) (use Cons.prems nx y False in auto)
    then obtain s' ys where s': "link_loop N (Some x) ?s = Some s'" "ts_next s' = ts_next s" "ts_brk s' = ts_brk s"
       "\<And>z. z \<notin> set (x # xs) \<Longrightarrow> z \<noteq> N \<Longrightarrow> ts_mem s' z = ts_mem s z"
       "tseg (ts_mem s') (Some x) (x # ys)" "distinct (x # ys)" "set (x # ys) = insert N (set (x # xs))"
       "timers (ts_mem s') ?d (x # ys) = insert_timer (?d + unat (to_time ?n), to_h n, to_arg n) (timers (ts_mem ?s) ?d (x # xs))"
      by auto
    have a: "ts_mem s' a = Some e" using s'(4) [of a] Cons.prems(4,5) nx by simp
    have "timers (ts_mem ?s) ?d (x # xs) = timers (ts_mem s) ?d (x # xs)"
      using Cons.prems(3) by (intro timers_cong) auto
    then have "timers (ts_mem s') b (a # x # ys) = insert_timer (b + unat (to_time n), to_h n, to_arg n) (timers (ts_mem s) b (a # x # xs))"
      using s'(8) a Cons.prems(5) sub by (simp add: insert_timer_simps Let_def del: timers.simps(2) [of _ _ x])
    moreover have "tseg (ts_mem s') (Some a) (a # x # ys)" using a s'(5) nx(1) by auto
    moreover have "distinct (a # x # ys)" "set (a # x # ys) = insert N (set (a # x # xs))"
      using s'(6,7) Cons.prems(3,4) by auto
    ultimately show ?thesis using run s'(1-4) by (intro exI [of _ s'] exI [of _ "x # ys"]) (auto simp del: timers.simps tseg.simps)
  qed
qed

lemma tq_okD:
  assumes "tq_ok s xs"
  shows "distinct xs" "tseg (ts_mem s) (ts_next s) xs" "\<And>a. ts_brk s \<le> a \<Longrightarrow> ts_mem s a = None"
    "\<And>d r. (d, r) \<in> set (queue_of s xs) \<Longrightarrow> d < 2 ^ 32"
  using assms by (auto simp: tq_ok_def queue_of_def)

lemma tq_okI:
  assumes "distinct xs" "tseg (ts_mem s) (ts_next s) xs" "\<And>a. ts_brk s \<le> a \<Longrightarrow> ts_mem s a = None"
    "\<And>d r. (d, r) \<in> set (queue_of s xs) \<Longrightarrow> d < 2 ^ 32"
  shows "tq_ok s xs"
  using assms by (fastforce simp: tq_ok_def queue_of_def)

lemma set_insert_timer: "set (insert_timer t q) = insert t (set q)"
  using takeWhile_dropWhile_id [of "\<lambda>u. fst u \<le> fst t" q] unfolding insert_timer_def
  by (metis (no_types, lifting) Un_insert_right list.simps(15) set_append)

lemma timeout_link_ok:
  assumes n: "ts_mem s N = Some n" "to_next n = None" and N: "N \<notin> set xs" and d: "distinct xs"
    and seg: "tseg (ts_mem s) (ts_next s) xs"
  shows "\<exists>s' ys. timeout_link N (to_time n) s = Some s' \<and> ts_brk s' = ts_brk s \<and>
     (\<forall>x. x \<notin> set xs \<and> x \<noteq> N \<longrightarrow> ts_mem s' x = ts_mem s x) \<and> tseg (ts_mem s') (ts_next s') ys \<and> distinct ys \<and>
     set ys = insert N (set xs) \<and> timers (ts_mem s') 0 ys = insert_timer (unat (to_time n), to_h n, to_arg n) (timers (ts_mem s) 0 xs)"
proof (cases xs)
  case Nil
  then have "ts_next s = None" using seg by simp
  then show ?thesis using Nil n
    by (intro exI [of _ "s\<lparr>ts_next := Some N\<rparr>"] exI [of _ "[N]"]) (simp add: timeout_link_def insert_timer_simps)
next
  case (Cons a zs)
  obtain e where e: "ts_mem s a = Some e" "ts_next s = Some a" "tseg (ts_mem s) (to_next e) zs" using seg Cons by auto
  have aN: "a \<noteq> N" using N Cons by auto
  show ?thesis
  proof (cases "to_time e > to_time n")
    case True
    define m where "m = (ts_mem s)(a \<mapsto> e\<lparr>to_time := to_time e - to_time n\<rparr>, N \<mapsto> n\<lparr>to_next := Some a\<rparr>)"
    let ?s = "s\<lparr>ts_mem := m, ts_next := Some N\<rparr>"
    have m: "m a = Some (e\<lparr>to_time := to_time e - to_time n\<rparr>)" "m N = Some (n\<lparr>to_next := Some a\<rparr>)"
       "\<And>z. z \<noteq> a \<Longrightarrow> z \<noteq> N \<Longrightarrow> m z = ts_mem s z"
      using aN by (simp_all add: m_def)
    have lk: "timeout_link N (to_time n) s = Some ?s" using e True aN n(1) by (simp add: timeout_link_def to_upd_def m_def)
    have other: "m z = ts_mem s z" if "z \<in> set zs" for z using d N Cons that by (intro m(3)) auto
    have sub: "unat (to_time e - to_time n) = unat (to_time e) - unat (to_time n)" "unat (to_time n) < unat (to_time e)"
      using True by (simp_all add: unat_sub word_less_nat_alt word_le_nat_alt)
    have tail: "tseg m (to_next e) zs" "timers m c zs = timers (ts_mem s) c zs" for c
      using e(3) other by (simp_all add: tseg_cong [of zs m "ts_mem s"] timers_cong [of zs m "ts_mem s"])
    have "timers m 0 (N # a # zs) = insert_timer (unat (to_time n), to_h n, to_arg n) (timers (ts_mem s) 0 (a # zs))"
      using m(1,2) tail(2) sub e(1) by (simp add: insert_timer_simps Let_def)
    moreover have "tseg m (Some N) (N # a # zs)" using m(1,2) tail(1) by simp
    moreover have "distinct (N # a # zs)" "set (N # a # zs) = insert N (set xs)" using d N Cons by auto
    ultimately show ?thesis using lk m(3) Cons
      by (intro exI [of _ ?s] exI [of _ "N # a # zs"]) (simp del: timers.simps tseg.simps)
  next
    case False
    have "\<exists>s' ys. link_loop N (Some a) s = Some s' \<and> ts_next s' = ts_next s \<and> ts_brk s' = ts_brk s \<and>
       (\<forall>x. x \<notin> set (a # zs) \<and> x \<noteq> N \<longrightarrow> ts_mem s' x = ts_mem s x) \<and>
       tseg (ts_mem s') (Some a) (a # ys) \<and> distinct (a # ys) \<and> set (a # ys) = insert N (set (a # zs)) \<and>
       timers (ts_mem s') 0 (a # ys) = insert_timer (0 + unat (to_time n), to_h n, to_arg n) (timers (ts_mem s) 0 (a # zs))"
      by (rule link_loop_ok [where e = e]) (use seg Cons n(1) N d e(1,2) False in auto)
    then obtain s' ys where s': "link_loop N (Some a) s = Some s'" "ts_next s' = ts_next s" "ts_brk s' = ts_brk s"
       "\<forall>x. x \<notin> set (a # zs) \<and> x \<noteq> N \<longrightarrow> ts_mem s' x = ts_mem s x"
       "tseg (ts_mem s') (Some a) (a # ys)" "distinct (a # ys)" "set (a # ys) = insert N (set (a # zs))"
       "timers (ts_mem s') 0 (a # ys) = insert_timer (unat (to_time n), to_h n, to_arg n) (timers (ts_mem s) 0 (a # zs))"
      by (auto simp del: timers.simps tseg.simps)
    have "timeout_link N (to_time n) s = Some s'" using e False s'(1) by (simp add: timeout_link_def)
    then show ?thesis using s'(2-8) e(2) Cons by (intro exI [of _ s'] exI [of _ "a # ys"]) (simp del: timers.simps tseg.simps)
  qed
qed

lemma sys_timeout_ok:
  assumes ok: "tq_ok s xs"
  shows "\<exists>s' ys. sys_timeout True ms h arg s = Some s' \<and> tq_ok s' ys \<and> set ys = insert (ts_brk s) (set xs) \<and>
     queue_of s' ys = insert_timer (unat ms, h, arg) (queue_of s xs)"
proof -
  let ?N = "ts_brk s"
  define n where "n = \<lparr>to_next = None, to_time = ms, to_h = h, to_arg = arg, to_raw = False\<rparr>"
  define s0 where "s0 = s\<lparr>ts_mem := (ts_mem s)(?N \<mapsto> n), ts_brk := ?N + 1\<rparr>"
  note d = tq_okD [OF ok]
  have N: "?N \<notin> set xs"
  proof
    assume "?N \<in> set xs"
    from tseg_mem [OF d(2) this] d(3) [of ?N] show False by simp
  qed
  have m0: "ts_mem s0 ?N = Some n" "\<And>x. x \<noteq> ?N \<Longrightarrow> ts_mem s0 x = ts_mem s x" "ts_next s0 = ts_next s" "ts_brk s0 = ?N + 1"
    by (simp_all add: s0_def)
  have other: "ts_mem s0 x = ts_mem s x" if "x \<in> set xs" for x using N that by (intro m0(2)) auto
  have seg: "tseg (ts_mem s0) (ts_next s0) xs" using d(2) other m0(3) by (simp add: tseg_cong [of xs "ts_mem s0" "ts_mem s"])
  have tm: "timers (ts_mem s0) 0 xs = queue_of s xs" unfolding queue_of_def by (rule timers_cong) (simp add: other)
  have run: "sys_timeout True ms h arg s = timeout_link ?N ms s0" by (simp add: sys_timeout_def Let_def s0_def n_def)
  have nf: "to_next n = None" "to_time n = ms" "to_h n = h" "to_arg n = arg" by (simp_all add: n_def)
  obtain s' ys where s': "timeout_link ?N ms s0 = Some s'" "ts_brk s' = ?N + 1"
     "\<And>x. x \<notin> set xs \<Longrightarrow> x \<noteq> ?N \<Longrightarrow> ts_mem s' x = ts_mem s0 x" "tseg (ts_mem s') (ts_next s') ys" "distinct ys"
     "set ys = insert ?N (set xs)" "queue_of s' ys = insert_timer (unat ms, h, arg) (queue_of s xs)"
    using timeout_link_ok [OF m0(1) nf(1) N d(1) seg] unfolding nf tm m0(4) queue_of_def by blast
  have "tq_ok s' ys"
  proof (rule tq_okI [OF s'(5,4)])
    show "ts_mem s' a = None" if a: "ts_brk s' \<le> a" for a
    proof -
      have "a \<noteq> ?N" "ts_mem s a = None" using a s'(2) d(3) [of a] by auto
      moreover have "a \<notin> set xs" using tseg_mem [OF d(2), of a] \<open>ts_mem s a = None\<close> by auto
      ultimately show ?thesis using s'(3) [of a] m0(2) [of a] by simp
    qed
    show "t < 2 ^ 32" if "(t, r) \<in> set (queue_of s' ys)" for t r
      using that d(4) [of t r] unsigned_less [of ms, where 'a = nat] unfolding s'(7) set_insert_timer by auto
  qed
  then show ?thesis using run s'(1,6,7) by auto
qed

section \<open>Disarming\<close>

text \<open>A part of the list that ends at the pointer \<open>r\<close>.\<close>

fun tpath :: "(addr \<rightharpoonup> sys_timeout_t) \<Rightarrow> addr option \<Rightarrow> addr list \<Rightarrow> addr option \<Rightarrow> bool" where
  "tpath m p [] r \<longleftrightarrow> p = r"
| "tpath m p (x # xs) r \<longleftrightarrow> p = Some x \<and> (\<exists>e. m x = Some e \<and> tpath m (to_next e) xs r)"

lemma tseg_append: "tseg m p (xs @ ys) \<longleftrightarrow> (\<exists>q. tpath m p xs q \<and> tseg m q ys)"
  by (induction xs arbitrary: p) auto

lemma tseg_path: "tseg m p xs \<longleftrightarrow> tpath m p xs None"
  by (induction xs arbitrary: p) auto

lemma tpath_append: "tpath m p (xs @ ys) r \<longleftrightarrow> (\<exists>q. tpath m p xs q \<and> tpath m q ys r)"
  by (induction xs arbitrary: p) auto

lemma tpath_cong:
  "(\<And>x. x \<in> set xs \<Longrightarrow> map_option to_next (m' x) = map_option to_next (m x)) \<Longrightarrow> tpath m' p xs r = tpath m p xs r"
proof (induction xs arbitrary: p)
  case (Cons x xs)
  have "map_option to_next (m' x) = map_option to_next (m x)" by (rule Cons.prems) simp
  then show ?case using Cons by (cases "m x"; cases "m' x") auto
qed simp

definition last_of :: "addr option \<Rightarrow> addr list \<Rightarrow> addr option" where
  "last_of prev as = (if as = [] then prev else Some (last as))"

lemma find_timeout_hit:
  assumes "tseg m p (as @ t # bs)" "\<forall>x \<in> set as. \<not> test x (the (m x))" "test t (the (m t))"
  shows "find_timeout test m prev p = Some (Some (last_of prev as, t))"
  using assms
proof (induction as arbitrary: p prev)
  case Nil
  then show ?case by (subst find_timeout.simps) (auto simp: last_of_def)
next
  case (Cons x as)
  then show ?case by (subst find_timeout.simps) (auto simp: last_of_def)
qed

lemma find_timeout_miss:
  assumes "tseg m p xs" "\<forall>x \<in> set xs. \<not> test x (the (m x))"
  shows "find_timeout test m prev p = Some None"
  using assms
proof (induction xs arbitrary: p prev)
  case (Cons x xs)
  then show ?case by (subst find_timeout.simps) auto
qed (subst find_timeout.simps, simp)

text \<open>The list after the link around an element was changed.\<close>

lemma set_link_ok:
  assumes d: "distinct (as @ t # bs)" and seg: "tseg (ts_mem s) (ts_next s) (as @ t # bs)" and e: "ts_mem s t = Some e"
  shows "\<exists>s'. set_link (last_of None as) (to_next e) s = Some s' \<and> tpath (ts_mem s') (ts_next s') as (to_next e) \<and>
     (\<forall>x. x \<notin> set as \<longrightarrow> ts_mem s' x = ts_mem s x) \<and>
     (\<forall>x. map_option tdata (ts_mem s' x) = map_option tdata (ts_mem s x)) \<and> ts_brk s' = ts_brk s"
proof (cases as rule: rev_cases)
  case Nil
  then show ?thesis by (simp add: set_link_def last_of_def)
next
  case (snoc cs q)
  obtain r where r: "tpath (ts_mem s) (ts_next s) (cs @ [q]) r" using seg unfolding snoc tseg_append by blast
  then obtain eq where eq: "tpath (ts_mem s) (ts_next s) cs (Some q)" "ts_mem s q = Some eq" by (auto simp: tpath_append)
  let ?m = "(ts_mem s)(q \<mapsto> eq\<lparr>to_next := to_next e\<rparr>)"
  have "tpath ?m (ts_next s) cs (Some q)" using eq(1) d snoc by (subst tpath_cong [of _ _ "ts_mem s"]) auto
  then have "tpath ?m (ts_next s) (cs @ [q]) (to_next e)" by (auto simp: tpath_append)
  then show ?thesis using eq(2) snoc by (auto simp: set_link_def last_of_def to_upd_def tdata_def)
qed

lemma timeout_unlink_ok:
  assumes d: "distinct (as @ t # bs)" and seg: "tseg (ts_mem s) (ts_next s) (as @ t # bs)" and e: "ts_mem s t = Some e"
    and b: "\<And>x r. (x, r) \<in> set (timers (ts_mem s) 0 (as @ t # bs)) \<Longrightarrow> x < 2 ^ 32"
  shows "\<exists>s'. timeout_unlink (last_of None as) t s = Some s' \<and> ts_brk s' = ts_brk s \<and> ts_mem s' t = Some e \<and>
     (\<forall>x. ts_mem s x = None \<longrightarrow> ts_mem s' x = None) \<and> tseg (ts_mem s') (ts_next s') (as @ bs) \<and>
     timers (ts_mem s') 0 (as @ bs) = timers (ts_mem s) 0 as @ timers (ts_mem s) (tsum (ts_mem s) as + unat (to_time e)) bs"
proof -
  have mem: "\<forall>x \<in> set as. ts_mem s x \<noteq> None" using tseg_mem [OF seg] by auto
  obtain s1 where s1: "set_link (last_of None as) (to_next e) s = Some s1" "tpath (ts_mem s1) (ts_next s1) as (to_next e)"
     "\<And>x. x \<notin> set as \<Longrightarrow> ts_mem s1 x = ts_mem s x" "\<And>x. map_option tdata (ts_mem s1 x) = map_option tdata (ts_mem s x)" "ts_brk s1 = ts_brk s"
    using set_link_ok [OF d seg e] by blast
  have tail: "tseg (ts_mem s) (to_next e) bs" using seg e by (auto simp: tseg_append)
  have t1: "ts_mem s1 t = Some e" "\<And>x. x \<in> set bs \<Longrightarrow> ts_mem s1 x = ts_mem s x" using s1(3) d e by auto
  have as1: "timers (ts_mem s1) 0 as = timers (ts_mem s) 0 as" by (rule timers_cong) (simp add: s1(4))
  have none: "ts_mem s1 x = None" if "ts_mem s x = None" for x using s1(4) [of x] that by simp
  have mem1: "\<forall>x \<in> set as. ts_mem s1 x \<noteq> None"
  proof
    fix x assume "x \<in> set as"
    then show "ts_mem s1 x \<noteq> None" using mem s1(4) [of x] by (cases "ts_mem s1 x") auto
  qed
  show ?thesis
  proof (cases bs)
    case Nil
    then have "to_next e = None" using tail by simp
    then show ?thesis using Nil s1 t1 none as1 e by (auto simp: timeout_unlink_def tseg_path)
  next
    case (Cons y zs)
    obtain f where f: "ts_mem s y = Some f" "to_next e = Some y" "tseg (ts_mem s) (to_next f) zs" using tail Cons by auto
    have ynt: "y \<noteq> t" "y \<notin> set as" "y \<notin> set zs" using d Cons by auto
    define m where "m = (ts_mem s1)(y \<mapsto> f\<lparr>to_time := to_time f + to_time e\<rparr>)"
    let ?s = "s1\<lparr>ts_mem := m\<rparr>"
    have y1: "ts_mem s1 y = Some f" using t1(2) [of y] Cons f(1) by simp
    have run: "timeout_unlink (last_of None as) t s = Some ?s" using e s1(1) f(2) y1 by (simp add: timeout_unlink_def to_upd_def m_def)
    have m: "m y = Some (f\<lparr>to_time := to_time f + to_time e\<rparr>)" "\<And>x. x \<noteq> y \<Longrightarrow> m x = ts_mem s1 x" by (simp_all add: m_def)
    have zs: "m x = ts_mem s x" if "x \<in> set zs" for x using m(2) [of x] t1(2) [of x] that ynt(3) Cons by auto
    have mas: "m x = ts_mem s1 x" if "x \<in> set as" for x using m(2) [of x] that ynt(2) by auto
    have pas: "tpath m (ts_next s1) as (to_next e)" using s1(2) by (subst tpath_cong [of _ _ "ts_mem s1"]) (simp_all add: mas)
    have "tseg m (to_next f) zs" using f(3) zs by (subst tseg_cong [of _ _ "ts_mem s"]) auto
    then have sg: "tseg m (ts_next s1) (as @ bs)" using pas f(2) m(1) Cons by (auto simp: tseg_append)
    have dm: "map_option tdata (m x) = map_option tdata (ts_mem s x)" if "x \<in> set as" for x
      using s1(4) [of x] that by (simp add: mas)
    have tas: "timers m 0 as = timers (ts_mem s) 0 as" "tsum m as = tsum (ts_mem s) as"
      using dm by (auto intro: timers_cong tsum_cong)
    have "(tsum (ts_mem s) as + unat (to_time e) + unat (to_time f), to_h f, to_arg f) \<in> set (timers (ts_mem s) 0 (as @ t # bs))"
      using e f(1) Cons mem by (simp add: timers_append Let_def)
    then have "unat (to_time f) + unat (to_time e) < 2 ^ 32" using b by fastforce
    then have add: "unat (to_time f + to_time e) = unat (to_time f) + unat (to_time e)" by (simp add: unat_word_ariths)
    have "timers m c zs = timers (ts_mem s) c zs" for c by (rule timers_cong) (simp add: zs)
    then have "timers m c bs = timers (ts_mem s) (c + unat (to_time e)) bs" for c using m(1) f(1) add Cons by (simp add: Let_def ac_simps)
    moreover have "\<forall>x \<in> set as. m x \<noteq> None" using mem1 by (simp add: mas)
    ultimately have "timers m 0 (as @ bs) = timers (ts_mem s) 0 as @ timers (ts_mem s) (tsum (ts_mem s) as + unat (to_time e)) bs"
      using tas by (simp add: timers_append)
    moreover have "\<forall>x. ts_mem s x = None \<longrightarrow> m x = None" using none m f(1) by (metis option.distinct(1))
    moreover have "m t = Some e" using m(2) ynt(1) t1(1) by metis
    ultimately show ?thesis using run sg s1(5) by auto
  qed
qed

lemma cancel_split:
  assumes "\<forall>u \<in> set q. snd u \<noteq> (h, arg)"
  shows "cancel_timer h arg q = q" "snd t = (h, arg) \<Longrightarrow> cancel_timer h arg (q @ t # r) = q @ r"
  using assms by (induction q) auto

lemma timers_snd:
  "\<forall>x \<in> set xs. m x \<noteq> None \<Longrightarrow> map snd (timers m b xs) = map (\<lambda>x. (to_h (the (m x)), to_arg (the (m x)))) xs"
  by (induction xs arbitrary: b) (auto simp: Let_def)

lemma sys_untimeout_ok:
  assumes ok: "tq_ok s xs"
  shows "\<exists>s' ys. sys_untimeout h arg s = Some s' \<and> tq_ok s' ys \<and> queue_of s' ys = cancel_timer h arg (queue_of s xs)"
proof -
  note d = tq_okD [OF ok]
  let ?test = "\<lambda>_ e. to_h e = h \<and> to_arg e = arg"
  have mem: "\<forall>x \<in> set xs. ts_mem s x \<noteq> None" using tseg_mem [OF d(2)] by auto
  have snd: "map snd (queue_of s xs) = map (\<lambda>x. (to_h (the (ts_mem s x)), to_arg (the (ts_mem s x)))) xs"
    unfolding queue_of_def by (rule timers_snd [OF mem])
  show ?thesis
  proof (cases "\<exists>x \<in> set xs. ?test x (the (ts_mem s x))")
    case False
    then have "find_timeout ?test (ts_mem s) None (ts_next s) = Some None" by (intro find_timeout_miss [OF d(2)]) auto
    then have run: "sys_untimeout h arg s = Some s" by (simp add: sys_untimeout_def)
    have "snd u \<noteq> (h, arg)" if "u \<in> set (queue_of s xs)" for u
    proof -
      have "snd u \<in> set (map snd (queue_of s xs))" using that by simp
      then show ?thesis unfolding snd using False by auto
    qed
    then show ?thesis using run ok cancel_split(1) by fastforce
  next
    case True
    then obtain as t bs where xs: "xs = as @ t # bs" "?test t (the (ts_mem s t))" "\<forall>x \<in> set as. \<not> ?test x (the (ts_mem s x))"
      using split_list_first_prop [of xs "\<lambda>x. ?test x (the (ts_mem s x))"] by blast
    obtain e where e: "ts_mem s t = Some e" using mem xs(1) by auto
    have f: "find_timeout ?test (ts_mem s) None (ts_next s) = Some (Some (last_of None as, t))"
      by (rule find_timeout_hit [OF d(2) [unfolded xs(1)]]) (use xs(2,3) in auto)
    obtain s1 where s1: "timeout_unlink (last_of None as) t s = Some s1" "ts_brk s1 = ts_brk s" "ts_mem s1 t = Some e"
       "\<And>x. ts_mem s x = None \<Longrightarrow> ts_mem s1 x = None" "tseg (ts_mem s1) (ts_next s1) (as @ bs)"
       "timers (ts_mem s1) 0 (as @ bs) = timers (ts_mem s) 0 as @ timers (ts_mem s) (tsum (ts_mem s) as + unat (to_time e)) bs"
      using timeout_unlink_ok [OF d(1,2) [unfolded xs(1)] e] d(4) [unfolded queue_of_def xs(1)] by blast
    define s' where "s' = (if to_raw e then s1 else s1\<lparr>ts_mem := (ts_mem s1)(t := None)\<rparr>)"
    have run: "sys_untimeout h arg s = Some s'" using f s1(1,3) by (simp add: sys_untimeout_def memp_free_def s'_def)
    have keep: "ts_mem s' x = ts_mem s1 x" if "x \<in> set (as @ bs)" for x using that d(1) xs(1) by (auto simp: s'_def)
    have q: "queue_of s xs = timers (ts_mem s) 0 as @ (tsum (ts_mem s) as + unat (to_time e), h, arg) #
        timers (ts_mem s) (tsum (ts_mem s) as + unat (to_time e)) bs"
      using mem xs e by (simp add: queue_of_def timers_append Let_def)
    have q': "queue_of s' (as @ bs) = timers (ts_mem s) 0 as @ timers (ts_mem s) (tsum (ts_mem s) as + unat (to_time e)) bs"
      unfolding queue_of_def s1(6) [symmetric] by (rule timers_cong) (simp only: keep)
    have "\<forall>u \<in> set (timers (ts_mem s) 0 as). snd u \<noteq> (h, arg)"
    proof
      fix u assume "u \<in> set (timers (ts_mem s) 0 as)"
      then have "snd u \<in> set (map snd (timers (ts_mem s) 0 as))" by simp
      moreover have "\<forall>x \<in> set as. ts_mem s x \<noteq> None" using mem xs(1) by simp
      ultimately show "snd u \<noteq> (h, arg)" using xs(3) by (auto simp only: timers_snd set_map)
    qed
    then have c: "queue_of s' (as @ bs) = cancel_timer h arg (queue_of s xs)" unfolding q q' by (simp add: cancel_split(2))
    have "tq_ok s' (as @ bs)"
    proof (rule tq_okI)
      show "distinct (as @ bs)" using d(1) xs(1) by simp
      have "tseg (ts_mem s') (ts_next s1) (as @ bs)" using s1(5) keep by (subst tseg_cong [of _ _ "ts_mem s1"]) auto
      then show "tseg (ts_mem s') (ts_next s') (as @ bs)" by (simp add: s'_def split: if_splits)
      show "ts_mem s' a = None" if "ts_brk s' \<le> a" for a using s1(2,4) d(3) [of a] that by (auto simp: s'_def split: if_splits)
      show "x < 2 ^ 32" if "(x, r) \<in> set (queue_of s' (as @ bs))" for x r using that d(4) [of x r] unfolding q q' by auto
    qed
    then show ?thesis using run c by blast
  qed
qed

section \<open>Waiting\<close>

text \<open>A message that arrives before the first timeout brings all of them nearer.\<close>

lemma timers_shift: "timers m (b + c) xs = map (\<lambda>(d, r). (d + c, r)) (timers m b xs)"
proof (induction xs arbitrary: b)
  case (Cons x xs)
  show ?case using Cons.IH by (cases "m x") (simp_all add: Let_def ac_simps, metis add.assoc add.commute)
qed simp

lemma sys_wait_message:
  assumes ok: "tq_ok s (t # xs)" and e: "ts_mem s t = Some e" "0 < to_time e" "time \<le> to_time e" "time \<noteq> SYS_ARCH_TIMEOUT"
  shows "\<exists>s'. sys_wait run (time # answers) s = Some (Received, s') \<and> tq_ok s' (t # xs) \<and>
     queue_of s' (t # xs) = map (\<lambda>(d, r). (d - unat time, r)) (queue_of s (t # xs))"
proof -
  note d = tq_okD [OF ok]
  define m where "m = (ts_mem s)(t \<mapsto> e\<lparr>to_time := to_time e - time\<rparr>)"
  let ?s = "s\<lparr>ts_mem := m\<rparr>"
  have hd: "ts_next s = Some t" "tseg (ts_mem s) (to_next e) xs" using d(2) e(1) by auto
  have run: "sys_wait run (time # answers) s = Some (Received, ?s)"
    using hd e by (subst sys_wait.simps) (simp add: timeout_elapse_def to_upd_def m_def)
  have keep: "m x = ts_mem s x" if "x \<in> set xs" for x using that d(1) by (auto simp: m_def)
  have mt: "m t = Some (e\<lparr>to_time := to_time e - time\<rparr>)" by (simp add: m_def)
  have sub: "unat (to_time e - time) = unat (to_time e) - unat time" "unat time \<le> unat (to_time e)"
    using e(3) by (simp_all add: unat_sub word_le_nat_alt)
  have xs: "timers m c xs = timers (ts_mem s) c xs" for c by (rule timers_cong) (simp add: keep)
  have "timers (ts_mem s) (unat (to_time e)) xs = map (\<lambda>(d, r). (d + unat time, r)) (timers (ts_mem s) (unat (to_time e) - unat time) xs)"
    using timers_shift [of "ts_mem s" "unat (to_time e) - unat time" "unat time" xs] sub(2) by simp
  then have q: "queue_of ?s (t # xs) = map (\<lambda>(d, r). (d - unat time, r)) (queue_of s (t # xs))"
    using e(1) mt sub xs by (simp add: queue_of_def Let_def comp_def split_beta)
  have "tq_ok ?s (t # xs)"
  proof (rule tq_okI [OF d(1)])
    have "tseg m (to_next e) xs" using hd(2) keep by (subst tseg_cong [of _ _ "ts_mem s"]) auto
    then show "tseg (ts_mem ?s) (ts_next ?s) (t # xs)" using hd(1) mt by simp
    show "ts_mem ?s a = None" if "ts_brk ?s \<le> a" for a using d(3) [of a] that e(1) by (auto simp: m_def)
    show "x < 2 ^ 32" if "(x, r) \<in> set (queue_of ?s (t # xs))" for x r
      using that d(4) unfolding q by (fastforce intro: le_less_trans [OF diff_le_self])
  qed
  then show ?thesis using run q by blast
qed

section \<open>Properties\<close>

definition ts_init :: sys_timeouts where
  "ts_init = \<lparr>ts_mem = Map.empty, ts_brk = 0, ts_next = None\<rparr>"

lemma ts_init_ok: "tq_ok ts_init []" "queue_of ts_init [] = []"
  by (simp_all add: tq_ok_def ts_init_def queue_of_def)

text \<open>
  C15: The list of differences implements a queue of timers ordered by the time of expiry: arming a
  timer inserts it after those that do not expire later and leaves the times of all the others,
  disarming takes out the first timer with that handler and argument, and a message that arrives
  after some milliseconds brings every timer nearer by that much.  No subtraction or addition of the
  32-bit times wraps around.
\<close>

theorem timeouts_refine:
  assumes "tq_ok s xs"
  shows "(\<exists>s' ys. sys_timeout True ms h arg s = Some s' \<and> tq_ok s' ys \<and>
            queue_of s' ys = insert_timer (unat ms, h, arg) (queue_of s xs)) \<and>
     (\<exists>s' ys. sys_untimeout h arg s = Some s' \<and> tq_ok s' ys \<and> queue_of s' ys = cancel_timer h arg (queue_of s xs)) \<and>
     (\<forall>t zs e. xs = t # zs \<and> ts_mem s t = Some e \<and> 0 < to_time e \<and> time \<le> to_time e \<and> time \<noteq> SYS_ARCH_TIMEOUT \<longrightarrow>
        (\<exists>s'. sys_wait run (time # answers) s = Some (Received, s') \<and> tq_ok s' xs \<and>
           queue_of s' xs = map (\<lambda>(d, r). (d - unat time, r)) (queue_of s xs)))"
  using sys_timeout_ok [OF assms, of ms h arg] sys_untimeout_ok [OF assms, of h arg] sys_wait_message assms by blast

theorem timeouts_refine_witness:
  "\<exists>s1 xs s2 ys. sys_timeout True 500 (Some 1) 0 ts_init = Some s1 \<and> tq_ok s1 xs \<and>
     sys_timeout True 200 (Some 2) 0 s1 = Some s2 \<and> tq_ok s2 ys \<and> queue_of s2 ys = [(200, Some 2, 0), (500, Some 1, 0)]"
proof -
  obtain s1 xs where 1: "sys_timeout True 500 (Some 1) 0 ts_init = Some s1" "tq_ok s1 xs" "queue_of s1 xs = insert_timer (unat (500 :: 32 word), Some 1, 0) []"
    using conjunct1 [OF timeouts_refine [OF ts_init_ok(1), of 500 "Some 1" 0]] unfolding ts_init_ok(2) by blast
  obtain s2 ys where "sys_timeout True 200 (Some 2) 0 s1 = Some s2" "tq_ok s2 ys" "queue_of s2 ys = insert_timer (unat (200 :: 32 word), Some 2, 0) (queue_of s1 xs)"
    using conjunct1 [OF timeouts_refine [OF 1(2), of 200 "Some 2" 0]] by blast
  then show ?thesis using 1 by (auto simp: insert_timer_def)
qed

text \<open>
  C40: When a timeout that was armed by \<open>sys_timeout\<close> expires, its element is given back to the
  allocator and then read again, after the handler: \<open>sys_mbox_fetch\<close> and \<open>sys_sem_wait\<close> use freed
  memory.
\<close>

theorem expired_timeout_freed:
  assumes "ts_next s = Some t" "ts_mem s t = Some e" "\<not> to_raw e" "to_time e = 0"
    and "\<And>h s1. to_h e = Some h \<Longrightarrow> run h (to_arg e) (s\<lparr>ts_next := to_next e, ts_mem := (ts_mem s)(t := None)\<rparr>) = Some s1 \<Longrightarrow> ts_mem s1 t = None"
  shows "sys_mbox_fetch run answers s = None \<and> sys_sem_wait run answers s = None"
proof -
  let ?s = "s\<lparr>ts_next := to_next e, ts_mem := (ts_mem s)(t := None)\<rparr>"
  have "timeout_expire run t s = None"
  proof (cases "to_h e")
    case None
    then show ?thesis using assms by (simp add: timeout_expire_def memp_free_def Let_def)
  next
    case (Some h)
    then show ?thesis using assms by (cases "run h (to_arg e) ?s") (simp_all add: timeout_expire_def memp_free_def Let_def)
  qed
  then have "sys_wait run answers s = None" using assms by (subst sys_wait.simps) simp
  then show ?thesis by (simp add: sys_mbox_fetch_def sys_sem_wait_def)
qed

theorem expired_timeout_freed_witness:
  "sys_mbox_fetch (\<lambda>_ _ s. Some s) [] \<lparr>ts_mem = [0 \<mapsto> \<lparr>to_next = None, to_time = 0, to_h = Some 1, to_arg = 0, to_raw = False\<rparr>], ts_brk = 1, ts_next = Some 0\<rparr> = None"
  by (rule conjunct1 [OF expired_timeout_freed]) auto

end
