(* ===== verification/Refcount.thy ===== *)
theory Refcount
  imports View_Prelude
begin

text \<open>
  Heap objects shared by several processes with a counter of their users: the file system data
  (\<open>struct pcb_fs\<close>) and the supplementary groups (\<open>struct supgroups\<close>) of \<open>sctab.c\<close>.
\<close>

definition users :: "('i \<Rightarrow> addr option) \<Rightarrow> 'i set \<Rightarrow> addr \<Rightarrow> 'i set" where
  "users ref B a = {i \<in> B. ref i = Some a}"

text \<open>
  Every user refers to an object that is allocated, and the counter of an allocated object is the
  number of its users, which is not 0.
\<close>

definition rc_ok :: "('x \<Rightarrow> int) \<Rightarrow> (addr \<rightharpoonup> 'x) \<Rightarrow> ('i \<Rightarrow> addr option) \<Rightarrow> 'i set \<Rightarrow> bool" where
  "rc_ok cnt m ref B \<longleftrightarrow> finite B \<and> (\<forall>i \<in> B. \<exists>a x. ref i = Some a \<and> m a = Some x) \<and>
     (\<forall>a x. m a = Some x \<longrightarrow> cnt x = int (card (users ref B a)) \<and> users ref B a \<noteq> {})"

lemma rc_okI:
  assumes "finite B" "\<And>i. i \<in> B \<Longrightarrow> \<exists>a x. ref i = Some a \<and> m a = Some x"
    and "\<And>a x. m a = Some x \<Longrightarrow> cnt x = int (card (users ref B a)) \<and> users ref B a \<noteq> {}"
  shows "rc_ok cnt m ref B"
  using assms unfolding rc_ok_def by blast

lemma rc_okD:
  assumes "rc_ok cnt m ref B"
  shows "finite B" "i \<in> B \<Longrightarrow> \<exists>a x. ref i = Some a \<and> m a = Some x"
    and "m a = Some x \<Longrightarrow> cnt x = int (card (users ref B a))" "m a = Some x \<Longrightarrow> users ref B a \<noteq> {}"
  using assms unfolding rc_ok_def by blast+

lemma users_insert:
  assumes "i \<notin> B" "\<And>j. j \<in> B \<Longrightarrow> ref' j = ref j"
  shows "users ref' (insert i B) a = (if ref' i = Some a then insert i (users ref B a) else users ref B a)"
  using assms unfolding users_def by auto

lemma users_remove: "users ref (B - {i}) a = users ref B a - {i}"
  unfolding users_def by auto

lemma users_cong: "(\<And>j. j \<in> B \<Longrightarrow> ref' j = ref j) \<Longrightarrow> users ref' B = users ref B"
  unfolding users_def by auto

lemma rc_ok_cong: "(\<And>j. j \<in> B \<Longrightarrow> ref' j = ref j) \<Longrightarrow> rc_ok cnt m ref B \<Longrightarrow> rc_ok cnt m ref' B"
  unfolding rc_ok_def using users_cong [of B ref' ref] by auto

lemma rc_ok_empty: "rc_ok cnt Map.empty ref {}"
  by (simp add: rc_ok_def)

lemma rc_count_pos: "rc_ok cnt m ref B \<Longrightarrow> m a = Some x \<Longrightarrow> 0 < cnt x"
  using rc_okD(1) [of cnt m ref B] rc_okD(3,4) [of cnt m ref B a x] by (auto simp: card_gt_0_iff users_def)

lemma rc_count_le: "rc_ok cnt m ref B \<Longrightarrow> m a = Some x \<Longrightarrow> cnt x \<le> int (card B)"
  using rc_okD(1) [of cnt m ref B] rc_okD(3) [of cnt m ref B a x] by (auto intro: card_mono simp: users_def)

text \<open>The contract of the operations on the counter, and what they do to the users.\<close>

locale refcounted =
  fixes cnt :: "'x \<Rightarrow> int"
    and get :: "addr \<Rightarrow> (addr \<rightharpoonup> 'x) \<Rightarrow> (addr \<rightharpoonup> 'x) option"
    and put :: "addr \<Rightarrow> (addr \<rightharpoonup> 'x) \<Rightarrow> (addr \<rightharpoonup> 'x) option"
  assumes get_inc: "m a = Some x \<Longrightarrow> \<exists>x'. get a m = Some (m(a \<mapsto> x')) \<and> cnt x' = cnt x + 1"
    and put_dec: "m a = Some x \<Longrightarrow> cnt x \<noteq> 1 \<Longrightarrow> \<exists>x'. put a m = Some (m(a \<mapsto> x')) \<and> cnt x' = cnt x - 1"
    and put_last: "m a = Some x \<Longrightarrow> cnt x = 1 \<Longrightarrow> put a m = Some (m(a := None))"
    and get_None: "m a = None \<Longrightarrow> get a m = None"
begin

lemma new_user:
  assumes ok: "rc_ok cnt m ref B" and i: "i \<notin> B" "m a = None" "cnt x = 1" and r: "ref' i = Some a" "\<And>j. j \<in> B \<Longrightarrow> ref' j = ref j"
  shows "rc_ok cnt (m(a \<mapsto> x)) ref' (insert i B)"
proof (rule rc_okI)
  note u = users_insert [of i B ref' ref, OF i(1) r(2)]
  have e: "users ref B a = {}" using rc_okD(2) [OF ok] i(2) unfolding users_def by fastforce
  fix b y assume "(m(a \<mapsto> x)) b = Some y"
  then show "cnt y = int (card (users ref' (insert i B) b)) \<and> users ref' (insert i B) b \<noteq> {}"
    using i(3) rc_okD(3,4) [OF ok, of b y] by (auto simp: u e r split: if_splits)
next
  fix j assume "j \<in> insert i B"
  then show "\<exists>b y. ref' j = Some b \<and> (m(a \<mapsto> x)) b = Some y"
    using rc_okD(2) [OF ok, of j] r by fastforce
qed (use rc_okD(1) [OF ok] in simp)

lemma share:
  assumes ok: "rc_ok cnt m ref B" and i: "i \<notin> B" "p \<in> B" "ref p = Some a" and r: "ref' i = Some a" "\<And>j. j \<in> B \<Longrightarrow> ref' j = ref j"
  shows "\<exists>m'. get a m = Some m' \<and> rc_ok cnt m' ref' (insert i B) \<and> dom m' = dom m"
proof -
  note u = users_insert [of i B ref' ref, OF i(1) r(2)]
  obtain x where x: "m a = Some x" using rc_okD(2) [OF ok i(2)] i(3) by auto
  obtain x' where g: "get a m = Some (m(a \<mapsto> x'))" "cnt x' = cnt x + 1" using get_inc [of m a x, OF x] by blast
  have u1: "i \<notin> users ref B a" "finite (users ref B a)" using i(1) rc_okD(1) [OF ok] by (auto simp: users_def)
  have "rc_ok cnt (m(a \<mapsto> x')) ref' (insert i B)"
  proof (intro rc_okI)
    fix b y assume "(m(a \<mapsto> x')) b = Some y"
    then show "cnt y = int (card (users ref' (insert i B) b)) \<and> users ref' (insert i B) b \<noteq> {}"
      using g(2) rc_okD(3,4) [OF ok, of b] x u1 by (auto simp: u r split: if_splits)
  next
    fix j assume "j \<in> insert i B"
    then show "\<exists>b y. ref' j = Some b \<and> (m(a \<mapsto> x')) b = Some y" using rc_okD(2) [OF ok, of j] r by fastforce
  qed (use rc_okD(1) [OF ok] in simp)
  then show ?thesis using g(1) x by auto
qed

lemma drop_user:
  assumes ok: "rc_ok cnt m ref B" and i: "i \<in> B" "ref i = Some a"
  shows "\<exists>m'. put a m = Some m' \<and> rc_ok cnt m' ref (B - {i}) \<and> dom m' \<subseteq> dom m"
proof -
  obtain x where x: "m a = Some x" using rc_okD(2) [OF ok i(1)] i(2) by auto
  have fin: "finite (users ref B b)" for b using rc_okD(1) [OF ok] by (simp add: users_def)
  have ia: "i \<in> users ref B b \<longleftrightarrow> b = a" for b using i by (auto simp: users_def)
  have c: "card (users ref B b - {i}) = card (users ref B b) - (if b = a then 1 else 0)" for b
    using ia [of b] fin by (auto simp: card_Diff_singleton_if)
  show ?thesis
  proof (cases "cnt x = 1")
    case True
    then have one: "users ref B a = {i}" using rc_okD(3) [OF ok x] ia [of a] by (auto simp: card_1_singleton_iff)
    have "rc_ok cnt (m(a := None)) ref (B - {i})"
    proof (rule rc_okI)
      fix j assume j: "j \<in> B - {i}"
      then have "j \<notin> users ref B a" using one by auto
      then show "\<exists>b y. ref j = Some b \<and> (m(a := None)) b = Some y"
        using rc_okD(2) [OF ok, of j] j by (auto simp: users_def)
    next
      fix b y assume "(m(a := None)) b = Some y"
      then show "cnt y = int (card (users ref (B - {i}) b)) \<and> users ref (B - {i}) b \<noteq> {}"
        using rc_okD(3,4) [OF ok, of b y] ia [of b] by (auto simp: users_remove split: if_splits)
    qed (use rc_okD(1) [OF ok] in simp)
    then show ?thesis using put_last [of m a x] x True by auto
  next
    case False
    obtain x' where g: "put a m = Some (m(a \<mapsto> x'))" "cnt x' = cnt x - 1" using put_dec [of m a x, OF x False] by blast
    have "rc_ok cnt (m(a \<mapsto> x')) ref (B - {i})"
    proof (rule rc_okI)
      fix b y assume y: "(m(a \<mapsto> x')) b = Some y"
      have "card (users ref B a) \<noteq> 0" "card (users ref B a) \<noteq> 1"
        using rc_okD(3,4) [OF ok x] False fin [of a] by auto
      then have "0 < card (users ref B a - {i})" using c [of a] by simp
      then have "users ref B a - {i} \<noteq> {}" by (metis card.empty less_irrefl)
      then show "cnt y = int (card (users ref (B - {i}) b)) \<and> users ref (B - {i}) b \<noteq> {}"
        using y g(2) rc_okD(3,4) [OF ok, of b] x c [of b] ia [of b] rc_count_pos [OF ok x]
        by (auto simp: users_remove split: if_splits)
    next
      fix j assume "j \<in> B - {i}"
      then show "\<exists>b y. ref j = Some b \<and> (m(a \<mapsto> x')) b = Some y" using rc_okD(2) [OF ok, of j] by auto
    qed (use rc_okD(1) [OF ok] in simp)
    then show ?thesis using g(1) x by auto
  qed
qed

end

end
