(* ===== verification/Pcb.thy ===== *)
theory Pcb
  imports Refcount Hashtab Treepoch_Views Canonicalize
begin

text \<open>
  Model of the process descriptors: the table of \<open>capture_um.c\<close> (\<open>newpcb\<close>, \<open>pid2pcb\<close>, \<open>droppcb\<close>,
  \<open>handle_new_proc\<close>) and what \<open>sctab.c\<close> keeps in a descriptor (\<open>pcb_plus\<close>, \<open>pcb_minus\<close>, the
  supplementary groups, the tests of the permissions and the calls it nests).

  A \<open>struct pcb *\<close> is the index of the descriptor in \<open>pcbtab\<close>, since a descriptor never moves:
  the table grows by a new block.  An allocation never fails.  The fields of a descriptor that only
  other files use (the file table, the poll status, the lists of mmap and select) are not here, and
  \<open>pcb_constructor\<close> and \<open>pcb_destructor\<close> are the functions of \<open>sctab.c\<close> among those they call.
\<close>

section \<open>Data\<close>

definition PCB_INUSE :: "16 word" where "PCB_INUSE = 0x1"
definition PCB_STARTING :: "16 word" where "PCB_STARTING = 0x8"
definition PCBSIZE :: nat where "PCBSIZE = 10"
definition NOSC :: int where "NOSC = -1"

definition CLONE_FS :: "32 word" where "CLONE_FS = 0x200"
definition CLONE_PARENT :: "32 word" where "CLONE_PARENT = 0x8000"

definition E_PERM :: int where "E_PERM = 1"
definition E_IO :: int where "E_IO = 5"
definition E_ACCES :: int where "E_ACCES = 13"
definition E_ROFS :: int where "E_ROFS = 30"

text \<open>The field \<open>path\<close>: NULL, \<open>um_patherror\<close> or an allocated string.\<close>

datatype pathptr = PATH_NULL | PATH_ERR | PATH addr

record pcb =
  pc_flags :: "16 word"
  pc_pid :: int
  pc_umpid :: int
  pc_pp :: "nat option"
  pc_sysscno :: int
  pc_sysargs :: "u64 list"
  pc_retval :: int
  pc_erno :: int
  pc_path :: pathptr
  pc_tmpfile :: "string option"
  pc_needs_path_rewrite :: bool
  pc_private_scno :: "16 word"
  pc_hte :: "addr option"
  pc_tst :: timestamp
  pc_nestepoch :: epoch_t
  pc_ruid :: "32 word"
  pc_euid :: "32 word"
  pc_suid :: "32 word"
  pc_fsuid :: "32 word"
  pc_rgid :: "32 word"
  pc_egid :: "32 word"
  pc_sgid :: "32 word"
  pc_fsgid :: "32 word"
  pc_grouplist :: "addr option"
  pc_fdfs :: "addr option"

text \<open>A descriptor as \<open>calloc\<close> returns it.\<close>

definition pcb_zero :: pcb where
  "pcb_zero = \<lparr>pc_flags = 0, pc_pid = 0, pc_umpid = 0, pc_pp = None, pc_sysscno = 0, pc_sysargs = replicate 6 0,
     pc_retval = 0, pc_erno = 0, pc_path = PATH_NULL, pc_tmpfile = None, pc_needs_path_rewrite = False, pc_private_scno = 0,
     pc_hte = None, pc_tst = \<lparr>tst_epoch = 0, tst_te = None\<rparr>, pc_nestepoch = 0,
     pc_ruid = 0, pc_euid = 0, pc_suid = 0, pc_fsuid = 0, pc_rgid = 0, pc_egid = 0, pc_sgid = 0, pc_fsgid = 0,
     pc_grouplist = None, pc_fdfs = None\<rparr>"

record pcb_fs =
  fs_count :: int
  fs_cwd :: string
  fs_root :: string
  fs_mask :: "32 word"

record supgroups =
  sg_count :: int
  sg_list :: "32 word list"

text \<open>The calls of \<open>service_ctl\<close> for the modules that follow the processes.\<close>

datatype proc_event = Proc_add int int nat | Proc_rem int

record pcbsys =
  pt_tab :: "pcb list"
  pt_nprocs :: int
  pt_fs :: "addr \<rightharpoonup> pcb_fs"
  pt_fsbrk :: addr
  pt_grp :: "addr \<rightharpoonup> supgroups"
  pt_grpbrk :: addr
  pt_te :: te_state
  pt_host_uid :: "32 word"
  pt_host_gid :: "32 word"
  pt_log :: "proc_event list"

text \<open>What the host tells about the process that runs the monitor.\<close>

record hostids =
  hi_cwd :: string
  hi_umask :: "32 word"
  hi_uids :: "32 word \<times> 32 word \<times> 32 word"
  hi_gids :: "32 word \<times> 32 word \<times> 32 word"
  hi_groups :: "32 word list"

definition pcb_at :: "pcbsys \<Rightarrow> nat \<Rightarrow> pcb option" where
  "pcb_at s i = (if i < length (pt_tab s) then Some (pt_tab s ! i) else None)"

definition pcb_set :: "nat \<Rightarrow> pcb \<Rightarrow> pcbsys \<Rightarrow> pcbsys" where
  "pcb_set i pc s = s\<lparr>pt_tab := (pt_tab s)[i := pc]\<rparr>"

definition pcb_deref :: "pcbsys \<Rightarrow> nat option \<Rightarrow> pcb option" where
  "pcb_deref s p = Option.bind p (pcb_at s)"

section \<open>Supplementary groups and privileges\<close>

definition supgrp_create :: "32 word list \<Rightarrow> pcbsys \<Rightarrow> addr \<times> pcbsys" where
  "supgrp_create gids s = (pt_grpbrk s,
     s\<lparr>pt_grp := (pt_grp s)(pt_grpbrk s \<mapsto> \<lparr>sg_count = 1, sg_list = gids\<rparr>), pt_grpbrk := pt_grpbrk s + 1\<rparr>)"

definition supgrp_get :: "addr \<Rightarrow> (addr \<rightharpoonup> supgroups) \<Rightarrow> (addr \<rightharpoonup> supgroups) option" where
  "supgrp_get a m = (case m a of None \<Rightarrow> None | Some g \<Rightarrow> Some (m(a \<mapsto> g\<lparr>sg_count := sg_count g + 1\<rparr>)))"

definition supgrp_put :: "addr \<Rightarrow> (addr \<rightharpoonup> supgroups) \<Rightarrow> (addr \<rightharpoonup> supgroups) option" where
  "supgrp_put a m = (case m a of None \<Rightarrow> None
     | Some g \<Rightarrow> let oldval = sg_count g; m = m(a \<mapsto> g\<lparr>sg_count := sg_count g - 1\<rparr>) in
         Some (if oldval = 1 then m(a := None) else m))"

definition in_supgrplist :: "32 word \<Rightarrow> pcbsys \<Rightarrow> pcb \<Rightarrow> bool option" where
  "in_supgrplist gid s pc = do { a \<leftarrow> pc_grouplist pc; g \<leftarrow> pt_grp s a; Some (gid \<in> set (sg_list g)) }"

definition capcheck :: "pcb \<Rightarrow> int" where
  "capcheck pc = (if pc_euid pc = 0 then 0 else -1)"

section \<open>New and ending processes\<close>

definition fs_get :: "addr \<Rightarrow> (addr \<rightharpoonup> pcb_fs) \<Rightarrow> (addr \<rightharpoonup> pcb_fs) option" where
  "fs_get a m = (case m a of None \<Rightarrow> None | Some f \<Rightarrow> Some (m(a \<mapsto> f\<lparr>fs_count := fs_count f + 1\<rparr>)))"

definition fs_put :: "addr \<Rightarrow> (addr \<rightharpoonup> pcb_fs) \<Rightarrow> (addr \<rightharpoonup> pcb_fs) option" where
  "fs_put a m = (case m a of None \<Rightarrow> None
     | Some f \<Rightarrow> let f = f\<lparr>fs_count := fs_count f - 1\<rparr> in
         Some (if fs_count f = 0 then m(a := None) else m(a \<mapsto> f)))"

definition fs_new :: "pcb_fs \<Rightarrow> pcbsys \<Rightarrow> addr \<times> pcbsys" where
  "fs_new f s = (pt_fsbrk s, s\<lparr>pt_fs := (pt_fs s)(pt_fsbrk s \<mapsto> f), pt_fsbrk := pt_fsbrk s + 1\<rparr>)"

text \<open>The file system data of the new process \<open>i\<close>, whose parent pointer is set.\<close>

definition pcb_plus_fs :: "hostids \<Rightarrow> pcbsys \<Rightarrow> nat \<Rightarrow> bool \<Rightarrow> 32 word \<Rightarrow> pcbsys option" where
  "pcb_plus_fs h s i rootprocess flags = do {
     pc \<leftarrow> pcb_at s i;
     if flags AND CLONE_FS \<noteq> 0 then do {
       pp \<leftarrow> pcb_deref s (pc_pp pc);
       a \<leftarrow> pc_fdfs pp;
       m \<leftarrow> fs_get a (pt_fs s);
       Some (pcb_set i (pc\<lparr>pc_fdfs := Some a\<rparr>) (s\<lparr>pt_fs := m\<rparr>))
     }
     else if rootprocess then
       (let (a, s) = fs_new \<lparr>fs_count = 1, fs_cwd = hi_cwd h, fs_root = ''/'', fs_mask = hi_umask h\<rparr> s in
        Some (pcb_set i (pc\<lparr>pc_fdfs := Some a\<rparr>) s))
     else do {
       pp \<leftarrow> pcb_deref s (pc_pp pc);
       f \<leftarrow> Option.bind (pc_fdfs pp) (pt_fs s);
       let (a, s) = fs_new (f\<lparr>fs_count := 1\<rparr>) s;
       Some (pcb_set i (pc\<lparr>pc_fdfs := Some a\<rparr>) s)
     }
   }"

text \<open>The user and the group identities of the first process, and of a process with a parent.\<close>

definition pcb_plus_root :: "bool \<Rightarrow> hostids \<Rightarrow> pcbsys \<Rightarrow> nat \<Rightarrow> pcbsys option" where
  "pcb_plus_root secure h s i = do {
     pc \<leftarrow> pcb_at s i;
     (t, te) \<leftarrow> tst_newfork (pt_te s) None;
     let (ru, eu, su) = (if secure then (0, 0, 0) else hi_uids h);
     let (rg, eg, sg) = (if secure then (0, 0, 0) else hi_gids h);
     let (g, s) = supgrp_create (hi_groups h) (s\<lparr>pt_te := te, pt_host_uid := fst (snd (hi_uids h)), pt_host_gid := fst (snd (hi_gids h))\<rparr>);
     Some (pcb_set i (pc\<lparr>pc_tst := t, pc_ruid := ru, pc_euid := eu, pc_suid := su, pc_rgid := rg, pc_egid := eg, pc_sgid := sg,
       pc_fsuid := eu, pc_fsgid := eg, pc_hte := None, pc_grouplist := Some g\<rparr>) s)
   }"

definition pcb_plus_child :: "pcbsys \<Rightarrow> nat \<Rightarrow> pcbsys option" where
  "pcb_plus_child s i = do {
     pc \<leftarrow> pcb_at s i;
     pp \<leftarrow> pcb_deref s (pc_pp pc);
     g \<leftarrow> pc_grouplist pp;
     m \<leftarrow> supgrp_get g (pt_grp s);
     Some (pcb_set i (pc\<lparr>pc_ruid := pc_ruid pp, pc_euid := pc_euid pp, pc_fsuid := pc_euid pp, pc_suid := pc_suid pp,
       pc_rgid := pc_rgid pp, pc_egid := pc_egid pp, pc_fsgid := pc_egid pp, pc_sgid := pc_sgid pp,
       pc_hte := pc_hte pp, pc_grouplist := Some g\<rparr>) (s\<lparr>pt_grp := m\<rparr>))
   }"

definition um_proc_add :: "pcbsys \<Rightarrow> nat \<Rightarrow> pcbsys option" where
  "um_proc_add s i = do {
     pc \<leftarrow> pcb_at s i;
     ppid \<leftarrow> (case pc_pp pc of None \<Rightarrow> Some (-1) | Some p \<Rightarrow> map_option pc_umpid (pcb_at s p));
     Some (s\<lparr>pt_log := pt_log s @ [Proc_add (pc_umpid pc) ppid (length (pt_tab s))]\<rparr>)
   }"

definition um_proc_del :: "pcbsys \<Rightarrow> pcb \<Rightarrow> pcbsys" where
  "um_proc_del s pc = s\<lparr>pt_log := pt_log s @ [Proc_rem (pc_umpid pc)]\<rparr>"

definition pcb_plus :: "bool \<Rightarrow> hostids \<Rightarrow> pcbsys \<Rightarrow> nat \<Rightarrow> 32 word \<Rightarrow> bool \<Rightarrow> pcbsys option" where
  "pcb_plus secure h s i flags npcflag = do {
     pc \<leftarrow> pcb_at s i;
     let pc = pc\<lparr>pc_path := PATH_NULL, pc_tmpfile := None\<rparr>;
     if npcflag then Some (pcb_set i pc s)
     else do {
       let rootprocess = (pc_pp pc = Some i);
       pp \<leftarrow> (if flags AND CLONE_PARENT \<noteq> 0 then map_option pc_pp (pcb_deref s (pc_pp pc)) else Some (pc_pp pc));
       s \<leftarrow> pcb_plus_fs h (pcb_set i (pc\<lparr>pc_pp := pp\<rparr>) s) i rootprocess flags;
       s \<leftarrow> (if rootprocess then pcb_plus_root secure h s i else pcb_plus_child s i);
       pc \<leftarrow> pcb_at s i;
       ppc \<leftarrow> pcb_deref s (pc_pp pc);
       (t, te) \<leftarrow> tst_newproc (pt_te s) (pc_tst ppc);
       um_proc_add (pcb_set i (pc\<lparr>pc_tst := t\<rparr>) (s\<lparr>pt_te := te\<rparr>)) i
     }
   }"

definition pcb_minus :: "pcbsys \<Rightarrow> nat \<Rightarrow> bool \<Rightarrow> pcbsys option" where
  "pcb_minus s i npcbflag = do {
     pc \<leftarrow> pcb_at s i;
     if npcbflag then Some s
     else do {
       let s = um_proc_del s pc;
       a \<leftarrow> pc_fdfs pc;
       m \<leftarrow> fs_put a (pt_fs s);
       te \<leftarrow> tst_delproc (pt_te s) (pc_tst pc);
       g \<leftarrow> pc_grouplist pc;
       gm \<leftarrow> supgrp_put g (pt_grp s);
       Some (s\<lparr>pt_fs := m, pt_te := te, pt_grp := gm\<rparr>)
     }
   }"

definition pcb_newfork :: "pcbsys \<Rightarrow> nat \<Rightarrow> (int \<times> pcbsys) option" where
  "pcb_newfork s i = do {
     pc \<leftarrow> pcb_at s i;
     (t, te) \<leftarrow> tst_newfork (pt_te s) (Some (pc_tst pc));
     Some (if tst_te (pc_tst pc) = tst_te t then -1 else 0, pcb_set i (pc\<lparr>pc_tst := t\<rparr>) (s\<lparr>pt_te := te\<rparr>))
   }"

section \<open>The table of the descriptors\<close>

definition inuse :: "pcb \<Rightarrow> bool" where
  "inuse pc \<longleftrightarrow> pc_flags pc AND PCB_INUSE \<noteq> 0"

definition allocatepcbtab :: "pcb list" where
  "allocatepcbtab = replicate PCBSIZE pcb_zero"

fun first_unused :: "pcb list \<Rightarrow> nat" where
  "first_unused [] = 0"
| "first_unused (pc # pcs) = (if \<not> inuse pc then 0 else Suc (first_unused pcs))"

text \<open>\<open>pcbtabsize\<close> is an \<open>int\<close>: doubling more than \<open>2 ^ 29\<close> entries is undefined.\<close>

definition newpcb :: "int \<Rightarrow> pcbsys \<Rightarrow> (nat \<times> pcbsys) option" where
  "newpcb pid s =
     (let i = first_unused (pt_tab s) in do {
        tab \<leftarrow> (if i = length (pt_tab s) then
                  if i > 2 ^ 29 then None else Some (pt_tab s @ replicate (length (pt_tab s)) pcb_zero)
                else Some (pt_tab s));
        if i < length tab then
          Some (i, s\<lparr>pt_tab := tab[i := (tab ! i)\<lparr>pc_pid := pid, pc_umpid := int i + 1,
            pc_flags := PCB_INUSE OR PCB_STARTING, pc_sysscno := NOSC, pc_pp := None\<rparr>], pt_nprocs := pt_nprocs s + 1\<rparr>)
        else None
      })"

definition forallpcbdo :: "(pcb \<Rightarrow> pcb) \<Rightarrow> pcbsys \<Rightarrow> pcbsys" where
  "forallpcbdo f s = s\<lparr>pt_tab := map (\<lambda>pc. if inuse pc then f pc else pc) (pt_tab s)\<rparr>"

fun pid_search :: "int \<Rightarrow> pcb list \<Rightarrow> nat option" where
  "pid_search pid [] = None"
| "pid_search pid (pc # pcs) = (if pc_pid pc = pid \<and> inuse pc then Some 0 else map_option Suc (pid_search pid pcs))"

definition pid2pcb :: "pcbsys \<Rightarrow> int \<Rightarrow> nat option" where
  "pid2pcb s pid = pid_search pid (pt_tab s)"

definition cut_pp :: "nat \<Rightarrow> pcb \<Rightarrow> pcb" where
  "cut_pp delpc pc = (if pc_pp pc = Some delpc then pc\<lparr>pc_pp := None\<rparr> else pc)"

definition droppcb :: "pcbsys \<Rightarrow> nat \<Rightarrow> pcbsys option" where
  "droppcb s i = do {
     s \<leftarrow> pcb_minus (forallpcbdo (cut_pp i) (s\<lparr>pt_nprocs := pt_nprocs s - 1\<rparr>)) i False;
     pc \<leftarrow> pcb_at s i;
     Some (pcb_set i (pc\<lparr>pc_flags := 0\<rparr>) s)
   }"

text \<open>
  The process \<open>pid\<close> is seen for the first time (\<open>pp\<close> is NULL), or its parent \<open>pp\<close> returns from the
  call that created it, whose third argument has the flags.
\<close>

definition handle_new_proc :: "bool \<Rightarrow> hostids \<Rightarrow> pcbsys \<Rightarrow> int \<Rightarrow> nat option \<Rightarrow> pcbsys option" where
  "handle_new_proc secure h s pid pp = do {
     let oldpc = pid2pcb s pid;
     (i, s) \<leftarrow> (case oldpc of Some i \<Rightarrow> Some (i, s) | None \<Rightarrow> newpcb pid s);
     (case pp of
        None \<Rightarrow> Some s
      | Some p \<Rightarrow> do {
          pc \<leftarrow> pcb_at s i;
          let s = pcb_set i (pc\<lparr>pc_pp := pp\<rparr>) s;
          pc \<leftarrow> pcb_at s i;
          par \<leftarrow> pcb_at s p;
          let pc = (if oldpc \<noteq> None then pc\<lparr>pc_flags := pc_flags pc AND NOT PCB_STARTING\<rparr>
                    else pc\<lparr>pc_sysargs := (pc_sysargs pc)[0 := pc_sysargs par ! 0, 1 := pc_sysargs par ! 1]\<rparr>);
          let s = pcb_set i pc s;
          par \<leftarrow> pcb_at s p;
          pcb_plus secure h s i (ucast (pc_sysargs par ! 2)) False
        })
   }"

end
