(* ===== verification/Um_Misc.thy ===== *)
theory Um_Misc
  imports Pcb
begin

text \<open>
  Model of \<open>um_misc.c\<close>: the system calls on the identities of a process, on priorities, process
  groups and supplementary groups.  On x86-64 the calls with 32-bit identifiers have the same numbers
  as those with 16-bit ones (\<open>uid16to32.h\<close>).

  Every wrapper returns \<open>SC_FAKE\<close>, so its value is the new descriptor.  \<open>um_syscall\<close> is the function
  of the module that manages the call: its return value, the \<open>errno\<close> it leaves and the descriptor,
  which it may change; for the calls that return identifiers through pointers also the three values.
\<close>

section \<open>Numbers of the system calls\<close>

definition NR_getuid :: int where "NR_getuid = 102"
definition NR_getgid :: int where "NR_getgid = 104"
definition NR_setuid :: int where "NR_setuid = 105"
definition NR_setgid :: int where "NR_setgid = 106"
definition NR_geteuid :: int where "NR_geteuid = 107"
definition NR_getegid :: int where "NR_getegid = 108"
definition NR_setreuid :: int where "NR_setreuid = 113"
definition NR_setregid :: int where "NR_setregid = 114"
definition NR_setresuid :: int where "NR_setresuid = 117"
definition NR_getresuid :: int where "NR_getresuid = 118"
definition NR_setresgid :: int where "NR_setresgid = 119"
definition NR_getresgid :: int where "NR_getresgid = 120"
definition NR_setfsuid :: int where "NR_setfsuid = 122"
definition NR_setfsgid :: int where "NR_setfsgid = 123"

lemmas NR_defs = NR_getuid_def NR_getgid_def NR_setuid_def NR_setgid_def NR_geteuid_def NR_getegid_def
  NR_setreuid_def NR_setregid_def NR_setresuid_def NR_getresuid_def NR_setresgid_def NR_getresgid_def
  NR_setfsuid_def NR_setfsgid_def

definition id16to32 :: "32 word \<Rightarrow> 32 word" where
  "id16to32 uid = (if uid = 0xFFFF then -1 else uid)"

definition id32to16 :: "32 word \<Rightarrow> 32 word" where
  "id32to16 uid = (if uid = -1 then 0xFFFF else uid)"

type_synonym um_set = "int list \<Rightarrow> pcb \<Rightarrow> int \<times> int \<times> pcb"
type_synonym um_get = "pcb \<Rightarrow> int \<times> int \<times> (32 word \<times> 32 word \<times> 32 word) \<times> pcb"

definition sysarg :: "pcb \<Rightarrow> nat \<Rightarrow> 32 word" where
  "sysarg pc n = ucast (pc_sysargs pc ! n)"

section \<open>Checks\<close>

definition checksecureuid :: "pcb \<Rightarrow> 32 word \<Rightarrow> 32 word \<Rightarrow> 32 word \<Rightarrow> 32 word \<Rightarrow> int" where
  "checksecureuid pc ruid euid suid fsuid =
     (if capcheck pc \<noteq> 0 then
        if (ruid \<noteq> -1 \<and> ruid \<noteq> pc_ruid pc \<and> ruid \<noteq> pc_suid pc) \<or>
           (euid \<noteq> -1 \<and> euid \<noteq> pc_ruid pc \<and> euid \<noteq> pc_euid pc \<and> euid \<noteq> pc_suid pc) \<or>
           (suid \<noteq> -1 \<and> suid \<noteq> pc_suid pc) \<or>
           (fsuid \<noteq> -1 \<and> fsuid \<noteq> pc_fsuid pc)
        then -1 else 0
      else 0)"

definition checksecuregid :: "pcb \<Rightarrow> 32 word \<Rightarrow> 32 word \<Rightarrow> 32 word \<Rightarrow> 32 word \<Rightarrow> int" where
  "checksecuregid pc rgid egid sgid fsgid =
     (if capcheck pc \<noteq> 0 then 0
      else
        if (rgid \<noteq> -1 \<and> rgid \<noteq> pc_rgid pc \<and> rgid \<noteq> pc_sgid pc) \<or>
           (egid \<noteq> -1 \<and> egid \<noteq> pc_rgid pc \<and> egid \<noteq> pc_egid pc \<and> egid \<noteq> pc_sgid pc) \<or>
           (sgid \<noteq> -1 \<and> sgid \<noteq> pc_sgid pc) \<or>
           (fsgid \<noteq> -1 \<and> fsgid \<noteq> pc_fsgid pc)
        then -1 else 0)"

definition eperm :: "pcb \<Rightarrow> pcb" where
  "eperm pc = pc\<lparr>pc_retval := -1, pc_erno := E_PERM\<rparr>"

text \<open>\<open>if ((pc->retval = um_syscall(...)) < 0) pc->erno = errno\<close>\<close>

definition um_call :: "um_set \<Rightarrow> int list \<Rightarrow> pcb \<Rightarrow> pcb" where
  "um_call um_syscall args pc = (let (rv, er, pc) = um_syscall args pc; pc = pc\<lparr>pc_retval := rv\<rparr> in
     if rv < 0 then pc\<lparr>pc_erno := er\<rparr> else pc)"

definition done_ok :: "pcb \<Rightarrow> pcb" where
  "done_ok pc = pc\<lparr>pc_retval := 0, pc_erno := 0\<rparr>"

section \<open>Reading the identities\<close>

text \<open>A \<open>uid_t\<close> stored at the address of \<open>retval\<close>, which is a \<open>long\<close>: the lower half changes.\<close>

definition set_low32 :: "int \<Rightarrow> 32 word \<Rightarrow> int" where
  "set_low32 old v = (old div 2 ^ 32) * 2 ^ 32 + uint v"

definition wrap_in_getxid :: "int \<Rightarrow> pcb \<Rightarrow> addr option \<Rightarrow> um_get \<Rightarrow> pcb" where
  "wrap_in_getxid sc_number pc hte um_syscall =
     (if hte \<noteq> None then
        if sc_number \<in> {NR_getuid, NR_getgid, NR_geteuid, NR_getegid} then
          let (rv, er, (r, e, _), pc) = um_syscall pc;
              pc = pc\<lparr>pc_retval := set_low32 (pc_retval pc) (if sc_number \<in> {NR_getuid, NR_getgid} then r else e)\<rparr>
          in if rv < 0 then pc\<lparr>pc_retval := -1, pc_erno := er\<rparr> else pc
        else pc
      else
        let pc = (if sc_number = NR_getuid then pc\<lparr>pc_retval := uint (pc_ruid pc)\<rparr>
                  else if sc_number = NR_getgid then pc\<lparr>pc_retval := uint (pc_rgid pc)\<rparr>
                  else if sc_number = NR_geteuid then pc\<lparr>pc_retval := uint (pc_euid pc)\<rparr>
                  else if sc_number = NR_getegid then pc\<lparr>pc_retval := uint (pc_egid pc)\<rparr>
                  else pc)
        in pc\<lparr>pc_erno := 0\<rparr>)"

definition wrap_in_getxid16 :: "int \<Rightarrow> pcb \<Rightarrow> addr option \<Rightarrow> um_get \<Rightarrow> pcb" where
  "wrap_in_getxid16 sc_number pc hte um_syscall =
     (let pc = wrap_in_getxid sc_number pc hte um_syscall in
      pc\<lparr>pc_retval := (if pc_retval pc = 2 ^ 32 - 1 then 0xFFFF else pc_retval pc)\<rparr>)"

text \<open>The stores of \<open>getresuid\<close> and \<open>getresgid\<close> into the memory of the process: address, size and value.\<close>

definition store_ids :: "int \<Rightarrow> int \<Rightarrow> pcb \<Rightarrow> 32 word \<times> 32 word \<times> 32 word \<Rightarrow> (u64 \<times> nat \<times> 32 word) list" where
  "store_ids sc_number nr32 pc = (\<lambda>(r, e, s).
     map (\<lambda>(p, v). if sc_number \<noteq> nr32 then (p, 2, ucast (ucast (id32to16 v) :: 16 word)) else (p, 4, v))
       (filter (\<lambda>(p, v). p \<noteq> 0) (zip (pc_sysargs pc) [r, e, s])))"

definition wrap_in_getresuid :: "int \<Rightarrow> pcb \<Rightarrow> addr option \<Rightarrow> um_get \<Rightarrow> pcb \<times> (u64 \<times> nat \<times> 32 word) list" where
  "wrap_in_getresuid sc_number pc hte um_syscall =
     (let (rv, er, uids, pc) = (if hte \<noteq> None then um_syscall pc
            else (0, 0, (pc_ruid pc, pc_euid pc, pc_suid pc), pc\<lparr>pc_erno := 0\<rparr>));
          pc = pc\<lparr>pc_retval := rv\<rparr>
      in if rv \<ge> 0 then (pc, store_ids sc_number NR_getresuid pc uids)
         else (pc\<lparr>pc_erno := er\<rparr>, []))"

definition wrap_in_getresgid :: "int \<Rightarrow> pcb \<Rightarrow> addr option \<Rightarrow> um_get \<Rightarrow> pcb \<times> (u64 \<times> nat \<times> 32 word) list" where
  "wrap_in_getresgid sc_number pc hte um_syscall =
     (let (rv, er, gids, pc) = (if hte \<noteq> None then um_syscall pc
            else (0, 0, (pc_rgid pc, pc_egid pc, pc_sgid pc), pc\<lparr>pc_erno := 0\<rparr>));
          pc = pc\<lparr>pc_retval := rv\<rparr>
      in if rv \<ge> 0 then (pc, store_ids sc_number NR_getresgid pc gids)
         else (pc\<lparr>pc_erno := er\<rparr>, []))"

section \<open>Changing the user identities\<close>

definition wrap_in_setuid :: "bool \<Rightarrow> int \<Rightarrow> pcb \<Rightarrow> addr option \<Rightarrow> um_set \<Rightarrow> pcb" where
  "wrap_in_setuid secure sc_number pc hte um_syscall =
     (let uid = sysarg pc 0;
          uid = (if sc_number \<noteq> NR_setuid \<and> sc_number \<noteq> NR_setfsuid then id16to32 uid else uid);
          rv = (if sc_number = NR_setuid then checksecureuid pc uid (-1) (-1) (-1)
                else if sc_number = NR_setfsuid then checksecureuid pc (-1) (-1) (-1) uid else 0)
      in if secure \<and> rv \<noteq> 0 then eperm pc
         else if hte \<noteq> None then
           if sc_number = NR_setuid then um_call um_syscall [uint uid, -1, -1] pc
           else if sc_number = NR_setfsuid then um_call um_syscall [uint uid] pc
           else pc
         else done_ok
           (if sc_number = NR_setuid then
              if pc_euid pc = 0 then pc\<lparr>pc_ruid := uid, pc_euid := uid, pc_fsuid := uid\<rparr>
              else pc\<lparr>pc_euid := uid, pc_fsuid := uid\<rparr>
            else if sc_number = NR_setfsuid then pc\<lparr>pc_fsuid := uid\<rparr>
            else pc))"

definition wrap_in_setreuid :: "bool \<Rightarrow> int \<Rightarrow> pcb \<Rightarrow> addr option \<Rightarrow> um_set \<Rightarrow> pcb" where
  "wrap_in_setreuid secure sc_number pc hte um_syscall =
     (let conv = (\<lambda>uid. if sc_number \<noteq> NR_setreuid then id16to32 uid else uid);
          uid1 = conv (sysarg pc 0); uid2 = conv (sysarg pc 1)
      in if secure \<and> checksecureuid pc uid1 uid2 (-1) (-1) \<noteq> 0 then eperm pc
         else if hte \<noteq> None then um_call um_syscall [uint uid1, uint uid2, -1] pc
         else
           let pc = (if uid1 \<noteq> -1 then pc\<lparr>pc_ruid := uid1\<rparr> else pc);
               pc = (if uid2 \<noteq> -1 then pc\<lparr>pc_euid := uid2, pc_fsuid := uid2\<rparr> else pc)
           in done_ok pc)"

definition wrap_in_setresuid :: "bool \<Rightarrow> int \<Rightarrow> pcb \<Rightarrow> addr option \<Rightarrow> um_set \<Rightarrow> pcb" where
  "wrap_in_setresuid secure sc_number pc hte um_syscall =
     (let conv = (\<lambda>uid. if sc_number \<noteq> NR_setresuid then id16to32 uid else uid);
          uid1 = conv (sysarg pc 0); uid2 = conv (sysarg pc 1); uid3 = conv (sysarg pc 2)
      in if secure \<and> checksecureuid pc uid1 uid2 uid3 (-1) \<noteq> 0 then eperm pc
         else if hte \<noteq> None then um_call um_syscall [uint uid1, uint uid2, uint uid3] pc
         else
           let pc = (if uid1 \<noteq> -1 then pc\<lparr>pc_ruid := uid1\<rparr> else pc);
               pc = (if uid2 \<noteq> -1 then pc\<lparr>pc_euid := uid2, pc_fsuid := uid2\<rparr> else pc);
               pc = (if uid3 \<noteq> -1 then pc\<lparr>pc_suid := uid2\<rparr> else pc)
           in done_ok pc)"

section \<open>Changing the group identities\<close>

definition wrap_in_setgid :: "bool \<Rightarrow> int \<Rightarrow> pcb \<Rightarrow> addr option \<Rightarrow> um_set \<Rightarrow> pcb" where
  "wrap_in_setgid secure sc_number pc hte um_syscall =
     (let gid = sysarg pc 0;
          gid = (if sc_number \<noteq> NR_setgid \<and> sc_number \<noteq> NR_setfsgid then id16to32 gid else gid);
          rv = (if sc_number = NR_setgid then checksecuregid pc gid (-1) (-1) (-1)
                else if sc_number = NR_setfsgid then checksecuregid pc (-1) (-1) (-1) gid else 0)
      in if secure \<and> rv \<noteq> 0 then eperm pc
         else if hte \<noteq> None then
           if sc_number = NR_setgid then um_call um_syscall [uint gid, -1, -1] pc
           else if sc_number = NR_setfsgid then um_call um_syscall [uint gid] pc
           else pc
         else done_ok
           (if sc_number = NR_setgid then
              if pc_egid pc = 0 then pc\<lparr>pc_rgid := gid, pc_egid := gid, pc_fsgid := gid\<rparr>
              else pc\<lparr>pc_egid := gid, pc_fsgid := gid\<rparr>
            else if sc_number = NR_setfsgid then pc\<lparr>pc_fsgid := gid\<rparr>
            else pc))"

definition wrap_in_setregid :: "bool \<Rightarrow> int \<Rightarrow> pcb \<Rightarrow> addr option \<Rightarrow> um_set \<Rightarrow> pcb" where
  "wrap_in_setregid secure sc_number pc hte um_syscall =
     (let conv = (\<lambda>gid. if sc_number \<noteq> NR_setregid then id16to32 gid else gid);
          gid1 = conv (sysarg pc 0); gid2 = conv (sysarg pc 1)
      in if secure \<and> checksecuregid pc gid1 gid2 (-1) (-1) \<noteq> 0 then eperm pc
         else if hte \<noteq> None then um_call um_syscall [uint gid1, uint gid2, -1] pc
         else
           let pc = (if gid1 \<noteq> -1 then pc\<lparr>pc_rgid := gid1\<rparr> else pc);
               pc = (if gid2 \<noteq> -1 then pc\<lparr>pc_egid := gid2, pc_fsgid := gid2\<rparr> else pc)
           in done_ok pc)"

definition wrap_in_setresgid :: "bool \<Rightarrow> int \<Rightarrow> pcb \<Rightarrow> addr option \<Rightarrow> um_set \<Rightarrow> pcb" where
  "wrap_in_setresgid secure sc_number pc hte um_syscall =
     (let conv = (\<lambda>gid. if sc_number \<noteq> NR_setresgid then id16to32 gid else gid);
          gid1 = conv (sysarg pc 0); gid2 = conv (sysarg pc 1); gid3 = conv (sysarg pc 2)
      in if secure \<and> checksecuregid pc gid1 gid2 gid3 (-1) \<noteq> 0 then eperm pc
         else if hte \<noteq> None then um_call um_syscall [uint gid1, uint gid2, uint gid3] pc
         else
           let pc = (if gid1 \<noteq> -1 then pc\<lparr>pc_rgid := gid1\<rparr> else pc);
               pc = (if gid2 \<noteq> -1 then pc\<lparr>pc_egid := gid2, pc_fsgid := gid2\<rparr> else pc);
               pc = (if gid3 \<noteq> -1 then pc\<lparr>pc_sgid := gid2\<rparr> else pc)
           in done_ok pc)"

section \<open>Priorities, process groups\<close>

definition wrap_in_nice :: "pcb \<Rightarrow> um_set \<Rightarrow> pcb" where
  "wrap_in_nice pc um_syscall = um_call um_syscall [sint (sysarg pc 0)] pc"

definition wrap_in_getpriority :: "pcb \<Rightarrow> um_set \<Rightarrow> pcb" where
  "wrap_in_getpriority pc um_syscall = um_call um_syscall [sint (sysarg pc 0), sint (sysarg pc 1)] pc"

definition PRIO_PROCESS :: int where "PRIO_PROCESS = 0"
definition PRIO_PGRP :: int where "PRIO_PGRP = 1"

definition wrap_in_setpriority :: "bool \<Rightarrow> pcbsys \<Rightarrow> pcb \<Rightarrow> um_set \<Rightarrow> pcb" where
  "wrap_in_setpriority secure s pc um_syscall =
     (let which = sint (sysarg pc 0); who = sint (sysarg pc 1); prio = sint (sysarg pc 2);
          denied = (secure \<and> capcheck pc \<noteq> 0 \<and> (which = PRIO_PROCESS \<or> which = PRIO_PGRP) \<and> who \<noteq> 0 \<and>
            (case pid2pcb s who of None \<Rightarrow> False
             | Some t \<Rightarrow> pc_ruid pc \<noteq> pc_euid (pt_tab s ! t) \<and> pc_euid pc \<noteq> pc_euid (pt_tab s ! t)));
          pc = (if denied then eperm pc else pc)
      in um_call um_syscall [which, who, prio] pc)"

definition wrap_in_getpid :: "pcb \<Rightarrow> um_set \<Rightarrow> pcb" where
  "wrap_in_getpid pc um_syscall = um_call um_syscall [] pc"

definition wrap_in_setpid :: "pcb \<Rightarrow> um_set \<Rightarrow> pcb" where
  "wrap_in_setpid pc um_syscall = um_call um_syscall [] pc"

definition wrap_in_getpgrp :: "pcb \<Rightarrow> um_set \<Rightarrow> pcb" where
  "wrap_in_getpgrp pc um_syscall = um_call um_syscall [0] pc"

definition wrap_in_setpgrp :: "pcb \<Rightarrow> um_set \<Rightarrow> pcb" where
  "wrap_in_setpgrp pc um_syscall = um_call um_syscall [0, 0] pc"

definition wrap_in_getpid_1 :: "pcb \<Rightarrow> um_set \<Rightarrow> pcb" where
  "wrap_in_getpid_1 pc um_syscall = um_call um_syscall [sint (sysarg pc 0)] pc"

definition wrap_in_setpgid :: "pcb \<Rightarrow> um_set \<Rightarrow> pcb" where
  "wrap_in_setpgid pc um_syscall = um_call um_syscall [sint (sysarg pc 0), sint (sysarg pc 1)] pc"

section \<open>Supplementary groups\<close>

definition NGROUPS_MAX :: nat where "NGROUPS_MAX = 65536"

text \<open>
  The descriptor and, when the list is copied to the process, its address and contents.  \<open>size\<close> is
  an \<open>int\<close> that is compared with a \<open>size_t\<close>: it is extended with its sign and read as unsigned.
\<close>

definition wrap_in_getgroups :: "pcbsys \<Rightarrow> pcb \<Rightarrow> (pcb \<times> (u64 \<times> 32 word list) option) option" where
  "wrap_in_getgroups s pc = do {
     let size = sysarg pc 0;
     let plist = pc_sysargs pc ! 1;
     a \<leftarrow> pc_grouplist pc;
     g \<leftarrow> pt_grp s a;
     let n = length (sg_list g);
     Some (if size = 0 then (pc\<lparr>pc_retval := int n, pc_erno := 0\<rparr>, None)
           else if unat (scast size :: u64) < n then (pc\<lparr>pc_retval := -1, pc_erno := E_INVAL\<rparr>, None)
           else (pc\<lparr>pc_retval := int n, pc_erno := 0\<rparr>, Some (plist, sg_list g)))
   }"

text \<open>\<open>mem\<close> are the identifiers in the memory of the process, as \<open>umoven\<close> leaves them in the new list.\<close>

definition wrap_in_setgroups :: "pcbsys \<Rightarrow> nat \<Rightarrow> (u64 \<Rightarrow> nat \<Rightarrow> 32 word list) \<Rightarrow> pcbsys option" where
  "wrap_in_setgroups s i mem = do {
     pc \<leftarrow> pcb_at s i;
     let size = unat (pc_sysargs pc ! 0);
     let plist = pc_sysargs pc ! 1;
     if size > NGROUPS_MAX then Some (pcb_set i (pc\<lparr>pc_retval := -1, pc_erno := E_INVAL\<rparr>) s)
     else do {
       a \<leftarrow> pc_grouplist pc;
       m \<leftarrow> supgrp_put a (pt_grp s);
       let (g, s) = supgrp_create (take size (mem plist size)) (s\<lparr>pt_grp := m\<rparr>);
       Some (pcb_set i (pc\<lparr>pc_grouplist := Some g, pc_erno := 0, pc_retval := 1\<rparr>) s)
     }
   }"

end
