(* ===== verification/Pcb_Inv.thy ===== *)
theory Pcb_Inv
  imports Um_Misc
begin

text \<open>
  The invariant of the table of the processes: the counters of the shared data count the processes
  that share them, the parent pointers lead to living processes, and the time stamps are the ones of
  a state of the tree of views.
\<close>

section \<open>Interpretation of the shared objects\<close>

interpretation fsr: refcounted fs_count fs_get fs_put
  by unfold_locales (auto simp: fs_get_def fs_put_def Let_def)

interpretation sgr: refcounted sg_count supgrp_get supgrp_put
  by unfold_locales (auto simp: supgrp_get_def supgrp_put_def Let_def)

section \<open>The invariant\<close>

text \<open>\<open>B\<close> are the descriptors whose constructor has run.\<close>

definition pcb_views :: "nat set \<Rightarrow> pcbsys \<Rightarrow> vsys" where
  "pcb_views B s = \<lparr>vs_te = pt_te s,
     vs_procs = (\<lambda>w. if unat w \<in> B then Some (pc_tst (pt_tab s ! unat w)) else None)\<rparr>"

definition pcb_live :: "nat set \<Rightarrow> pcbsys \<Rightarrow> bool" where
  "pcb_live B s \<longleftrightarrow> 0 < length (pt_tab s) \<and> length (pt_tab s) \<le> 2 ^ 30 \<and>
     (\<forall>i \<in> B. i < length (pt_tab s) \<and> inuse (pt_tab s ! i) \<and> (\<forall>p. pc_pp (pt_tab s ! i) = Some p \<longrightarrow> p \<in> B)) \<and>
     (\<forall>i < length (pt_tab s). inuse (pt_tab s ! i) \<longrightarrow> pc_umpid (pt_tab s ! i) = int i + 1)"

definition pcb_shared :: "nat set \<Rightarrow> pcbsys \<Rightarrow> bool" where
  "pcb_shared B s \<longleftrightarrow>
     rc_ok fs_count (pt_fs s) (\<lambda>i. pc_fdfs (pt_tab s ! i)) B \<and> (\<forall>a \<ge> pt_fsbrk s. pt_fs s a = None) \<and>
     rc_ok sg_count (pt_grp s) (\<lambda>i. pc_grouplist (pt_tab s ! i)) B \<and> (\<forall>a \<ge> pt_grpbrk s. pt_grp s a = None)"

definition pcb_ok :: "nat set \<Rightarrow> pcbsys \<Rightarrow> bool" where
  "pcb_ok B s \<longleftrightarrow> pcb_live B s \<and> pcb_shared B s \<and> vs_inv (pcb_views B s)"

lemma pcb_okD:
  assumes "pcb_ok B s"
  shows "0 < length (pt_tab s)" "length (pt_tab s) \<le> 2 ^ 30" "vs_inv (pcb_views B s)"
    "i \<in> B \<Longrightarrow> i < length (pt_tab s)" "i \<in> B \<Longrightarrow> inuse (pt_tab s ! i)"
    "i \<in> B \<Longrightarrow> pc_pp (pt_tab s ! i) = Some p \<Longrightarrow> p \<in> B"
    "i < length (pt_tab s) \<Longrightarrow> inuse (pt_tab s ! i) \<Longrightarrow> pc_umpid (pt_tab s ! i) = int i + 1"
    "rc_ok fs_count (pt_fs s) (\<lambda>i. pc_fdfs (pt_tab s ! i)) B" "pt_fsbrk s \<le> a \<Longrightarrow> pt_fs s a = None"
    "rc_ok sg_count (pt_grp s) (\<lambda>i. pc_grouplist (pt_tab s ! i)) B" "pt_grpbrk s \<le> a \<Longrightarrow> pt_grp s a = None"
  using assms unfolding pcb_ok_def pcb_live_def pcb_shared_def by blast+

lemma unat_index: "i < 2 ^ 30 \<Longrightarrow> unat (of_nat i :: s32) = i"
  by (simp add: unat_of_nat take_bit_nat_eq_self)

lemma views_proc: "i \<in> B \<Longrightarrow> i < 2 ^ 30 \<Longrightarrow> vs_procs (pcb_views B s) (of_nat i) = Some (pc_tst (pt_tab s ! i))"
  by (simp add: pcb_views_def unat_index)

text \<open>A change of one descriptor is a change of one process of the tree of views.\<close>

lemma unat_eq_index: "i < 2 ^ 30 \<Longrightarrow> unat (w :: s32) = i \<longleftrightarrow> w = of_nat i"
  using unat_index [of i] word_unat_eq_iff by metis

lemma views_upd:
  assumes "i < length (pt_tab s)" "length (pt_tab s) \<le> 2 ^ 30" "pt_te s' = te" "pt_tab s' = (pt_tab s)[i := pc]"
  shows "pcb_views (insert i B) s' = \<lparr>vs_te = te, vs_procs = (vs_procs (pcb_views B s))(of_nat i \<mapsto> pc_tst pc)\<rparr>"
proof -
  have "vs_procs (pcb_views (insert i B) s') w = ((vs_procs (pcb_views B s))(of_nat i \<mapsto> pc_tst pc)) w" for w
    using unat_eq_index [of i w] unat_index [of i] assms by (cases "w = of_nat i") (simp_all add: pcb_views_def)
  then show ?thesis using assms(3) by (simp add: pcb_views_def fun_eq_iff)
qed

lemma views_remove:
  assumes "i < 2 ^ 30" "pt_te s' = te" "\<And>j. j \<in> B \<Longrightarrow> j \<noteq> i \<Longrightarrow> pc_tst (pt_tab s' ! j) = pc_tst (pt_tab s ! j)"
  shows "pcb_views (B - {i}) s' = \<lparr>vs_te = te, vs_procs = (vs_procs (pcb_views B s))(of_nat i := None)\<rparr>"
proof -
  have "vs_procs (pcb_views (B - {i}) s') w = ((vs_procs (pcb_views B s))(of_nat i := None)) w" for w
    using unat_eq_index [of i w] unat_index [of i] assms by (cases "w = of_nat i") (simp_all add: pcb_views_def)
  then show ?thesis using assms(2) by (simp add: pcb_views_def fun_eq_iff)
qed

lemma views_cong:
  assumes "pt_te s' = pt_te s" "\<And>j. j \<in> B \<Longrightarrow> pc_tst (pt_tab s' ! j) = pc_tst (pt_tab s ! j)"
  shows "pcb_views B s' = pcb_views B s"
  using assms unfolding pcb_views_def by (auto simp: fun_eq_iff)

section \<open>A new process with a parent\<close>

lemma grp_of: "pcb_ok B s \<Longrightarrow> i \<in> B \<Longrightarrow> \<exists>g x. pc_grouplist (pt_tab s ! i) = Some g \<and> pt_grp s g = Some x"
  using rc_okD(2) [OF pcb_okD(10), of B s i] by blast

lemma fs_of: "pcb_ok B s \<Longrightarrow> i \<in> B \<Longrightarrow> \<exists>g x. pc_fdfs (pt_tab s ! i) = Some g \<and> pt_fs s g = Some x"
  using rc_okD(2) [OF pcb_okD(8), of B s i] by blast

lemma inuse_cong: "pc_flags pc = pc_flags pc' \<Longrightarrow> inuse pc = inuse pc'"
  by (simp add: inuse_def)

text \<open>The part of \<open>pcb_plus\<close> for the file system data, and for the groups.\<close>

lemma plus_fs_child:
  assumes ok: "rc_ok fs_count (pt_fs s) (\<lambda>j. pc_fdfs (pt_tab s ! j)) B" and fresh: "\<And>a. pt_fsbrk s \<le> a \<Longrightarrow> pt_fs s a = None"
    and i: "i < length (pt_tab s)" "i \<notin> B" and q: "pc_pp (pt_tab s ! i) = Some q" "q \<in> B" "q < length (pt_tab s)"
  shows "\<exists>a m k. pcb_plus_fs h s i False flags = Some (pcb_set i ((pt_tab s ! i)\<lparr>pc_fdfs := Some a\<rparr>) (s\<lparr>pt_fs := m, pt_fsbrk := k\<rparr>)) \<and>
     rc_ok fs_count m (\<lambda>j. if j = i then Some a else pc_fdfs (pt_tab s ! j)) (insert i B) \<and> (\<forall>a \<ge> k. m a = None)"
proof -
  obtain b x where b: "pc_fdfs (pt_tab s ! q) = Some b" "pt_fs s b = Some x" using rc_okD(2) [OF ok q(2)] by auto
  have d: "pcb_deref s (pc_pp (pt_tab s ! i)) = Some (pt_tab s ! q)" using q by (simp add: pcb_deref_def pcb_at_def)
  let ?ref = "\<lambda>a j. if j = i then Some a else pc_fdfs (pt_tab s ! j)"
  have r: "?ref a j = pc_fdfs (pt_tab s ! j)" if "j \<in> B" for a j using i(2) that by auto
  show ?thesis
  proof (cases "flags AND CLONE_FS \<noteq> 0")
    case True
    obtain m where m: "fs_get b (pt_fs s) = Some m" "rc_ok fs_count m (?ref b) (insert i B)" "dom m = dom (pt_fs s)"
      using fsr.share [OF ok i(2) q(2) b(1), of "?ref b"] r by auto
    have "\<forall>a \<ge> pt_fsbrk s. m a = None" using fresh m(3) by (metis domIff)
    moreover have "pcb_plus_fs h s i False flags = Some (pcb_set i ((pt_tab s ! i)\<lparr>pc_fdfs := Some b\<rparr>) (s\<lparr>pt_fs := m, pt_fsbrk := pt_fsbrk s\<rparr>))"
      using True i b m(1) d by (simp add: pcb_plus_fs_def pcb_at_def)
    ultimately show ?thesis using m(2) by blast
  next
    case False
    let ?a = "pt_fsbrk s"
    have "rc_ok fs_count ((pt_fs s)(?a \<mapsto> x\<lparr>fs_count := 1\<rparr>)) (?ref ?a) (insert i B)"
      by (rule fsr.new_user [OF ok i(2)]) (use fresh r in auto)
    moreover have "pcb_plus_fs h s i False flags = Some (pcb_set i ((pt_tab s ! i)\<lparr>pc_fdfs := Some ?a\<rparr>)
        (s\<lparr>pt_fs := (pt_fs s)(?a \<mapsto> x\<lparr>fs_count := 1\<rparr>), pt_fsbrk := ?a + 1\<rparr>))"
      using False i b d by (simp add: pcb_plus_fs_def pcb_at_def fs_new_def)
    moreover have "\<forall>a \<ge> ?a + 1. ((pt_fs s)(?a \<mapsto> x\<lparr>fs_count := 1\<rparr>)) a = None" using fresh by simp
    ultimately show ?thesis by blast
  qed
qed


lemma plus_child_ok:
  assumes ok: "rc_ok sg_count (pt_grp s) ref B" and i: "i < length (pt_tab s)" "i \<notin> B"
    and q: "pc_pp (pt_tab s ! i) = Some q" "q \<in> B" "q < length (pt_tab s)" "pc_grouplist (pt_tab s ! q) = ref q"
  shows "\<exists>pc g m. pcb_plus_child s i = Some (pcb_set i pc (s\<lparr>pt_grp := m\<rparr>)) \<and> pc_grouplist pc = Some g \<and>
     rc_ok sg_count m (ref(i := Some g)) (insert i B) \<and> dom m = dom (pt_grp s) \<and>
     pc_pp pc = Some q \<and> pc_fdfs pc = pc_fdfs (pt_tab s ! i) \<and> pc_flags pc = pc_flags (pt_tab s ! i) \<and>
     pc_umpid pc = pc_umpid (pt_tab s ! i) \<and> pc_pid pc = pc_pid (pt_tab s ! i) \<and> pc_sysargs pc = pc_sysargs (pt_tab s ! i)"
proof -
  obtain g x where g: "ref q = Some g" "pt_grp s g = Some x" using rc_okD(2) [OF ok q(2)] by auto
  obtain m where m: "supgrp_get g (pt_grp s) = Some m" "rc_ok sg_count m (ref(i := Some g)) (insert i B)" "dom m = dom (pt_grp s)"
    using sgr.share [OF ok i(2) q(2) g(1), of "ref(i := Some g)"] i(2) by (metis fun_upd_other fun_upd_same)
  have d: "pcb_deref s (pc_pp (pt_tab s ! i)) = Some (pt_tab s ! q)" using q by (simp add: pcb_deref_def pcb_at_def)
  show ?thesis unfolding pcb_plus_child_def
    using i g q(1,4) m d by (simp add: pcb_at_def) (intro exI conjI, rule refl, simp_all)
qed

definition same_ids :: "pcb \<Rightarrow> pcb \<Rightarrow> bool" where
  "same_ids pc pc' \<longleftrightarrow> pc_flags pc = pc_flags pc' \<and> pc_umpid pc = pc_umpid pc' \<and> pc_pid pc = pc_pid pc'"

lemma pcb_ok_insert:
  assumes ok: "pcb_ok B s" and i: "i < length (pt_tab s)" "i \<notin> B" "inuse pc" "pc_umpid pc = int i + 1"
    and pp: "pc_pp pc = Some q" "q \<in> insert i B"
    and fs: "rc_ok fs_count (pt_fs s') (\<lambda>j. if j = i then pc_fdfs pc else pc_fdfs (pt_tab s ! j)) (insert i B)" "\<And>a. pt_fsbrk s' \<le> a \<Longrightarrow> pt_fs s' a = None"
    and gr: "rc_ok sg_count (pt_grp s') ((\<lambda>j. pc_grouplist (pt_tab s ! j))(i := pc_grouplist pc)) (insert i B)" "\<And>a. pt_grpbrk s' \<le> a \<Longrightarrow> pt_grp s' a = None"
    and s': "pt_tab s' = (pt_tab s)[i := pc]" and v: "vs_inv (pcb_views (insert i B) s')"
  shows "pcb_ok (insert i B) s'"
proof -
  have j: "j \<in> B \<Longrightarrow> pt_tab s' ! j = pt_tab s ! j" for j using i s' by (metis nth_list_update_neq)
  have ii: "pt_tab s' ! i = pc" using s' i by simp
  have "pcb_live (insert i B) s'" unfolding pcb_live_def
    using pcb_okD(1,2,4-7) [OF ok] i pp j ii s' by (auto simp: nth_list_update)
  moreover have "rc_ok fs_count (pt_fs s') (\<lambda>j. pc_fdfs (pt_tab s' ! j)) (insert i B)"
    by (rule rc_ok_cong [OF _ fs(1)]) (use j ii i(2) in auto)
  moreover have "rc_ok sg_count (pt_grp s') (\<lambda>j. pc_grouplist (pt_tab s' ! j)) (insert i B)"
    by (rule rc_ok_cong [OF _ gr(1)]) (use j ii i(2) in auto)
  ultimately show ?thesis using fs(2) gr(2) v unfolding pcb_ok_def pcb_shared_def by simp
qed

lemma views_tree:
  assumes "pcb_ok B s" "q \<in> B"
  obtains t where "vs_tree (pcb_views B s) t"
proof -
  have "q < 2 ^ 30" using pcb_okD(2,4) [OF assms(1)] assms(2) by fastforce
  then have "vs_procs (pcb_views B s) (of_nat q) \<noteq> None" using views_proc assms(2) by simp
  then show ?thesis using pcb_okD(3) [OF assms(1)] that unfolding vs_inv_def by fastforce
qed

lemma views_clone:
  assumes ok: "pcb_ok B s" and i: "i < length (pt_tab s)" "i \<notin> B" and q: "q \<in> B"
  shows "\<exists>te. tst_newproc (pt_te s) (pc_tst (pt_tab s ! q)) = Some (pc_tst (pt_tab s ! q), te) \<and>
    vstep (pcb_views B s) \<lparr>vs_te = te, vs_procs = (vs_procs (pcb_views B s))(of_nat i \<mapsto> pc_tst (pt_tab s ! q))\<rparr>"
proof -
  obtain t where t: "vs_tree (pcb_views B s) t" using views_tree [OF ok q] .
  have b: "q < 2 ^ 30" "i < 2 ^ 30" using pcb_okD(2,4) [OF ok] q i(1) by fastforce+
  have v: "pcb_views B s = \<lparr>vs_te = pt_te s, vs_procs = vs_procs (pcb_views B s)\<rparr>" by (simp add: pcb_views_def)
  have p: "vs_procs (pcb_views B s) (of_nat q) = Some (pc_tst (pt_tab s ! q))" "vs_procs (pcb_views B s) (of_nat i) = None"
    using views_proc [OF q b(1)] i(2) unat_index [OF b(2)] by (simp_all add: pcb_views_def)
  have "vs_tree \<lparr>vs_te = pt_te s, vs_procs = vs_procs (pcb_views B s)\<rparr> t" using t v by argo
  from clone_ok [OF this p] obtain te where te: "tst_newproc (pt_te s) (pc_tst (pt_tab s ! q)) = Some (pc_tst (pt_tab s ! q), te)"
    by blast
  show ?thesis using vclone [OF p te] te unfolding v [symmetric] by blast
qed


lemma pcb_plus_run:
  assumes "pcb_at s i = Some old" "r \<longleftrightarrow> pc_pp old = Some i"
    and "(if flags AND CLONE_PARENT \<noteq> 0 then map_option pc_pp (pcb_deref s (pc_pp old)) else Some (pc_pp old)) = Some pp"
    and "pcb_plus_fs h (pcb_set i (old\<lparr>pc_path := PATH_NULL, pc_tmpfile := None, pc_pp := pp\<rparr>) s) i r flags = Some sf"
    and "(if r then pcb_plus_root secure h sf i else pcb_plus_child sf i) = Some sg" "pcb_at sg i = Some pc" "pcb_deref sg (pc_pp pc) = Some ppc"
    and "tst_newproc (pt_te sg) (pc_tst ppc) = Some (t, te)"
  shows "pcb_plus secure h s i flags False = um_proc_add (pcb_set i (pc\<lparr>pc_tst := t\<rparr>) (sg\<lparr>pt_te := te\<rparr>)) i"
  using assms unfolding pcb_plus_def by (simp cong: if_cong)

lemma pcb_plus_ok:
  assumes ok: "pcb_ok B s" and i: "i < length (pt_tab s)" "i \<notin> B" "inuse (pt_tab s ! i)" and pp: "pc_pp (pt_tab s ! i) = Some p" "p \<in> B"
    and np: "flags AND CLONE_PARENT \<noteq> 0 \<Longrightarrow> pc_pp (pt_tab s ! p) \<noteq> None"
  shows "\<exists>s' pc. pcb_plus secure h s i flags False = Some s' \<and> pt_tab s' = (pt_tab s)[i := pc] \<and> same_ids pc (pt_tab s ! i) \<and>
     pcb_ok (insert i B) s' \<and> vstep (pcb_views B s) (pcb_views (insert i B) s')"
proof -
  let ?ref = "\<lambda>j. pc_fdfs (pt_tab s ! j)" and ?gref = "\<lambda>j. pc_grouplist (pt_tab s ! j)"
  define q where "q = (if flags AND CLONE_PARENT \<noteq> 0 then the (pc_pp (pt_tab s ! p)) else p)"
  have q: "q \<in> B" "q < length (pt_tab s)" "q \<noteq> i" "p < length (pt_tab s)" "p \<noteq> i"
    and qp: "(if flags AND CLONE_PARENT \<noteq> 0 then pc_pp (pt_tab s ! p) else Some p) = Some q"
    using np pp(2) i(2) pcb_okD(4,6) [OF ok] by (auto simp: q_def)
  define pc1 where "pc1 = (pt_tab s ! i)\<lparr>pc_path := PATH_NULL, pc_tmpfile := None, pc_pp := Some q\<rparr>"
  define s1 where "s1 = pcb_set i pc1 s"
  have t1: "pt_tab s1 = (pt_tab s)[i := pc1]" "pt_fs s1 = pt_fs s" "pt_fsbrk s1 = pt_fsbrk s" by (simp_all add: s1_def pcb_set_def)
  have nB: "(pt_tab s)[i := x] ! j = pt_tab s ! j" if "j \<in> B" for j x using i(2) that by (metis nth_list_update_neq)
  have r1: "rc_ok fs_count (pt_fs s1) (\<lambda>j. pc_fdfs (pt_tab s1 ! j)) B"
    unfolding t1(2) by (rule rc_ok_cong [OF _ pcb_okD(8) [OF ok]]) (simp add: t1 nB)
  have p1: "i < length (pt_tab s1)" "pc_pp (pt_tab s1 ! i) = Some q" "q < length (pt_tab s1)" "pt_tab s1 ! i = pc1"
    using i q t1 by (simp_all add: pc1_def)
  have f1: "pt_fs s1 a = None" if "pt_fsbrk s1 \<le> a" for a using pcb_okD(9) [OF ok, of a] that t1 by simp
  obtain a m k where fs: "pcb_plus_fs h s1 i False flags = Some (pcb_set i (pc1\<lparr>pc_fdfs := Some a\<rparr>) (s1\<lparr>pt_fs := m, pt_fsbrk := k\<rparr>))"
      "rc_ok fs_count m (\<lambda>j. if j = i then Some a else pc_fdfs (pt_tab s1 ! j)) (insert i B)" "\<forall>a \<ge> k. m a = None"
    using plus_fs_child [OF r1 f1 p1(1) i(2) p1(2) q(1) p1(3), of h flags, unfolded p1(4)] by blast
  define s2 where "s2 = pcb_set i (pc1\<lparr>pc_fdfs := Some a\<rparr>) (s1\<lparr>pt_fs := m, pt_fsbrk := k\<rparr>)"
  have t2: "pt_tab s2 = (pt_tab s)[i := pc1\<lparr>pc_fdfs := Some a\<rparr>]" "pt_grp s2 = pt_grp s" "pt_te s2 = pt_te s"
    by (simp_all add: s2_def s1_def pcb_set_def)
  have p2: "i < length (pt_tab s2)" "pc_pp (pt_tab s2 ! i) = Some q" "q < length (pt_tab s2)" "pc_grouplist (pt_tab s2 ! q) = ?gref q"
    using i q t2 by (simp_all add: pc1_def)
  obtain pc g gm where gr: "pcb_plus_child s2 i = Some (pcb_set i pc (s2\<lparr>pt_grp := gm\<rparr>))" "pc_grouplist pc = Some g"
      "rc_ok sg_count gm (?gref(i := Some g)) (insert i B)" "dom gm = dom (pt_grp s)"
    and pc: "pc_pp pc = Some q" "pc_fdfs pc = Some a" "same_ids pc (pt_tab s ! i)"
    using plus_child_ok [of s2 ?gref B i q] pcb_okD(10) [OF ok] p2 i(1,2) q t2
    by (auto simp: same_ids_def pc1_def)
  obtain te where te: "tst_newproc (pt_te s) (pc_tst (pt_tab s ! q)) = Some (pc_tst (pt_tab s ! q), te)"
      "vstep (pcb_views B s) \<lparr>vs_te = te, vs_procs = (vs_procs (pcb_views B s))(of_nat i \<mapsto> pc_tst (pt_tab s ! q))\<rparr>"
    using views_clone [OF ok i(1,2) q(1)] by blast
  define pc' where "pc' = pc\<lparr>pc_tst := pc_tst (pt_tab s ! q)\<rparr>"
  define s' where "s' = pcb_set i pc' (s2\<lparr>pt_grp := gm, pt_te := te, pt_log := pt_log s @ [Proc_add (pc_umpid pc) (pc_umpid (pt_tab s ! q)) (length (pt_tab s))]\<rparr>)"
  have t': "pt_tab s' = (pt_tab s)[i := pc']" "pt_te s' = te" "pt_fs s' = m" "pt_fsbrk s' = k" "pt_grp s' = gm" "pt_grpbrk s' = pt_grpbrk s"
    using t2 by (simp_all add: s'_def pcb_set_def s2_def s1_def)
  have run: "pcb_plus secure h s i flags False = Some s'"
  proof -
    let ?s3 = "pcb_set i pc (s2\<lparr>pt_grp := gm\<rparr>)"
    have "pcb_at s i = Some (pt_tab s ! i)" "False \<longleftrightarrow> pc_pp (pt_tab s ! i) = Some i"
      using i pp q by (auto simp: pcb_at_def)
    moreover have "(if flags AND CLONE_PARENT \<noteq> 0 then map_option pc_pp (pcb_deref s (pc_pp (pt_tab s ! i))) else Some (pc_pp (pt_tab s ! i))) = Some (Some q)"
      using qp q pp by (auto simp: pcb_deref_def pcb_at_def)
    moreover have "pcb_plus_fs h (pcb_set i ((pt_tab s ! i)\<lparr>pc_path := PATH_NULL, pc_tmpfile := None, pc_pp := Some q\<rparr>) s) i False flags = Some s2"
      using fs(1) unfolding s2_def s1_def pc1_def .
    moreover have "(if False then pcb_plus_root secure h s2 i else pcb_plus_child s2 i) = Some ?s3" using gr(1) by simp
    moreover have "pcb_at ?s3 i = Some pc" "pcb_deref ?s3 (pc_pp pc) = Some (pt_tab s ! q)"
      using i q t2 pc(1) by (simp_all add: pcb_deref_def pcb_at_def pcb_set_def)
    moreover have "tst_newproc (pt_te ?s3) (pc_tst (pt_tab s ! q)) = Some (pc_tst (pt_tab s ! q), te)"
      using te(1) t2(3) by (simp add: pcb_set_def)
    ultimately have "pcb_plus secure h s i flags False = um_proc_add (pcb_set i pc' (?s3\<lparr>pt_te := te\<rparr>)) i"
      unfolding pc'_def by (rule pcb_plus_run)
    then show ?thesis using i q t2 pc(1) by (simp add: um_proc_add_def pcb_at_def pcb_set_def s'_def pc'_def s2_def s1_def)
  qed
  have v: "pcb_views (insert i B) s' = \<lparr>vs_te = te, vs_procs = (vs_procs (pcb_views B s))(of_nat i \<mapsto> pc_tst (pt_tab s ! q))\<rparr>"
    using views_upd [OF i(1) pcb_okD(2) [OF ok] t'(2,1)] by (simp add: pc'_def)
  have st: "vstep (pcb_views B s) (pcb_views (insert i B) s')" using te(2) v by simp
  have "pcb_ok (insert i B) s'"
  proof (rule pcb_ok_insert [OF ok i(1,2) _ _ _ _ _ _ _ _ t'(1)])
    show "rc_ok fs_count (pt_fs s') (\<lambda>j. if j = i then pc_fdfs pc' else ?ref j) (insert i B)"
      unfolding t' by (rule rc_ok_cong [OF _ fs(2)]) (use pc in \<open>auto simp: pc'_def t1 nB\<close>)
    show "rc_ok sg_count (pt_grp s') (?gref(i := pc_grouplist pc')) (insert i B)"
      unfolding t' using gr(2,3) by (simp add: pc'_def)
    show "pt_grp s' b = None" if "pt_grpbrk s' \<le> b" for b
      using that pcb_okD(11) [OF ok, of b] gr(4) unfolding t' by (metis domIff)
    show "vs_inv (pcb_views (insert i B) s')" using vstep_inv [OF st pcb_okD(3) [OF ok]] .
  qed (use i pc fs(3) q t' pcb_okD(7) [OF ok i(1,3)] in \<open>auto simp: pc'_def same_ids_def inuse_def\<close>)
  then show ?thesis using run t'(1) st pc(3) by (intro exI [of _ s'] exI [of _ pc']) (simp add: pc'_def same_ids_def)
qed


section \<open>The end of a process\<close>

lemma views_eta: "\<lparr>vs_te = pt_te s, vs_procs = vs_procs (pcb_views B s)\<rparr> = pcb_views B s"
  by (simp add: pcb_views_def)

lemma views_exit:
  assumes ok: "pcb_ok B s" and i: "i \<in> B"
  shows "\<exists>te. tst_delproc (pt_te s) (pc_tst (pt_tab s ! i)) = Some te \<and>
    vstep (pcb_views B s) \<lparr>vs_te = te, vs_procs = (vs_procs (pcb_views B s))(of_nat i := None)\<rparr>"
proof -
  obtain t where t: "vs_tree (pcb_views B s) t" using views_tree [OF ok i] .
  have "i < 2 ^ 30" using pcb_okD(2,4) [OF ok] i by fastforce
  note p = views_proc [OF i this, of s]
  obtain te where te: "tst_delproc (pt_te s) (pc_tst (pt_tab s ! i)) = Some te"
    using exit_ok [of "pt_te s" "vs_procs (pcb_views B s)" t, OF _ p] t unfolding views_eta by blast
  show ?thesis using vexit [where ps = "vs_procs (pcb_views B s)" and p = "of_nat i", OF p te] te unfolding views_eta by blast
qed

lemma cut_pp_simps [simp]:
  "pc_fdfs (cut_pp i pc) = pc_fdfs pc" "pc_grouplist (cut_pp i pc) = pc_grouplist pc" "pc_tst (cut_pp i pc) = pc_tst pc"
  "pc_flags (cut_pp i pc) = pc_flags pc" "pc_umpid (cut_pp i pc) = pc_umpid pc" "inuse (cut_pp i pc) = inuse pc"
  "pc_pp (cut_pp i pc) = (if pc_pp pc = Some i then None else pc_pp pc)"
  by (simp_all add: cut_pp_def inuse_def)

lemma not_inuse_0 [simp]: "\<not> inuse (pc\<lparr>pc_flags := 0\<rparr>)"
  by (simp add: inuse_def)

lemma droppcb_ok:
  assumes ok: "pcb_ok B s" and i: "i \<in> B"
  shows "\<exists>s'. droppcb s i = Some s' \<and> pcb_ok (B - {i}) s' \<and> vstep (pcb_views B s) (pcb_views (B - {i}) s')"
proof -
  have len: "i < length (pt_tab s)" "i < 2 ^ 30" using pcb_okD(2,4) [OF ok] i by fastforce+
  obtain a x where a: "pc_fdfs (pt_tab s ! i) = Some a" using fs_of [OF ok i] by auto
  obtain g y where g: "pc_grouplist (pt_tab s ! i) = Some g" using grp_of [OF ok i] by auto
  obtain m where m: "fs_put a (pt_fs s) = Some m" "rc_ok fs_count m (\<lambda>j. pc_fdfs (pt_tab s ! j)) (B - {i})" "dom m \<subseteq> dom (pt_fs s)"
    using fsr.drop_user [OF pcb_okD(8) [OF ok] i a] by blast
  obtain gm where gm: "supgrp_put g (pt_grp s) = Some gm" "rc_ok sg_count gm (\<lambda>j. pc_grouplist (pt_tab s ! j)) (B - {i})" "dom gm \<subseteq> dom (pt_grp s)"
    using sgr.drop_user [OF pcb_okD(10) [OF ok] i g] by blast
  obtain te where te: "tst_delproc (pt_te s) (pc_tst (pt_tab s ! i)) = Some te"
      "vstep (pcb_views B s) \<lparr>vs_te = te, vs_procs = (vs_procs (pcb_views B s))(of_nat i := None)\<rparr>"
    using views_exit [OF ok i] by blast
  define tab where "tab = map (\<lambda>pc. if inuse pc then cut_pp i pc else pc) (pt_tab s)"
  define s' where "s' = (um_proc_del s (pt_tab s ! i))\<lparr>pt_nprocs := pt_nprocs s - 1, pt_fs := m, pt_te := te, pt_grp := gm,
    pt_tab := tab[i := (tab ! i)\<lparr>pc_flags := 0\<rparr>]\<rparr>"
  have run: "droppcb s i = Some s'"
    using len(1) a g m(1) gm(1) te(1)
    by (auto simp: droppcb_def pcb_minus_def pcb_at_def forallpcbdo_def um_proc_del_def pcb_set_def s'_def tab_def)
  have nth: "pt_tab s' ! j = (if j = i then (tab ! i)\<lparr>pc_flags := 0\<rparr> else if inuse (pt_tab s ! j) then cut_pp i (pt_tab s ! j) else pt_tab s ! j)"
    if "j < length (pt_tab s)" for j
    using that len(1) by (simp add: s'_def tab_def)
  have tabB: "pt_tab s' ! j = cut_pp i (pt_tab s ! j)" if "j \<in> B - {i}" for j
    using that nth [of j] pcb_okD(4,5) [OF ok, of j] by simp
  have v: "pcb_views (B - {i}) s' = \<lparr>vs_te = te, vs_procs = (vs_procs (pcb_views B s))(of_nat i := None)\<rparr>"
    by (rule views_remove [OF len(2)]) (use tabB in \<open>auto simp: s'_def\<close>)
  have st: "vstep (pcb_views B s) (pcb_views (B - {i}) s')" using te(2) v by simp
  have l: "length (pt_tab s') = length (pt_tab s)" by (simp add: s'_def tab_def)
  have "pcb_live (B - {i}) s'" unfolding pcb_live_def l
    using pcb_okD(1,2,4-7) [OF ok] tabB nth by (auto split: if_splits)
  moreover have "rc_ok fs_count (pt_fs s') (\<lambda>j. pc_fdfs (pt_tab s' ! j)) (B - {i})"
    by (rule rc_ok_cong [of _ _ "\<lambda>j. pc_fdfs (pt_tab s ! j)"]) (use m(2) tabB in \<open>auto simp: s'_def\<close>)
  moreover have "rc_ok sg_count (pt_grp s') (\<lambda>j. pc_grouplist (pt_tab s' ! j)) (B - {i})"
    by (rule rc_ok_cong [of _ _ "\<lambda>j. pc_grouplist (pt_tab s ! j)"]) (use gm(2) tabB in \<open>auto simp: s'_def\<close>)
  moreover have "m b = None" if "pt_fsbrk s \<le> b" for b using m(3) pcb_okD(9) [OF ok that] by blast
  moreover have "gm b = None" if "pt_grpbrk s \<le> b" for b using gm(3) pcb_okD(11) [OF ok that] by blast
  ultimately have "pcb_ok (B - {i}) s'"
    using vstep_inv [OF st pcb_okD(3) [OF ok]] unfolding pcb_ok_def pcb_shared_def by (simp add: s'_def um_proc_del_def)
  then show ?thesis using run st by blast
qed


section \<open>Changes that leave the shared data alone\<close>

definition frame_eq :: "pcb \<Rightarrow> pcb \<Rightarrow> bool" where
  "frame_eq pc pc' \<longleftrightarrow> inuse pc' = inuse pc \<and> pc_pp pc' = pc_pp pc \<and> pc_fdfs pc' = pc_fdfs pc \<and>
     pc_grouplist pc' = pc_grouplist pc \<and> pc_tst pc' = pc_tst pc"

lemma pcb_ok_frame:
  assumes ok: "pcb_ok B s" and l: "length (pt_tab s) \<le> length (pt_tab s')" "length (pt_tab s') \<le> 2 ^ 30"
    and f: "\<And>j. j \<in> B \<Longrightarrow> frame_eq (pt_tab s ! j) (pt_tab s' ! j)"
    and u: "\<And>j. j < length (pt_tab s') \<Longrightarrow> inuse (pt_tab s' ! j) \<Longrightarrow> pc_umpid (pt_tab s' ! j) = int j + 1"
    and e: "pt_fs s' = pt_fs s" "pt_fsbrk s' = pt_fsbrk s" "pt_grp s' = pt_grp s" "pt_grpbrk s' = pt_grpbrk s" "pt_te s' = pt_te s"
  shows "pcb_ok B s' \<and> pcb_views B s' = pcb_views B s"
proof -
  have v: "pcb_views B s' = pcb_views B s" by (rule views_cong) (use e f in \<open>auto simp: frame_eq_def\<close>)
  have "\<And>j. j \<in> B \<Longrightarrow> j < length (pt_tab s')" using pcb_okD(4) [OF ok] l(1) by fastforce
  then have "pcb_live B s'" unfolding pcb_live_def
    using pcb_okD(1,5,6) [OF ok] l f u unfolding frame_eq_def by auto
  moreover have "rc_ok fs_count (pt_fs s) (\<lambda>j. pc_fdfs (pt_tab s' ! j)) B"
    by (rule rc_ok_cong [OF _ pcb_okD(8) [OF ok]]) (use f in \<open>auto simp: frame_eq_def\<close>)
  moreover have "rc_ok sg_count (pt_grp s) (\<lambda>j. pc_grouplist (pt_tab s' ! j)) B"
    by (rule rc_ok_cong [OF _ pcb_okD(10) [OF ok]]) (use f in \<open>auto simp: frame_eq_def\<close>)
  ultimately show ?thesis using pcb_okD(3,9,11) [OF ok] v e unfolding pcb_ok_def pcb_shared_def by simp
qed

lemma frame_eq_refl [simp]: "frame_eq pc pc"
  by (simp add: frame_eq_def)

lemma pcb_set_frame:
  assumes ok: "pcb_ok B s" and i: "i \<in> B \<Longrightarrow> frame_eq (pt_tab s ! i) pc"
    and u: "inuse pc \<Longrightarrow> pc_umpid pc = int i + 1"
  shows "pcb_ok B (pcb_set i pc s) \<and> pcb_views B (pcb_set i pc s) = pcb_views B s"
proof (rule pcb_ok_frame [OF ok])
  fix j assume "j \<in> B"
  then show "frame_eq (pt_tab s ! j) (pt_tab (pcb_set i pc s) ! j)"
    using i pcb_okD(4) [OF ok, of j] by (cases "j = i") (auto simp: pcb_set_def)
next
  fix j assume "j < length (pt_tab (pcb_set i pc s))" "inuse (pt_tab (pcb_set i pc s) ! j)"
  then show "pc_umpid (pt_tab (pcb_set i pc s) ! j) = int j + 1"
    using u pcb_okD(7) [OF ok, of j] by (cases "j = i") (auto simp: pcb_set_def)
qed (use pcb_okD(2) [OF ok] in \<open>auto simp: pcb_set_def\<close>)

section \<open>New descriptors\<close>

lemma first_unused_le: "first_unused tab \<le> length tab"
  by (induction tab) auto

lemma first_unused_free: "first_unused tab < length tab \<Longrightarrow> \<not> inuse (tab ! first_unused tab)"
  by (induction tab) auto

lemma not_inuse_zero [simp]: "\<not> inuse pcb_zero"
  by (simp add: inuse_def pcb_zero_def)

lemma inuse_starting [simp]: "pc_flags pc = PCB_INUSE OR PCB_STARTING \<Longrightarrow> inuse pc"
  by (simp add: inuse_def PCB_INUSE_def PCB_STARTING_def)

lemma inuse_started: "inuse (pc\<lparr>pc_flags := pc_flags pc AND NOT PCB_STARTING\<rparr>) = inuse pc"
proof -
  have "(NOT PCB_STARTING) AND PCB_INUSE = PCB_INUSE" by (simp add: PCB_INUSE_def PCB_STARTING_def)
  then show ?thesis by (simp add: inuse_def and.assoc)
qed

lemma newpcb_ok:
  assumes ok: "pcb_ok B s" and n: "newpcb pid s = Some (i, s')"
  shows "i = first_unused (pt_tab s)" "i \<notin> B" "i < length (pt_tab s')" "inuse (pt_tab s' ! i)" "pcb_ok B s'" "pcb_views B s' = pcb_views B s"
    "j \<in> B \<Longrightarrow> pt_tab s' ! j = pt_tab s ! j"
proof -
  define tab where "tab = (if i = length (pt_tab s) then pt_tab s @ replicate (length (pt_tab s)) pcb_zero else pt_tab s)"
  define pc where "pc = (tab ! i)\<lparr>pc_pid := pid, pc_umpid := int i + 1, pc_flags := PCB_INUSE OR PCB_STARTING, pc_sysscno := NOSC, pc_pp := None\<rparr>"
  have i: "i = first_unused (pt_tab s)" "i < length tab" "length tab \<le> 2 ^ 30"
    and s': "s' = s\<lparr>pt_tab := tab[i := pc], pt_nprocs := pt_nprocs s + 1\<rparr>"
    using n pcb_okD(2) [OF ok] by (auto simp: newpcb_def Let_def tab_def pc_def split: if_splits)
  have nB: "i \<notin> B" using first_unused_free [of "pt_tab s"] pcb_okD(4,5) [OF ok, of i] i(1) by auto
  have tB: "tab ! j = pt_tab s ! j" if "j < length (pt_tab s)" for j using that by (auto simp: tab_def nth_append)
  have oB: "pt_tab s' ! j = pt_tab s ! j" if "j \<in> B" for j
    using that nB pcb_okD(4) [OF ok, of j] tB [of j] unfolding s' by (metis nth_list_update_neq pcbsys.select_convs(1) pcbsys.surjective pcbsys.update_convs(1,2))
  have pc: "inuse pc" "pc_umpid pc = int i + 1" by (simp_all add: pc_def)
  have in_tab: "j < length (pt_tab s) \<and> inuse (pt_tab s ! j)" if "j < length tab" "inuse (tab ! j)" for j
    using that by (auto simp: tab_def nth_append split: if_splits)
  have "pcb_ok B s' \<and> pcb_views B s' = pcb_views B s"
  proof (rule pcb_ok_frame [OF ok])
    fix j assume j: "j < length (pt_tab s')" "inuse (pt_tab s' ! j)"
    show "pc_umpid (pt_tab s' ! j) = int j + 1"
    proof (cases "j = i")
      case True
      have "pt_tab s' ! i = pc" using i(2) by (simp add: s')
      then show ?thesis using pc(2) True by metis
    next
      case False
      have t: "pt_tab s' ! j = tab ! j" "j < length tab" using j(1) False by (simp_all add: s')
      have "j < length (pt_tab s)" "inuse (pt_tab s ! j)" using in_tab [of j] t j(2) by metis+
      then show ?thesis using pcb_okD(7) [OF ok, of j] tB [of j] t(1) by metis
    qed
  next
    show "length (pt_tab s') \<le> 2 ^ 30" using i(3) by (simp add: s')
  qed (use oB in \<open>simp_all add: s' tab_def\<close>)
  then show "i = first_unused (pt_tab s)" "i \<notin> B" "i < length (pt_tab s')" "inuse (pt_tab s' ! i)" "pcb_ok B s'" "pcb_views B s' = pcb_views B s"
    "j \<in> B \<Longrightarrow> pt_tab s' ! j = pt_tab s ! j"
    using i nB pc oB by (auto simp: s')
qed

lemma newpcb_total:
  assumes "pcb_ok B s" "length (pt_tab s) \<le> 2 ^ 29"
  shows "\<exists>i s'. newpcb pid s = Some (i, s')"
  using assms first_unused_le [of "pt_tab s"] pcb_okD(1) [OF assms(1)] by (auto simp: newpcb_def Let_def)

lemma pid_search_Some: "pid_search pid tab = Some i \<Longrightarrow> i < length tab \<and> inuse (tab ! i) \<and> pc_pid (tab ! i) = pid"
  by (induction tab arbitrary: i) (auto split: if_splits)

end
