(* ===== verification/Pcb_Steps.thy ===== *)
theory Pcb_Steps
  imports Pcb_Inv
begin

text \<open>
  The life of the processes as a transition system over the table of the descriptors: every step
  keeps the invariant and is a step of the tree of views or leaves the views unchanged.
\<close>

section \<open>A process that appears\<close>

definition new_slot :: "pcbsys \<Rightarrow> int \<Rightarrow> nat" where
  "new_slot s pid = (case pid2pcb s pid of Some i \<Rightarrow> i | None \<Rightarrow> first_unused (pt_tab s))"

text \<open>The descriptor of \<open>pid\<close> before the constructor runs.\<close>

lemma find_slot:
  assumes ok: "pcb_ok B s" and len: "pid2pcb s pid = None \<Longrightarrow> newpcb pid s \<noteq> None"
    and new: "\<And>i. pid2pcb s pid = Some i \<Longrightarrow> i \<notin> B"
  obtains s1 where "(case pid2pcb s pid of Some i \<Rightarrow> Some (i, s) | None \<Rightarrow> newpcb pid s) = Some (new_slot s pid, s1)"
    "new_slot s pid \<notin> B" "new_slot s pid < length (pt_tab s1)" "inuse (pt_tab s1 ! new_slot s pid)" "pcb_ok B s1"
    "pcb_views B s1 = pcb_views B s" "\<And>j. j \<in> B \<Longrightarrow> pt_tab s1 ! j = pt_tab s ! j"
proof (cases "pid2pcb s pid")
  case None
  obtain i s1 where n: "newpcb pid s = Some (i, s1)" using len [OF None] by auto
  show thesis by (rule that [of s1]) (use newpcb_ok [OF ok n] None n in \<open>simp_all add: new_slot_def\<close>)
next
  case (Some i)
  show thesis by (rule that [of s]) (use Some new [OF Some] ok pid_search_Some [of pid "pt_tab s" i] in \<open>simp_all add: new_slot_def pid2pcb_def\<close>)
qed

definition clone_flags :: "pcbsys \<Rightarrow> nat \<Rightarrow> 32 word" where
  "clone_flags s p = ucast (pc_sysargs (pt_tab s ! p) ! 2)"

text \<open>The descriptor when \<open>pcb_plus\<close> is called.\<close>

lemma handle_new_proc_run:
  assumes ok: "pcb_ok B s" and p: "p \<in> B" and len: "pid2pcb s pid = None \<Longrightarrow> newpcb pid s \<noteq> None"
    and new: "\<And>i. pid2pcb s pid = Some i \<Longrightarrow> i \<notin> B"
  obtains s2 where "handle_new_proc secure h s pid (Some p) = pcb_plus secure h s2 (new_slot s pid) (clone_flags s p) False"
    "new_slot s pid \<notin> B" "new_slot s pid < length (pt_tab s2)" "inuse (pt_tab s2 ! new_slot s pid)"
    "pc_pp (pt_tab s2 ! new_slot s pid) = Some p" "pcb_ok B s2" "pcb_views B s2 = pcb_views B s" "\<And>j. j \<in> B \<Longrightarrow> pt_tab s2 ! j = pt_tab s ! j"
proof -
  let ?i = "new_slot s pid"
  obtain s1 where s1: "(case pid2pcb s pid of Some i \<Rightarrow> Some (i, s) | None \<Rightarrow> newpcb pid s) = Some (?i, s1)"
    "?i \<notin> B" "?i < length (pt_tab s1)" "inuse (pt_tab s1 ! ?i)" "pcb_ok B s1" "pcb_views B s1 = pcb_views B s" "\<And>j. j \<in> B \<Longrightarrow> pt_tab s1 ! j = pt_tab s ! j"
    using find_slot [OF ok len new] by blast
  have pi: "p \<noteq> ?i" "p < length (pt_tab s1)" using p s1(2) pcb_okD(4) [OF s1(5)] by auto
  define pc1 where "pc1 = (pt_tab s1 ! ?i)\<lparr>pc_pp := Some p\<rparr>"
  define pc2 where "pc2 = (if pid2pcb s pid \<noteq> None then pc1\<lparr>pc_flags := pc_flags pc1 AND NOT PCB_STARTING\<rparr>
    else pc1\<lparr>pc_sysargs := (pc_sysargs pc1)[0 := pc_sysargs (pt_tab s ! p) ! 0, 1 := pc_sysargs (pt_tab s ! p) ! 1]\<rparr>)"
  have use: "inuse pc2" "pc_umpid pc2 = pc_umpid (pt_tab s1 ! ?i)" "pc_pp pc2 = Some p"
    using s1(4) inuse_started [of pc1] by (auto simp: pc2_def pc1_def inuse_def)
  have run: "handle_new_proc secure h s pid (Some p) = pcb_plus secure h (pcb_set ?i pc2 s1) ?i (clone_flags s p) False"
    using s1(1,3,7) pi p by (simp add: handle_new_proc_def pcb_at_def pcb_set_def pc1_def [symmetric] pc2_def clone_flags_def Let_def)
  have "pcb_ok B (pcb_set ?i pc2 s1) \<and> pcb_views B (pcb_set ?i pc2 s1) = pcb_views B s1"
    by (rule pcb_set_frame [OF s1(5)]) (use s1(2-4) use pcb_okD(7) [OF s1(5)] in auto)
  moreover have "j \<in> B \<Longrightarrow> pt_tab (pcb_set ?i pc2 s1) ! j = pt_tab s ! j" for j
    using s1(2) s1(7) [of j] by (cases "j = ?i") (simp_all add: pcb_set_def)
  ultimately show thesis using that [OF run s1(2)] s1(3,6) use by (simp add: pcb_set_def)
qed

lemma handle_new_proc_ok:
  assumes ok: "pcb_ok B s" and p: "p \<in> B" and len: "pid2pcb s pid = None \<Longrightarrow> newpcb pid s \<noteq> None"
    and new: "\<And>i. pid2pcb s pid = Some i \<Longrightarrow> i \<notin> B" and np: "clone_flags s p AND CLONE_PARENT \<noteq> 0 \<Longrightarrow> pc_pp (pt_tab s ! p) \<noteq> None"
  shows "\<exists>s'. handle_new_proc secure h s pid (Some p) = Some s' \<and> pcb_ok (insert (new_slot s pid) B) s' \<and>
     vstep (pcb_views B s) (pcb_views (insert (new_slot s pid) B) s')"
proof -
  obtain s2 where s2: "handle_new_proc secure h s pid (Some p) = pcb_plus secure h s2 (new_slot s pid) (clone_flags s p) False"
    "new_slot s pid \<notin> B" "new_slot s pid < length (pt_tab s2)" "inuse (pt_tab s2 ! new_slot s pid)"
    "pc_pp (pt_tab s2 ! new_slot s pid) = Some p" "pcb_ok B s2" "pcb_views B s2 = pcb_views B s" "\<And>j. j \<in> B \<Longrightarrow> pt_tab s2 ! j = pt_tab s ! j"
    using handle_new_proc_run [OF ok p len new, where secure = secure and h = h] by blast
  show ?thesis
    using pcb_plus_ok [OF s2(6,3,2,4,5) p, of "clone_flags s p" secure h] np s2(1,7) s2(8) [OF p] by auto
qed

text \<open>Without the parent that \<open>CLONE_PARENT\<close> asks for, the code follows a NULL pointer.\<close>

lemma plus_fs_orphan: "pc_pp (pt_tab s ! i) = None \<Longrightarrow> pcb_plus_fs h s i False flags = None"
  by (simp add: pcb_plus_fs_def pcb_at_def pcb_deref_def)

lemma handle_new_proc_orphan:
  assumes ok: "pcb_ok B s" and p: "p \<in> B" and len: "pid2pcb s pid = None \<Longrightarrow> newpcb pid s \<noteq> None"
    and new: "\<And>i. pid2pcb s pid = Some i \<Longrightarrow> i \<notin> B" and np: "clone_flags s p AND CLONE_PARENT \<noteq> 0" "pc_pp (pt_tab s ! p) = None"
  shows "handle_new_proc secure h s pid (Some p) = None"
proof -
  let ?i = "new_slot s pid"
  obtain s2 where s2: "handle_new_proc secure h s pid (Some p) = pcb_plus secure h s2 ?i (clone_flags s p) False"
    "?i \<notin> B" "?i < length (pt_tab s2)" "pc_pp (pt_tab s2 ! ?i) = Some p" "pcb_ok B s2" "pt_tab s2 ! p = pt_tab s ! p"
    using handle_new_proc_run [OF ok p len new, where secure = secure and h = h] p by metis
  have pi: "p \<noteq> ?i" "p < length (pt_tab s2)" using p s2(2) pcb_okD(4) [OF s2(5)] by auto
  show ?thesis unfolding s2(1)
    using s2(3,4,6) pi np plus_fs_orphan [of "pcb_set ?i pc s2" ?i for pc]
    by (simp add: pcb_plus_def pcb_at_def pcb_deref_def pcb_set_def)
qed


section \<open>Groups, views and the first process\<close>

lemma pcb_live_set:
  assumes l: "pcb_live B s" "i < length (pt_tab s)" and s': "pt_tab s' = (pt_tab s)[i := pc]"
    and pc: "pc_flags pc = pc_flags (pt_tab s ! i)" "pc_pp pc = pc_pp (pt_tab s ! i)" "pc_umpid pc = pc_umpid (pt_tab s ! i)"
  shows "pcb_live B s'"
proof -
  have f: "inuse pc = inuse (pt_tab s ! i)" using pc(1) by (simp add: inuse_def)
  have "inuse (pt_tab s' ! j) = inuse (pt_tab s ! j)" "pc_pp (pt_tab s' ! j) = pc_pp (pt_tab s ! j)" "pc_umpid (pt_tab s' ! j) = pc_umpid (pt_tab s ! j)" for j
    using f pc l(2) unfolding s' by (cases "j = i"; simp)+
  then show ?thesis using l(1) s' unfolding pcb_live_def by simp
qed

lemma setgroups_ok:
  assumes ok: "pcb_ok B s" and i: "i \<in> B"
  shows "\<exists>s'. wrap_in_setgroups s i mem = Some s' \<and> pcb_ok B s' \<and> pcb_views B s' = pcb_views B s"
proof -
  let ?pc = "pt_tab s ! i" and ?n = "unat (pc_sysargs (pt_tab s ! i) ! 0)"
  have len: "i < length (pt_tab s)" and u: "pc_umpid ?pc = int i + 1" using pcb_okD(4,5,7) [OF ok] i by blast+
  have ii: "insert i (B - {i}) = B" using i by blast
  show ?thesis
  proof (cases "?n > NGROUPS_MAX")
    case True
    then show ?thesis using pcb_set_frame [OF ok, of i "?pc\<lparr>pc_retval := -1, pc_erno := E_INVAL\<rparr>"] len u
      by (simp add: wrap_in_setgroups_def pcb_at_def frame_eq_def inuse_def)
  next
    case False
    obtain g where g: "pc_grouplist ?pc = Some g" using grp_of [OF ok i] by auto
    obtain m where m: "supgrp_put g (pt_grp s) = Some m" "rc_ok sg_count m (\<lambda>j. pc_grouplist (pt_tab s ! j)) (B - {i})" "dom m \<subseteq> dom (pt_grp s)"
      using sgr.drop_user [OF pcb_okD(10) [OF ok] i g] by blast
    have fresh: "m b = None" if "pt_grpbrk s \<le> b" for b using m(3) pcb_okD(11) [OF ok that] by blast
    let ?b = "pt_grpbrk s" and ?x = "\<lparr>sg_count = 1, sg_list = take ?n (mem (pc_sysargs ?pc ! 1) ?n)\<rparr>"
    define pc where "pc = ?pc\<lparr>pc_grouplist := Some ?b, pc_erno := 0, pc_retval := 1\<rparr>"
    define s' where "s' = s\<lparr>pt_grp := m(?b \<mapsto> ?x), pt_grpbrk := ?b + 1, pt_tab := (pt_tab s)[i := pc]\<rparr>"
    have run: "wrap_in_setgroups s i mem = Some s'"
      using False len g m(1) by (simp add: wrap_in_setgroups_def pcb_at_def supgrp_create_def Let_def pcb_set_def s'_def pc_def)
    have nth: "pt_tab s' ! j = (if j = i then pc else pt_tab s ! j)" for j using len by (simp add: s'_def)
    have "rc_ok sg_count (m(?b \<mapsto> ?x)) (\<lambda>j. pc_grouplist (pt_tab s' ! j)) (insert i (B - {i}))"
      by (rule sgr.new_user [OF m(2)]) (use fresh nth in \<open>auto simp: pc_def\<close>)
    moreover have "rc_ok fs_count (pt_fs s) (\<lambda>j. pc_fdfs (pt_tab s' ! j)) B"
      by (rule rc_ok_cong [OF _ pcb_okD(8) [OF ok]]) (simp add: nth pc_def)
    moreover have "pcb_live B s'" by (rule pcb_live_set [of B s i _ pc]) (use ok len in \<open>simp_all add: pcb_ok_def s'_def pc_def\<close>)
    moreover have v: "pcb_views B s' = pcb_views B s" by (rule views_cong) (simp_all add: nth pc_def, simp add: s'_def)
    ultimately have "pcb_ok B s'"
      using pcb_okD(3,9) [OF ok] fresh unfolding pcb_ok_def pcb_shared_def ii by (simp add: s'_def)
    then show ?thesis using run v by blast
  qed
qed

text \<open>A new time stamp of one process.\<close>

lemma pcb_retime:
  assumes ok: "pcb_ok B s" and i: "i \<in> B" and pc: "pc = (pt_tab s ! i)\<lparr>pc_tst := ts, pc_nestepoch := e\<rparr>"
    and st: "vstep (pcb_views B s) \<lparr>vs_te = te, vs_procs = (vs_procs (pcb_views B s))(of_nat i \<mapsto> ts)\<rparr>"
  shows "pcb_ok B (pcb_set i pc (s\<lparr>pt_te := te\<rparr>)) \<and> vstep (pcb_views B s) (pcb_views B (pcb_set i pc (s\<lparr>pt_te := te\<rparr>)))"
proof -
  have len: "i < length (pt_tab s)" using pcb_okD(4) [OF ok] i by blast
  define s' where "s' = pcb_set i pc (s\<lparr>pt_te := te\<rparr>)"
  have nth: "pt_tab s' ! j = (if j = i then pc else pt_tab s ! j)" for j using len by (simp add: s'_def pcb_set_def)
  have B: "insert i B = B" using i by blast
  have "pcb_views B s' = \<lparr>vs_te = te, vs_procs = (vs_procs (pcb_views B s))(of_nat i \<mapsto> ts)\<rparr>"
    using views_upd [OF len pcb_okD(2) [OF ok], of s' te pc B] unfolding B by (simp add: s'_def pcb_set_def pc)
  then have st': "vstep (pcb_views B s) (pcb_views B s')" using st by simp
  have "pcb_live B s'" by (rule pcb_live_set [of B s i _ pc]) (use ok len in \<open>simp_all add: pcb_ok_def s'_def pcb_set_def pc\<close>)
  moreover have "rc_ok fs_count (pt_fs s) (\<lambda>j. pc_fdfs (pt_tab s' ! j)) B" "rc_ok sg_count (pt_grp s) (\<lambda>j. pc_grouplist (pt_tab s' ! j)) B"
    by (rule rc_ok_cong [OF _ pcb_okD(8) [OF ok]], simp add: nth pc) (rule rc_ok_cong [OF _ pcb_okD(10) [OF ok]], simp add: nth pc)
  ultimately have "pcb_ok B s'"
    using vstep_inv [OF st' pcb_okD(3) [OF ok]] pcb_okD(9,11) [OF ok] unfolding pcb_ok_def pcb_shared_def by (simp add: s'_def pcb_set_def)
  with st' show ?thesis by (simp add: s'_def)
qed

lemma proc_of: "pcb_ok B s \<Longrightarrow> i \<in> B \<Longrightarrow> vs_procs (pcb_views B s) (of_nat i) = Some (pc_tst (pt_tab s ! i))"
  using pcb_okD(2,4) [of B s] by (intro views_proc) fastforce+

lemma pcb_newfork_ok:
  assumes ok: "pcb_ok B s" and i: "i \<in> B" and t: "tst_te (pc_tst (pt_tab s ! i)) = Some a" "te_mem (pt_te s) a = Some n" "te_len n < 31"
  shows "\<exists>r s'. pcb_newfork s i = Some (r, s') \<and> pcb_ok B s' \<and> vstep (pcb_views B s) (pcb_views B s')"
proof -
  note p = proc_of [OF ok i]
  obtain v where v: "vs_tree (pcb_views B s) v" using views_tree [OF ok i] .
  obtain ts te where te: "tst_newfork (pt_te s) (Some (pc_tst (pt_tab s ! i))) = Some (ts, te)"
    using newfork_ok [of "pt_te s" "vs_procs (pcb_views B s)" v "of_nat i", OF _ p t] v unfolding views_eta by blast
  have "vstep (pcb_views B s) \<lparr>vs_te = te, vs_procs = (vs_procs (pcb_views B s))(of_nat i \<mapsto> ts)\<rparr>"
    using vnewfork [where ps = "vs_procs (pcb_views B s)" and p = "of_nat i", OF p t te] unfolding views_eta .
  from pcb_retime [OF ok i refl this, of "pc_nestepoch (pt_tab s ! i)"] show ?thesis
    using te pcb_okD(4) [OF ok i] by (simp add: pcb_newfork_def pcb_at_def)
qed

text \<open>The time stamp that \<open>dsys_commonwrap\<close> gives to a call.\<close>

definition stamp_call :: "pcbsys \<Rightarrow> nat \<Rightarrow> pcbsys option" where
  "stamp_call s i = do {
     pc \<leftarrow> pcb_at s i;
     let e = get_epoch (pt_te s);
     Some (pcb_set i (pc\<lparr>pc_tst := (pc_tst pc)\<lparr>tst_epoch := e\<rparr>, pc_nestepoch := e\<rparr>) s)
   }"

lemma stamp_call_ok:
  assumes ok: "pcb_ok B s" and i: "i \<in> B"
  shows "\<exists>s'. stamp_call s i = Some s' \<and> pcb_ok B s' \<and> vstep (pcb_views B s) (pcb_views B s')"
proof -
  let ?e = "get_epoch (pt_te s)" and ?t = "pc_tst (pt_tab s ! i)"
  have "vstep (pcb_views B s) \<lparr>vs_te = pt_te s, vs_procs = (vs_procs (pcb_views B s))(of_nat i \<mapsto> ?t\<lparr>tst_epoch := ?e\<rparr>)\<rparr>"
    using vcall [where ps = "vs_procs (pcb_views B s)" and p = "of_nat i" and s = "pt_te s", OF proc_of [OF ok i]] unfolding views_eta .
  from pcb_retime [OF ok i refl this, of ?e] show ?thesis
    using pcb_okD(4) [OF ok i] by (simp add: stamp_call_def pcb_at_def Let_def)
qed

definition pcbsys_init :: pcbsys where
  "pcbsys_init = \<lparr>pt_tab = allocatepcbtab, pt_nprocs = 0, pt_fs = Map.empty, pt_fsbrk = 0, pt_grp = Map.empty, pt_grpbrk = 0,
     pt_te = te_init, pt_host_uid = 0, pt_host_gid = 0, pt_log = []\<rparr>"

lemma pid2pcb_init: "pid2pcb pcbsys_init pid = None"
proof -
  have "pid_search pid (replicate n pcb_zero) = None" for n by (induction n) auto
  then show ?thesis by (simp add: pid2pcb_def pcbsys_init_def allocatepcbtab_def)
qed


lemma plus_root:
  assumes "tst_newfork (pt_te s) None = Some (t, te)" "i < length (pt_tab s)"
  shows "\<exists>pc s'. pcb_plus_root secure h s i = Some s' \<and> pt_tab s' = (pt_tab s)[i := pc] \<and> same_ids pc (pt_tab s ! i) \<and>
     pc_pp pc = pc_pp (pt_tab s ! i) \<and> pc_fdfs pc = pc_fdfs (pt_tab s ! i) \<and> pc_tst pc = t \<and> pc_grouplist pc = Some (pt_grpbrk s) \<and>
     pt_grp s' = (pt_grp s)(pt_grpbrk s \<mapsto> \<lparr>sg_count = 1, sg_list = hi_groups h\<rparr>) \<and> pt_grpbrk s' = pt_grpbrk s + 1 \<and>
     pt_te s' = te \<and> pt_fs s' = pt_fs s \<and> pt_fsbrk s' = pt_fsbrk s"
  using assms
  by (cases secure; cases "hi_uids h"; cases "hi_gids h")
    (simp_all add: pcb_plus_root_def pcb_at_def supgrp_create_def pcb_set_def same_ids_def, (rule exI, rule conjI, rule refl, simp)+)

lemma boot_run:
  assumes "tst_newfork te_init None = Some (t, te1)" "tst_newproc te1 t = Some (t', te2)"
  shows "\<exists>s' pc f g. handle_new_proc secure h pcbsys_init pid (Some 0) = Some s' \<and> pt_tab s' = allocatepcbtab[0 := pc] \<and>
     pc_flags pc = PCB_INUSE OR PCB_STARTING \<and> pc_umpid pc = 1 \<and> pc_pp pc = Some 0 \<and> pc_fdfs pc = Some 0 \<and> pc_grouplist pc = Some 0 \<and> pc_tst pc = t' \<and>
     pt_fs s' = [0 \<mapsto> f] \<and> fs_count f = 1 \<and> pt_fsbrk s' = 1 \<and> pt_grp s' = [0 \<mapsto> g] \<and> sg_count g = 1 \<and> pt_grpbrk s' = 1 \<and> pt_te s' = te2"
proof -
  have fu: "first_unused allocatepcbtab = 0" by (simp add: allocatepcbtab_def PCBSIZE_def numeral_nat)
  have nth: "allocatepcbtab ! 0 = pcb_zero" "length allocatepcbtab = 10" "allocatepcbtab \<noteq> []" by (simp_all add: allocatepcbtab_def PCBSIZE_def)
  define pc where "pc = pcb_zero\<lparr>pc_pid := pid, pc_umpid := 1, pc_flags := PCB_INUSE OR PCB_STARTING, pc_sysscno := NOSC, pc_pp := Some 0\<rparr>"
  define s1 where "s1 = pcbsys_init\<lparr>pt_nprocs := 1, pt_tab := allocatepcbtab[0 := pc]\<rparr>"
  have pt: "pt_tab pcbsys_init = allocatepcbtab" "pt_nprocs pcbsys_init = 0" by (simp_all add: pcbsys_init_def)
  have hn: "handle_new_proc secure h pcbsys_init pid (Some 0) = pcb_plus secure h s1 0 0 False"
    by (simp add: handle_new_proc_def pid2pcb_init newpcb_def pt fu nth pcb_at_def pcb_set_def Let_def s1_def pc_def)
      (simp add: pcb_zero_def)
  have at: "pcb_at s1 0 = Some pc" "pc_pp pc = Some 0" by (simp_all add: s1_def pcb_at_def nth pc_def)
  let ?f = "\<lparr>fs_count = 1, fs_cwd = hi_cwd h, fs_root = ''/'', fs_mask = hi_umask h\<rparr>"
  define pc1 where "pc1 = pc\<lparr>pc_path := PATH_NULL, pc_tmpfile := None, pc_pp := Some 0\<rparr>"
  define sf where "sf = pcb_set 0 (pc1\<lparr>pc_fdfs := Some 0\<rparr>) ((pcb_set 0 pc1 s1)\<lparr>pt_fs := [0 \<mapsto> ?f], pt_fsbrk := 1\<rparr>)"
  have fs: "pcb_plus_fs h (pcb_set 0 pc1 s1) 0 True 0 = Some sf"
    by (simp add: pcb_plus_fs_def pcb_at_def pcb_set_def CLONE_FS_def fs_new_def s1_def pcbsys_init_def nth sf_def)
  have tf: "pt_tab sf = allocatepcbtab[0 := pc1\<lparr>pc_fdfs := Some 0\<rparr>]" "pt_te sf = te_init" "pt_grp sf = Map.empty" "pt_grpbrk sf = 0" "pt_fs sf = [0 \<mapsto> ?f]" "pt_fsbrk sf = 1"
    by (simp_all add: sf_def s1_def pcb_set_def pcbsys_init_def)
  obtain pc2 sg where sg: "pcb_plus_root secure h sf 0 = Some sg" "pt_tab sg = allocatepcbtab[0 := pc2]" "same_ids pc2 pc"
     "pc_pp pc2 = Some 0" "pc_fdfs pc2 = Some 0" "pc_tst pc2 = t" "pc_grouplist pc2 = Some 0"
     "pt_grp sg = [0 \<mapsto> \<lparr>sg_count = 1, sg_list = hi_groups h\<rparr>]" "pt_grpbrk sg = 1" "pt_te sg = te1" "pt_fs sg = [0 \<mapsto> ?f]" "pt_fsbrk sg = 1"
    using plus_root [of sf t te1 0 secure h] assms(1) tf nth by (auto simp: same_ids_def pc1_def)
  have "pcb_plus secure h s1 0 0 False = um_proc_add (pcb_set 0 (pc2\<lparr>pc_tst := t'\<rparr>) (sg\<lparr>pt_te := te2\<rparr>)) 0"
    by (rule pcb_plus_run [where r = True and old = pc and pp = "Some 0" and sf = sf and ppc = pc2])
      (use at fs sg assms(2) nth in \<open>simp_all add: CLONE_PARENT_def pc1_def pcb_at_def pcb_deref_def\<close>)
  moreover define s' where "s' = sg\<lparr>pt_te := te2, pt_tab := allocatepcbtab[0 := pc2\<lparr>pc_tst := t'\<rparr>], pt_log := pt_log sg @ [Proc_add 1 1 10]\<rparr>"
  ultimately have "pcb_plus secure h s1 0 0 False = Some s'"
    using sg nth by (simp add: um_proc_add_def pcb_at_def pcb_set_def same_ids_def pc_def)
  then show ?thesis unfolding hn using sg
    by (intro exI [of _ s'] exI [of _ "pc2\<lparr>pc_tst := t'\<rparr>"] exI [of _ ?f] exI [of _ "\<lparr>sg_count = 1, sg_list = hi_groups h\<rparr>"])
      (simp add: s'_def same_ids_def pc_def)
qed

lemma boot_pcb_ok:
  "\<exists>s'. handle_new_proc secure h pcbsys_init pid (Some 0) = Some s' \<and> pcb_ok {0} s' \<and> vstep (pcb_views {} pcbsys_init) (pcb_views {0} s')"
proof -
  obtain t te1 t' te2 where te: "tst_newfork te_init None = Some (t, te1)" "tst_newproc te1 t = Some (t', te2)" using boot_ok by blast
  obtain s' pc f g where b: "handle_new_proc secure h pcbsys_init pid (Some 0) = Some s'" "pt_tab s' = allocatepcbtab[0 := pc]"
    "pc_flags pc = PCB_INUSE OR PCB_STARTING" "pc_umpid pc = 1" "pc_pp pc = Some 0" "pc_fdfs pc = Some 0" "pc_grouplist pc = Some 0" "pc_tst pc = t'"
    "pt_fs s' = [0 \<mapsto> f]" "fs_count f = 1" "pt_fsbrk s' = 1" "pt_grp s' = [0 \<mapsto> g]" "sg_count g = 1" "pt_grpbrk s' = 1" "pt_te s' = te2"
    using boot_run [OF te, of secure h pid] by blast
  have l: "length (pt_tab s') = 10" "pt_tab s' ! 0 = pc" "\<And>j. 0 < j \<Longrightarrow> j < 10 \<Longrightarrow> pt_tab s' ! j = pcb_zero"
    by (simp_all add: b(2) allocatepcbtab_def PCBSIZE_def)
  have z: "j = 0" if "j < 10" "inuse (pt_tab s' ! j)" for j using l(3) [of j] not_inuse_zero that by (metis gr0I)
  have live: "pcb_live {0} s'" unfolding pcb_live_def l(1) using z l(2) b(3-5) by fastforce
  have vw: "pcb_views {} pcbsys_init = \<lparr>vs_te = te_init, vs_procs = Map.empty\<rparr>" by (simp add: pcb_views_def pcbsys_init_def)
  have "pcb_views (insert 0 {}) s' = \<lparr>vs_te = te2, vs_procs = (vs_procs (pcb_views {} pcbsys_init))(of_nat 0 \<mapsto> pc_tst pc)\<rparr>"
    by (rule views_upd) (simp_all add: b pcbsys_init_def allocatepcbtab_def PCBSIZE_def)
  then have st: "vstep (pcb_views {} pcbsys_init) (pcb_views {0} s')"
    using vboot [OF _ te, of 0] by (simp add: vw b(8) te_init_def)
  have "vs_inv (pcb_views {} pcbsys_init)" unfolding vw by (simp add: vs_inv_def)
  note inv = vstep_inv [OF st this]
  have "rc_ok fs_count ([0 \<mapsto> f]) (\<lambda>j. pc_fdfs (pt_tab s' ! j)) {0}"
    by (rule fsr.new_user [OF rc_ok_empty]) (use b l in auto)
  moreover have "rc_ok sg_count ([0 \<mapsto> g]) (\<lambda>j. pc_grouplist (pt_tab s' ! j)) {0}"
    by (rule sgr.new_user [OF rc_ok_empty]) (use b l in auto)
  ultimately have "pcb_ok {0} s'" using live inv b unfolding pcb_ok_def pcb_shared_def by simp
  then show ?thesis using b(1) st by blast
qed


section \<open>Steps\<close>

text \<open>
  A process is seen before its parent returns from the call that creates it; a process clones itself
  (its new process has no descriptor, or one without data); a process ends; it changes its groups,
  starts a new view, enters a system call, or another field of its descriptor changes.
\<close>

inductive pstep :: "nat set \<times> pcbsys \<Rightarrow> nat set \<times> pcbsys \<Rightarrow> bool" where
  p_early: "\<lbrakk>pid2pcb s pid = None; handle_new_proc secure h s pid None = Some s'\<rbrakk> \<Longrightarrow> pstep (B, s) (B, s')"
| p_clone: "\<lbrakk>p \<in> B; \<And>i. pid2pcb s pid = Some i \<Longrightarrow> i \<notin> B; handle_new_proc secure h s pid (Some p) = Some s'\<rbrakk> \<Longrightarrow>
     pstep (B, s) (insert (new_slot s pid) B, s')"
| p_exit: "\<lbrakk>i \<in> B; droppcb s i = Some s'\<rbrakk> \<Longrightarrow> pstep (B, s) (B - {i}, s')"
| p_groups: "\<lbrakk>i \<in> B; wrap_in_setgroups s i mem = Some s'\<rbrakk> \<Longrightarrow> pstep (B, s) (B, s')"
| p_view: "\<lbrakk>i \<in> B; tst_te (pc_tst (pt_tab s ! i)) = Some a; te_mem (pt_te s) a = Some n; te_len n < 31; pcb_newfork s i = Some (r, s')\<rbrakk> \<Longrightarrow>
     pstep (B, s) (B, s')"
| p_call: "\<lbrakk>i \<in> B; stamp_call s i = Some s'\<rbrakk> \<Longrightarrow> pstep (B, s) (B, s')"
| p_field: "\<lbrakk>i \<in> B; frame_eq (pt_tab s ! i) pc; pc_umpid pc = pc_umpid (pt_tab s ! i)\<rbrakk> \<Longrightarrow> pstep (B, s) (B, pcb_set i pc s)"

inductive preach :: "nat set \<Rightarrow> pcbsys \<Rightarrow> bool" where
  p_boot: "handle_new_proc secure h pcbsys_init pid (Some 0) = Some s \<Longrightarrow> preach {0} s"
| p_step: "preach B s \<Longrightarrow> pstep (B, s) (B', s') \<Longrightarrow> preach B' s'"

lemma handle_new_proc_slot:
  assumes "handle_new_proc secure h s pid pp = Some s'" "pid2pcb s pid = None"
  shows "newpcb pid s \<noteq> None"
proof
  assume "newpcb pid s = None"
  then show False using assms by (simp add: handle_new_proc_def)
qed

lemma handle_new_proc_early:
  assumes ok: "pcb_ok B s" and r: "handle_new_proc secure h s pid None = Some s'" "pid2pcb s pid = None"
  shows "pcb_ok B s' \<and> pcb_views B s' = pcb_views B s"
proof -
  obtain i where "newpcb pid s = Some (i, s')" using r by (auto simp: handle_new_proc_def bind_eq_Some_conv)
  from newpcb_ok(5,6) [OF ok this] show ?thesis by simp
qed

text \<open>Every step keeps the invariant, and is a step of the views or none.\<close>

lemma pstep_ok:
  assumes "pstep x y" "pcb_ok (fst x) (snd x)"
  shows "pcb_ok (fst y) (snd y) \<and> vstep\<^sup>=\<^sup>= (pcb_views (fst x) (snd x)) (pcb_views (fst y) (snd y))"
  using assms
proof (cases rule: pstep.cases)
  case (p_early s pid secure h s' B)
  then show ?thesis using handle_new_proc_early [of B s secure h pid s'] assms(2) by simp
next
  case (p_clone p B s pid secure h s')
  have len: "pid2pcb s pid = None \<Longrightarrow> newpcb pid s \<noteq> None" using handle_new_proc_slot [OF p_clone(5)] by blast
  have ok: "pcb_ok B s" using assms(2) p_clone(1) by simp
  have "clone_flags s p AND CLONE_PARENT \<noteq> 0 \<Longrightarrow> pc_pp (pt_tab s ! p) \<noteq> None"
    using handle_new_proc_orphan [OF ok p_clone(3) len p_clone(4), of secure h] p_clone(5) by auto
  then show ?thesis using handle_new_proc_ok [OF ok p_clone(3) len p_clone(4), of secure h] p_clone by auto
next
  case (p_exit i B s s')
  then show ?thesis using droppcb_ok [of B s i] assms(2) by auto
next
  case (p_groups i B s mem s')
  then show ?thesis using setgroups_ok [of B s i mem] assms(2) by auto
next
  case (p_view i B s a n r s')
  then show ?thesis using pcb_newfork_ok [of B s i a n] assms(2) by auto
next
  case (p_call i B s s')
  then show ?thesis using stamp_call_ok [of B s i] assms(2) by auto
next
  case (p_field i B s pc)
  moreover from p_field have ok: "pcb_ok B s" using assms(2) by simp
  then have "pc_umpid pc = int i + 1" using p_field pcb_okD(4,5,7) [OF ok, of i] by simp
  ultimately show ?thesis using pcb_set_frame [OF ok, of i pc] by simp
qed

lemma preach_ok: "preach B s \<Longrightarrow> pcb_ok B s"
proof (induction rule: preach.induct)
  case (p_boot secure h pid s)
  then show ?case using boot_pcb_ok [of secure h pid] by auto
next
  case (p_step B s B' s')
  then show ?case using pstep_ok [OF p_step(2)] by simp
qed

lemma preach_views: "preach B s \<Longrightarrow> vreach (pcb_views B s)"
proof (induction rule: preach.induct)
  case (p_boot secure h pid s)
  have "pcb_views {} pcbsys_init = vsys_init" by (simp add: pcb_views_def pcbsys_init_def vsys_init_def)
  then show ?case using boot_pcb_ok [of secure h pid] p_boot vreach_step [OF vreach_init] by auto
next
  case (p_step B s B' s')
  then show ?case using pstep_ok [OF p_step(2)] preach_ok [OF p_step(1)] vreach_step by fastforce
qed

end
