(* ===== verification/Sctab_Access.thy ===== *)
theory Sctab_Access
  imports Um_Misc
begin

text \<open>
  Model of the calls that \<open>sctab.c\<close> nests in a system call of a process: the attributes of a file,
  the test of its permissions, the contents of a symbolic link, and the test of the permission to
  write in the directory of a file.

  A module that manages a file answers through its function for the call, a parameter: the answer
  may depend on the descriptor of the process and may change it.  The host answers through
  \<open>r_lstat64\<close>, \<open>r_access\<close> and \<open>r_readlink\<close>, parameters as well.
\<close>

section \<open>Data\<close>

record fstat = stat64 +
  st_uid :: "32 word"
  st_gid :: "32 word"

definition R_OK :: nat where "R_OK = 4"
definition W_OK :: nat where "W_OK = 2"
definition X_OK :: nat where "X_OK = 1"

definition S_IRWXU :: nat where "S_IRWXU = 448"
definition S_IRWXG :: nat where "S_IRWXG = 56"
definition S_IRWXO :: nat where "S_IRWXO = 7"
definition S_IXALL :: nat where "S_IXALL = 73"
definition S_IWUSR :: nat where "S_IWUSR = 128"
definition S_IWGRP :: nat where "S_IWGRP = 16"
definition S_IWOTH :: nat where "S_IWOTH = 2"

definition NR_lstat :: int where "NR_lstat = 6"
definition NR_access :: int where "NR_access = 21"
definition NR_readlink :: int where "NR_readlink = 89"

type_synonym 'r modfun = "addr \<Rightarrow> string \<Rightarrow> pcb \<Rightarrow> 'r \<times> pcb"

text \<open>The fields of the descriptor that the search in the table of the mounts reads and writes.\<close>

definition ctx_of :: "pcb \<Rightarrow> um_ctx" where
  "ctx_of pc = \<lparr>cx_tst = pc_tst pc, cx_nestepoch = pc_nestepoch pc, cx_hte = pc_hte pc\<rparr>"

definition with_ctx :: "um_ctx \<Rightarrow> pcb \<Rightarrow> pcb" where
  "with_ctx cx pc = pc\<lparr>pc_tst := cx_tst cx, pc_nestepoch := cx_nestepoch cx, pc_hte := cx_hte cx\<rparr>"

text \<open>A string and its final NUL, which the search in the table reads.\<close>

definition cstr :: "string \<Rightarrow> string" where
  "cstr s = s @ [NUL]"

definition pc_check :: "confirms \<Rightarrow> ht_tab \<Rightarrow> pcb \<Rightarrow> string \<Rightarrow> bool \<Rightarrow> (addr option \<times> pcb \<times> ht_tab) option" where
  "pc_check cf t pc path setepoch = do {
     (hte, cx, t) \<leftarrow> ht_check cf t (ctx_of pc) CHECKPATH (cstr path) None setepoch;
     Some (hte, with_ctx cx pc, t)
   }"

section \<open>Permissions\<close>

text \<open>The permission bits of one class of users give all the modes that are asked for.\<close>

definition grants :: "nat \<Rightarrow> nat \<Rightarrow> bool" where
  "grants bits mode \<longleftrightarrow> bits AND mode = mode"

text \<open>The value is 0 or the error.\<close>

definition um_stat2access :: "bool \<Rightarrow> pcbsys \<Rightarrow> ht_tab \<Rightarrow> nat \<Rightarrow> pcb \<Rightarrow> fstat \<Rightarrow> bool \<Rightarrow> int option" where
  "um_stat2access secure s t mode pc stbuf real_uid =
     (if st_mode stbuf = 0 then Some E_NOENT
      else do {
        ro \<leftarrow> (if mode AND W_OK \<noteq> 0 then map_option (\<lambda>fl. fl AND MS_RDONLY \<noteq> 0) (ht_get_mountflags t (pc_hte pc)) else Some False);
        if ro then Some E_ROFS
        else
          let (uid, gid) = (if pc_hte pc = None then (pt_host_uid s, pt_host_gid s)
                else (if real_uid then pc_ruid pc else pc_fsuid pc, if real_uid then pc_rgid pc else pc_fsgid pc))
          in if uid = 0 \<or> \<not> secure then
               Some (if mode AND X_OK \<noteq> 0 \<and> st_mode stbuf AND S_IXALL = 0 then E_ACCES else 0)
             else if uid = st_uid stbuf \<and> grants (drop_bit 6 (st_mode stbuf AND S_IRWXU)) mode then Some 0
             else do {
               member \<leftarrow> (if gid = st_gid stbuf then Some True else in_supgrplist (st_gid stbuf) s pc);
               Some (if member \<and> grants (drop_bit 3 (st_mode stbuf AND S_IRWXG)) mode then 0
                     else if grants (st_mode stbuf AND S_IRWXO) mode then 0
                     else E_ACCES)
             }
      })"

definition um_x_access :: "bool \<Rightarrow> pcbsys \<Rightarrow> ht_tab \<Rightarrow> nat \<Rightarrow> pcb \<Rightarrow> fstat \<Rightarrow> int option" where
  "um_x_access secure s t mode pc stbuf = um_stat2access secure s t mode pc stbuf False"

section \<open>Nested calls\<close>

definition um_x_lstat64 ::
  "confirms \<Rightarrow> (int + fstat) modfun \<Rightarrow> (string \<Rightarrow> int + fstat) \<Rightarrow> ht_tab \<Rightarrow> string \<Rightarrow> pcb \<Rightarrow> bool \<Rightarrow>
     ((int + fstat) \<times> pcb \<times> ht_tab) option" where
  "um_x_lstat64 cf m_lstat r_lstat64 t filename pc isdotdot = do {
     let oldscno = pc_sysscno pc;
     let pc = pc\<lparr>pc_sysscno := NR_lstat\<rparr>;
     let epoch = pc_nestepoch pc;
     (hte, pc, t) \<leftarrow> pc_check cf t pc filename True;
     let (r, pc) = (case hte of
         None \<Rightarrow>
           (let pc = (if pc_hte pc \<noteq> None \<and> isdotdot then pc\<lparr>pc_needs_path_rewrite := True\<rparr> else pc) in
            (r_lstat64 filename, pc\<lparr>pc_hte := None\<rparr>))
       | Some a \<Rightarrow> m_lstat a filename (pc\<lparr>pc_hte := Some a\<rparr>));
     Some (r, pc\<lparr>pc_sysscno := oldscno, pc_nestepoch := epoch\<rparr>, t)
   }"

definition um_xx_access ::
  "confirms \<Rightarrow> int modfun \<Rightarrow> (string \<Rightarrow> int) \<Rightarrow> ht_tab \<Rightarrow> string \<Rightarrow> pcb \<Rightarrow> (int \<times> pcb \<times> ht_tab) option" where
  "um_xx_access cf m_access r_access t filename pc = do {
     let oldscno = pc_sysscno pc;
     let epoch = pc_nestepoch pc;
     let pc = pc\<lparr>pc_sysscno := NR_access\<rparr>;
     (hte, pc, t) \<leftarrow> pc_check cf t pc filename True;
     let (r, pc) = (case hte of None \<Rightarrow> (r_access filename, pc) | Some a \<Rightarrow> m_access a filename (pc\<lparr>pc_hte := Some a\<rparr>));
     Some (r, pc\<lparr>pc_sysscno := oldscno, pc_nestepoch := epoch\<rparr>, t)
   }"

definition um_x_readlink ::
  "(int + string) modfun \<Rightarrow> (string \<Rightarrow> int + string) \<Rightarrow> ht_tab \<Rightarrow> string \<Rightarrow> pcb \<Rightarrow> ((int + string) \<times> pcb) option" where
  "um_x_readlink m_readlink r_readlink t path pc = do {
     let oldscno = pc_sysscno pc;
     let pc = pc\<lparr>pc_sysscno := NR_readlink\<rparr>;
     (r, pc) \<leftarrow> (case pc_hte pc of
         None \<Rightarrow> Some (r_readlink path, pc)
       | Some a \<Rightarrow> do {
           let epoch = pc_nestepoch pc;
           e \<leftarrow> ht_get_epoch t (Some a);
           let (r, pc) = m_readlink a path (pc\<lparr>pc_nestepoch := e\<rparr>);
           Some (r, pc\<lparr>pc_nestepoch := epoch\<rparr>)
         });
     Some (r, pc\<lparr>pc_sysscno := oldscno\<rparr>)
   }"

text \<open>The index of the last slash of a name, or 0: the loop starts at its last character.\<close>

fun back_to_slash :: "string \<Rightarrow> nat \<Rightarrow> nat" where
  "back_to_slash path 0 = 0"
| "back_to_slash path (Suc n) = (if path ! Suc n \<noteq> CHR ''/'' then back_to_slash path n else Suc n)"

text \<open>
  When the loop stops at the first character, \<open>parent\<close> is the literal \<open>"/"\<close> and the code writes a
  NUL into it; on an empty name it reads before the first character.
\<close>

definition um_parentwaccess ::
  "confirms \<Rightarrow> (fstat option) modfun \<Rightarrow> (string \<Rightarrow> fstat option) \<Rightarrow> pcbsys \<Rightarrow> ht_tab \<Rightarrow> string \<Rightarrow> pcb \<Rightarrow>
     (int \<times> pcb \<times> ht_tab) option" where
  "um_parentwaccess cf m_lstat r_lstat64 s t filename pc =
     (if filename = [] then None
      else
        let lastslash = back_to_slash filename (length filename - 1) in
        if lastslash = 0 then None
        else do {
          let parent = take lastslash filename;
          let oldscno = pc_sysscno pc;
          let epoch = tst_epoch (pc_tst pc);
          let nestepoch = pc_nestepoch pc;
          let now = get_epoch (ht_te t);
          let pc = pc\<lparr>pc_sysscno := NR_lstat, pc_tst := (pc_tst pc)\<lparr>tst_epoch := now\<rparr>, pc_nestepoch := now\<rparr>;
          (hte, pc, t) \<leftarrow> pc_check cf t pc parent False;
          let (r, pc) = (case hte of
              None \<Rightarrow> (r_lstat64 parent, pc)
            | Some a \<Rightarrow> (let oldhte = pc_hte pc; (r, pc) = m_lstat a parent (pc\<lparr>pc_hte := Some a\<rparr>) in (r, pc\<lparr>pc_hte := oldhte\<rparr>)));
          let pc = pc\<lparr>pc_sysscno := oldscno, pc_tst := (pc_tst pc)\<lparr>tst_epoch := epoch\<rparr>, pc_nestepoch := nestepoch\<rparr>;
          (case r of
             None \<Rightarrow> Some (E_IO, pc, t)
           | Some st \<Rightarrow>
               if pc_suid pc = st_uid st \<and> st_mode st AND S_IWUSR \<noteq> 0 then Some (0, pc, t)
               else do {
                 grp \<leftarrow> (if st_mode st AND S_IWGRP = 0 then Some False
                         else if pc_sgid pc = st_gid st then Some True
                         else in_supgrplist (st_gid st) s pc);
                 Some (if grp then 0 else if st_mode st AND S_IWOTH \<noteq> 0 then 0 else E_ACCES, pc, t)
               })
        })"

section \<open>Calls for the modules\<close>

text \<open>
  The descriptor of the current process is NULL outside a system call.  The values that a getter
  stores through its pointers, and the descriptor that a setter leaves.
\<close>

definition um_mod_getresuid :: "pcb option \<Rightarrow> int \<times> (32 word \<times> 32 word \<times> 32 word) option" where
  "um_mod_getresuid p = (case p of None \<Rightarrow> (-1, None) | Some pc \<Rightarrow> (0, Some (pc_ruid pc, pc_euid pc, pc_suid pc)))"

definition um_mod_getresgid :: "pcb option \<Rightarrow> int \<times> (32 word \<times> 32 word \<times> 32 word) option" where
  "um_mod_getresgid p = (case p of None \<Rightarrow> (-1, None) | Some pc \<Rightarrow> (0, Some (pc_rgid pc, pc_egid pc, pc_sgid pc)))"

definition um_mod_getfs_uid_gid :: "pcb option \<Rightarrow> int \<times> (32 word \<times> 32 word) option" where
  "um_mod_getfs_uid_gid p = (case p of None \<Rightarrow> (-1, None) | Some pc \<Rightarrow> (0, Some (pc_fsuid pc, pc_fsgid pc)))"

definition um_mod_setresuid :: "32 word \<Rightarrow> 32 word \<Rightarrow> 32 word \<Rightarrow> pcb option \<Rightarrow> int \<times> pcb option" where
  "um_mod_setresuid ruid euid suid p = (case p of None \<Rightarrow> (-1, None)
     | Some pc \<Rightarrow>
         let pc = (if ruid \<noteq> -1 then pc\<lparr>pc_ruid := ruid\<rparr> else pc);
             pc = (if euid \<noteq> -1 then pc\<lparr>pc_euid := euid\<rparr> else pc);
             pc = (if suid \<noteq> -1 then pc\<lparr>pc_suid := suid\<rparr> else pc)
         in (0, Some pc))"

definition um_mod_setresgid :: "32 word \<Rightarrow> 32 word \<Rightarrow> 32 word \<Rightarrow> pcb option \<Rightarrow> int \<times> pcb option" where
  "um_mod_setresgid rgid egid sgid p = (case p of None \<Rightarrow> (-1, None)
     | Some pc \<Rightarrow>
         let pc = (if rgid \<noteq> -1 then pc\<lparr>pc_rgid := rgid\<rparr> else pc);
             pc = (if egid \<noteq> -1 then pc\<lparr>pc_egid := egid\<rparr> else pc);
             pc = (if sgid \<noteq> -1 then pc\<lparr>pc_sgid := sgid\<rparr> else pc)
         in (0, Some pc))"

definition um_mod_setfs_uid_gid :: "32 word \<Rightarrow> 32 word \<Rightarrow> pcb option \<Rightarrow> int \<times> pcb option" where
  "um_mod_setfs_uid_gid fsuid fsgid p = (case p of None \<Rightarrow> (-1, None)
     | Some pc \<Rightarrow>
         let pc = (if fsuid \<noteq> -1 then pc\<lparr>pc_fsuid := fsuid\<rparr> else pc);
             pc = (if fsgid \<noteq> -1 then pc\<lparr>pc_fsgid := fsgid\<rparr> else pc)
         in (0, Some pc))"

section \<open>The classes of a user\<close>

text \<open>
  The permission bits of the classes a user belongs to: owner, group and others.  POSIX takes the
  first of them; the code takes any of them.
\<close>

definition class_bits :: "32 word \<Rightarrow> bool \<Rightarrow> fstat \<Rightarrow> nat list" where
  "class_bits uid member st =
     (if uid = st_uid st then [drop_bit 6 (st_mode st AND S_IRWXU)] else []) @
     (if member then [drop_bit 3 (st_mode st AND S_IRWXG)] else []) @ [st_mode st AND S_IRWXO]"

definition posix_access :: "32 word \<Rightarrow> bool \<Rightarrow> fstat \<Rightarrow> nat \<Rightarrow> bool" where
  "posix_access uid member st mode \<longleftrightarrow> grants (hd (class_bits uid member st)) mode"

text \<open>An unprivileged user on a file that a module manages.\<close>

lemma stat2access_classes:
  assumes "st_mode st \<noteq> 0" "pc_hte pc = Some a" "ht_mem t a = Some e" "mode AND W_OK \<noteq> 0 \<Longrightarrow> ht_mountflags e AND MS_RDONLY = 0"
    and "pc_fsuid pc \<noteq> 0" "pc_fsgid pc = st_gid st \<and> member \<or> pc_fsgid pc \<noteq> st_gid st \<and> in_supgrplist (st_gid st) s pc = Some member"
  shows "um_stat2access True s t mode pc st False =
     Some (if \<exists>b \<in> set (class_bits (pc_fsuid pc) member st). grants b mode then 0 else E_ACCES)"
proof -
  have "(if mode AND W_OK \<noteq> 0 then map_option (\<lambda>fl. fl AND MS_RDONLY \<noteq> 0) (ht_get_mountflags t (pc_hte pc)) else Some False) = Some False"
    using assms(2-4) by (auto simp: ht_get_mountflags_def)
  then show ?thesis using assms unfolding um_stat2access_def class_bits_def
    by (auto simp: Let_def)
qed

end
