(* ===== verification/Pcb_Props.thy ===== *)
theory Pcb_Props
  imports Pcb_Steps Sctab_Access
begin

text \<open>
  Properties of the processes: their shared data, their views, their identities and their permissions.
\<close>

section \<open>Processes\<close>









text \<open>
  A process that is seen before its parent returns from the call that creates it has no data: when
  it ends then, its destructor follows a NULL pointer.
\<close>

theorem early_exit_faults:
  assumes "newpcb pid s = Some (i, s')" "pc_fdfs (pt_tab s' ! i) = None"
  shows "droppcb s' i = None"
proof -
  have "pc_fdfs (cut_pp i pc) = pc_fdfs pc" for pc by (simp add: cut_pp_def)
  then show ?thesis using assms(2) by (simp add: droppcb_def pcb_minus_def forallpcbdo_def pcb_at_def um_proc_del_def)
qed

section \<open>User identities\<close>


definition uids :: "pcb \<Rightarrow> (32 word) set" where
  "uids pc = {pc_ruid pc, pc_euid pc, pc_suid pc, pc_fsuid pc}"

lemma uids_simps [simp]: "uids (eperm pc) = uids pc" "uids (done_ok pc) = uids pc" "uids (pc\<lparr>pc_sysargs := xs\<rparr>) = uids pc"
  by (simp_all add: uids_def eperm_def done_ok_def)









text \<open>
  The call \<open>setresuid\<close> stores its second argument as the saved identity: root that keeps its effective
  identity and sets only the saved one gets \<open>-1\<close>.
\<close>

theorem setresuid_saves_second:
  "pc_euid pc = 0 \<Longrightarrow> sysarg pc 0 = -1 \<Longrightarrow> sysarg pc 1 = -1 \<Longrightarrow> sysarg pc 2 \<noteq> -1 \<Longrightarrow>
     pc_suid (wrap_in_setresuid True NR_setresuid pc None us) = -1"
  by (simp add: wrap_in_setresuid_def checksecureuid_def capcheck_def done_ok_def Let_def)

section \<open>Group identities\<close>

text \<open>
  C36: The check of the group identities is the wrong way round: a process that is not root may
  take any group in secure mode, with the permissions of the group on the files of the modules,
  while root may only take a group it already has.
\<close>

theorem setgid_unchecked:
  fixes us :: um_set
  assumes "pc_euid pc \<noteq> 0" "pc_egid pc \<noteq> 0" "gid = sysarg pc 0"
  defines "pc' \<equiv> wrap_in_setgid True NR_setgid pc None us"
  shows "pc_retval pc' = 0 \<and> pc_egid pc' = gid \<and> pc_fsgid pc' = gid \<and>
     (\<forall>s t st a e mode. pc_hte pc = Some a \<longrightarrow> ht_mem t a = Some e \<longrightarrow> ht_mountflags e AND MS_RDONLY = 0 \<longrightarrow> st_mode st \<noteq> 0 \<longrightarrow>
        pc_fsuid pc \<noteq> 0 \<longrightarrow> gid = st_gid st \<longrightarrow> grants (drop_bit 3 (st_mode st AND S_IRWXG)) mode \<longrightarrow> um_x_access True s t mode pc' st = Some 0) \<and>
     (\<forall>rt. pc_euid rt = 0 \<longrightarrow> sysarg rt 0 \<notin> {-1, pc_rgid rt, pc_sgid rt} \<longrightarrow> wrap_in_setgid True NR_setgid rt None us = eperm rt)"
proof -
  have pc': "pc' = pc\<lparr>pc_egid := gid, pc_fsgid := gid, pc_retval := 0, pc_erno := 0\<rparr>"
    using assms(1-3) unfolding pc'_def by (simp add: wrap_in_setgid_def checksecuregid_def capcheck_def done_ok_def Let_def)
  have acc: "um_x_access True s t mode pc' st = Some 0"
    if h: "pc_hte pc = Some a" "ht_mem t a = Some e" "ht_mountflags e AND MS_RDONLY = 0" "st_mode st \<noteq> 0" "pc_fsuid pc \<noteq> 0" "gid = st_gid st"
      "grants (drop_bit 3 (st_mode st AND S_IRWXG)) mode" for s t st a e mode
  proof -
    have "um_stat2access True s t mode pc' st False =
       Some (if \<exists>b \<in> set (class_bits (pc_fsuid pc') True st). grants b mode then 0 else E_ACCES)"
      by (rule stat2access_classes) (use h in \<open>simp_all add: pc'\<close>)
    then show ?thesis using h(7) by (simp add: um_x_access_def class_bits_def)
  qed
  have rt: "wrap_in_setgid True NR_setgid rt None us = eperm rt" if "pc_euid rt = 0" "sysarg rt 0 \<notin> {-1, pc_rgid rt, pc_sgid rt}" for rt
    using that by (simp add: wrap_in_setgid_def checksecuregid_def capcheck_def Let_def)
  show ?thesis using acc rt by (auto simp: pc')
qed

theorem setgid_unchecked_witness:
  "pc_retval (wrap_in_setgid True NR_setgid (pcb_zero\<lparr>pc_euid := 5, pc_egid := 5, pc_sysargs := [42, 0, 0, 0, 0, 0]\<rparr>) None (\<lambda>a pc. (0, 0, pc))) = 0 \<and>
   pc_egid (wrap_in_setgid True NR_setgid (pcb_zero\<lparr>pc_euid := 5, pc_egid := 5, pc_sysargs := [42, 0, 0, 0, 0, 0]\<rparr>) None (\<lambda>a pc. (0, 0, pc))) = 42"
  using setgid_unchecked [of "pcb_zero\<lparr>pc_euid := 5, pc_egid := 5, pc_sysargs := [42, 0, 0, 0, 0, 0]\<rparr>" 42 "\<lambda>a pc. (0, 0, pc)"]
  by (simp add: sysarg_def pcb_zero_def)

section \<open>Permissions\<close>



text \<open>
  The directory of an entry of the root: the code writes a NUL into a literal.
\<close>

theorem parent_of_root_entry_faults:
  assumes "CHR ''/'' \<notin> set n"
  shows "um_parentwaccess cf m_lstat r_lstat64 s t (CHR ''/'' # n) pc = None"
proof -
  have "back_to_slash (CHR ''/'' # n) k = 0" if "k \<le> length n" for k
    using that
  proof (induction k)
    case (Suc k)
    then have "n ! k \<in> set n" by simp
    then have "n ! k \<noteq> CHR ''/''" using assms by auto
    then show ?case using Suc by simp
  qed simp
  then show ?thesis by (simp add: um_parentwaccess_def)
qed

text \<open>The nested calls of the translation of a path leave the number of the call and the epoch of the process as they were.\<close>

theorem nested_calls_restore:
  "um_x_lstat64 cf ml rl t f pc dd = Some (r, pc', t') \<Longrightarrow> pc_sysscno pc' = pc_sysscno pc \<and> pc_nestepoch pc' = pc_nestepoch pc"
  "um_xx_access cf ma ra t f pc = Some (r2, pc2, t2) \<Longrightarrow> pc_sysscno pc2 = pc_sysscno pc \<and> pc_nestepoch pc2 = pc_nestepoch pc"
  "um_x_readlink mr rr t f pc = Some (r3, pc3) \<Longrightarrow> pc_sysscno pc3 = pc_sysscno pc \<and> pc_nestepoch pc3 = pc_nestepoch pc"
  by (auto simp: um_x_lstat64_def um_xx_access_def um_x_readlink_def bind_eq_Some_conv Let_def split_beta split: option.splits)

end
