(* ===== verification/Sctab_Choice.thy ===== *)
theory Sctab_Choice
  imports Sctab_Access Umproc
begin

text \<open>
  Model of the choice functions of \<open>sctab.c\<close>: how the path of a system call becomes absolute
  (\<open>um_abspath\<close>) and which element of the table of the mounts manages the call.

  The strings that \<open>strdup\<close> returns are objects of a heap, so that the field \<open>path\<close> of the
  descriptor can dangle.  The state of a call has the descriptor, the heap of the paths, the file
  table and the file system data of the process, and the tables of the monitor.
\<close>

section \<open>State\<close>

text \<open>Calls on the host and on the memory of the process.\<close>

datatype wevent = Unlink_tmp string | Ustoren u64 nat string | Ustoren_id u64 nat "32 word"

record wrap =
  w_pc :: pcb
  w_pathstat :: stat64
  w_heap :: "addr \<rightharpoonup> string"
  w_brk :: addr
  w_up :: umproc
  w_file :: pcb_file
  w_fs :: pcb_fs
  w_sp :: u64                     \<comment> \<open>the stack pointer of the process\<close>
  w_rax :: int                    \<comment> \<open>the register of the return value\<close>
  w_log :: "wevent list"

text \<open>
  What a call learns from outside: the strings in the memory of the process (\<open>umovestr\<close>), the links
  of \<open>/proc\<close>, the answers of the file system during one translation of a path, the element and the
  device that its last \<open>um_x_lstat64\<close> leaves in the descriptor, the bytes after the string in the
  buffer of \<open>um_realpath\<close>, the confirmation functions of the modules, the strings of the aliases and
  the descriptor of the secret file of mmap.
\<close>

record wenv =
  we_umovestr :: "u64 \<Rightarrow> string option"
  we_readlink :: "int \<Rightarrow> string option"
  we_host :: host
  we_found :: "string \<Rightarrow> addr option \<times> u64"
  we_junk :: string
  we_confirm :: confirms
  we_alias :: "addr \<Rightarrow> string"
  we_secret :: int

definition AT_FDCWD :: int where "AT_FDCWD = -100"
definition AT_REMOVEDIR :: u64 where "AT_REMOVEDIR = 0x200"
definition AT_SYMLINK_NOFOLLOW :: u64 where "AT_SYMLINK_NOFOLLOW = 0x100"
definition AT_SYMLINK_FOLLOW :: u64 where "AT_SYMLINK_FOLLOW = 0x400"
definition MAP_ANONYMOUS :: u64 where "MAP_ANONYMOUS = 0x20"
definition E_BADF :: int where "E_BADF = 9"
definition E_FAULT :: int where "E_FAULT = 14"
definition E_XDEV :: int where "E_XDEV = 18"
definition NR_symlink :: int where "NR_symlink = 88"
definition NR_linkat :: int where "NR_linkat = 265"

definition w_set :: "(pcb \<Rightarrow> pcb) \<Rightarrow> wrap \<Rightarrow> wrap" where
  "w_set f w = w\<lparr>w_pc := f (w_pc w)\<rparr>"

definition w_arg :: "wrap \<Rightarrow> nat \<Rightarrow> u64" where
  "w_arg w n = pc_sysargs (w_pc w) ! n"

text \<open>A file descriptor argument is converted to an \<open>int\<close>.\<close>

definition w_fdarg :: "wrap \<Rightarrow> nat \<Rightarrow> int" where
  "w_fdarg w n = sint (ucast (w_arg w n) :: 32 word)"

definition strdup :: "string \<Rightarrow> wrap \<Rightarrow> pathptr \<times> wrap" where
  "strdup p w = (PATH (w_brk w), w\<lparr>w_heap := (w_heap w)(w_brk w \<mapsto> p), w_brk := w_brk w + 1\<rparr>)"

text \<open>\<open>free\<close> of a path: neither \<open>um_patherror\<close> nor a string that is not allocated may be freed.\<close>

definition path_free :: "pathptr \<Rightarrow> wrap \<Rightarrow> wrap option" where
  "path_free p w = (case p of PATH_NULL \<Rightarrow> Some w | PATH_ERR \<Rightarrow> None
     | PATH a \<Rightarrow> if w_heap w a = None then None else Some (w\<lparr>w_heap := (w_heap w)(a := None)\<rparr>))"

definition path_str :: "wrap \<Rightarrow> pathptr \<Rightarrow> string option" where
  "path_str w p = (case p of PATH a \<Rightarrow> w_heap w a | _ \<Rightarrow> None)"

definition w_check :: "wenv \<Rightarrow> wrap \<Rightarrow> nat \<Rightarrow> string \<Rightarrow> stat64 option \<Rightarrow> bool \<Rightarrow> (addr option \<times> wrap) option" where
  "w_check e w type arg st setepoch = do {
     (hte, cx, t) \<leftarrow> ht_check (we_confirm e) (up_ht (w_up w)) (ctx_of (w_pc w)) type arg st setepoch;
     Some (hte, w\<lparr>w_pc := with_ctx cx (w_pc w), w_up := (w_up w)\<lparr>up_ht := t\<rparr>\<rparr>)
   }"

definition w_fd :: "wenv \<Rightarrow> wrap \<Rightarrow> int \<Rightarrow> (ht_ref \<times> wrap) option" where
  "w_fd e w fd = do {
     (r, u) \<leftarrow> ht_fd ((w_up w)\<lparr>up_cx := ctx_of (w_pc w)\<rparr>) (we_secret e) (w_file w) fd True;
     Some (r, w\<lparr>w_pc := with_ctx (up_cx u) (w_pc w), w_up := u\<rparr>)
   }"

section \<open>Paths\<close>

definition um_getpath :: "wenv \<Rightarrow> u64 \<Rightarrow> wrap \<Rightarrow> pathptr \<times> wrap" where
  "um_getpath e laddr w = (case we_umovestr e laddr of Some p \<Rightarrow> strdup p w | None \<Rightarrow> (PATH_ERR, w))"

definition utimensat_nullpath :: "wenv \<Rightarrow> int \<Rightarrow> bool \<Rightarrow> wrap \<Rightarrow> (pathptr \<times> wrap) option" where
  "utimensat_nullpath e dirfd dontfollowlink w =
     (if dirfd = AT_FDCWD then Some (PATH_ERR, w_set (\<lambda>pc. pc\<lparr>pc_erno := E_FAULT\<rparr>) w)
      else if dontfollowlink then Some (PATH_ERR, w_set (\<lambda>pc. pc\<lparr>pc_erno := E_INVAL\<rparr>) w)
      else do {
        path \<leftarrow> fd_getpath (w_up w) (w_file w) dirfd;
        (case path of
           Some p \<Rightarrow> Some (strdup p w)
         | None \<Rightarrow> (case we_readlink e dirfd of
             None \<Rightarrow> Some (PATH_ERR, w_set (\<lambda>pc. pc\<lparr>pc_erno := E_BADF\<rparr>) w)
           | Some p \<Rightarrow> Some (strdup p w)))
      })"

text \<open>
  The absolute path, the attributes of the file and the new state.  \<open>um_realpath\<close> writes the element
  it found last, the attributes and the error into the descriptor; an overrun of its buffer is \<open>None\<close>.
\<close>

definition abspath_result :: "wenv \<Rightarrow> string \<Rightarrow> recout \<times> nat \<Rightarrow> wrap \<Rightarrow> (pathptr \<times> stat64 \<times> wrap) option" where
  "abspath_result e path = (\<lambda>(r, mode) w.
     let (hte, dev) = we_found e path;
         w = w_set (\<lambda>pc. pc\<lparr>pc_hte := hte\<rparr>) w;
         w = (if length (fs_root (w_fs w)) > 1 \<and> hte = None then w_set (\<lambda>pc. pc\<lparr>pc_needs_path_rewrite := True\<rparr>) w else w);
         pst = \<lparr>st_mode = mode, st_rdev = dev\<rparr>
     in (case r of
          DONE p \<Rightarrow> (let (q, w) = strdup p (w_set (\<lambda>pc. pc\<lparr>pc_erno := 0\<rparr>) w) in Some (q, pst, w))
        | ERR er \<Rightarrow> Some (PATH_ERR, pst, w_set (\<lambda>pc. pc\<lparr>pc_erno := er\<rparr>) w)
        | _ \<Rightarrow> None))"

text \<open>The directory of a relative path: the current one, or the one of a file descriptor.\<close>

definition abspath_cwd :: "wenv \<Rightarrow> int \<Rightarrow> wrap \<Rightarrow> string option option" where
  "abspath_cwd e dirfd w =
     (if dirfd = AT_FDCWD then Some (Some (fs_cwd (w_fs w)))
      else do {
        d \<leftarrow> fd_getpath (w_up w) (w_file w) dirfd;
        Some (if d = None then we_readlink e dirfd else d)
      })"

definition um_abspath :: "wenv \<Rightarrow> int \<Rightarrow> u64 \<Rightarrow> bool \<Rightarrow> stat64 \<Rightarrow> wrap \<Rightarrow> (pathptr \<times> stat64 \<times> wrap) option" where
  "um_abspath e dirfd laddr dontfollowlink pst w = (case we_umovestr e laddr of
       None \<Rightarrow> Some (PATH_ERR, pst, w_set (\<lambda>pc. pc\<lparr>pc_erno := E_INVAL\<rparr>) w)
     | Some path \<Rightarrow> do {
         cwd \<leftarrow> abspath_cwd e dirfd w;
         (case cwd of
            None \<Rightarrow> Some (PATH_ERR, pst, w_set (\<lambda>pc. pc\<lparr>pc_erno := E_BADF\<rparr>) w)
          | Some cwd \<Rightarrow> do {
              r \<leftarrow> um_realpath (we_host e) (we_junk e) (fs_root (w_fs w)) (Some path) (Some cwd) dontfollowlink;
              abspath_result e path r w
            })
       })"

text \<open>\<open>pc->path = um_abspath(dirfd, laddr, pc, &(pc->pathstat), dontfollowlink)\<close>\<close>

definition load_path :: "wenv \<Rightarrow> int \<Rightarrow> u64 \<Rightarrow> bool \<Rightarrow> wrap \<Rightarrow> wrap option" where
  "load_path e dirfd laddr dontfollowlink w = do {
     (p, st, w) \<leftarrow> um_abspath e dirfd laddr dontfollowlink (w_pathstat w) w;
     Some (w_set (\<lambda>pc. pc\<lparr>pc_path := p\<rparr>) (w\<lparr>w_pathstat := st\<rparr>))
   }"

text \<open>The element that manages the path of the descriptor; none for a path that is mistaken.\<close>

definition check_path :: "wenv \<Rightarrow> wrap \<Rightarrow> (ht_ref \<times> wrap) option" where
  "check_path e w =
     (if pc_path (w_pc w) = PATH_ERR then Some (HT_REF None, w)
      else do {
        p \<leftarrow> path_str w (pc_path (w_pc w));
        (hte, w) \<leftarrow> w_check e w CHECKPATH (cstr p) (Some (w_pathstat w)) True;
        Some (HT_REF hte, w)
      })"

section \<open>Aliases\<close>

text \<open>\<open>n\<close> is the number of aliases that are still followed.\<close>

fun rec_alias :: "wenv \<Rightarrow> nat \<Rightarrow> string \<Rightarrow> nat \<Rightarrow> wrap \<Rightarrow> (string \<times> wrap) option" where
  "rec_alias e type alias n w = do {
     (hte, w) \<leftarrow> w_check e w type (cstr alias) None False;
     (case hte of
        None \<Rightarrow> Some (alias, w)
      | Some a \<Rightarrow> (case n of
          0 \<Rightarrow> Some (alias, w)
        | Suc n \<Rightarrow> do {
            pd \<leftarrow> ht_get_private_data (up_ht (w_up w)) (Some a);
            d \<leftarrow> pd;
            rec_alias e type (we_alias e d) n w
          }))
   }"

declare rec_alias.simps [simp del]

definition get_alias :: "wenv \<Rightarrow> nat \<Rightarrow> string \<Rightarrow> wrap \<Rightarrow> (string \<times> wrap) option" where
  "get_alias e type alias w = rec_alias e type alias (MAXSYMLINKS + 1) w"

section \<open>Choice functions\<close>

type_synonym choice = "wenv \<Rightarrow> int \<Rightarrow> wrap \<Rightarrow> (ht_ref \<times> wrap) option"

definition choice_fd :: choice where
  "choice_fd e sc_number w = w_fd e w (w_fdarg w 0)"

definition choice_sc :: choice where
  "choice_sc e sc_number w = map_option (\<lambda>(hte, w). (HT_REF hte, w)) (w_check e w CHECKSC (dev_bytes (word_of_int sc_number)) None True)"

definition choice_mount :: choice where
  "choice_mount e sc_number w = do {
     w \<leftarrow> load_path e AT_FDCWD (w_arg w 1) False w;
     if pc_path (w_pc w) = PATH_ERR then Some (HT_REF None, w)
     else (case we_umovestr e (w_arg w 2) of
         None \<Rightarrow> Some (HT_REF None, w)
       | Some fstype \<Rightarrow> do {
           (name, w) \<leftarrow> get_alias e CHECKFSALIAS fstype w;
           (hte, w) \<leftarrow> w_check e w CHECKFSTYPE (cstr name) None False;
           Some (HT_REF hte, w)
         })
   }"

definition choice_path :: choice where
  "choice_path e sc_number w = Option.bind (load_path e AT_FDCWD (w_arg w 0) False w) (check_path e)"

definition choice_path_exact :: choice where
  "choice_path_exact e sc_number w = do {
     w \<leftarrow> load_path e AT_FDCWD (w_arg w 0) True w;
     if pc_path (w_pc w) = PATH_ERR then Some (HT_REF None, w)
     else do {
       p \<leftarrow> path_str w (pc_path (w_pc w));
       (hte, w) \<leftarrow> w_check e w CHECKPATHEXACT (cstr (if p = ''/'' then [] else p)) (Some (w_pathstat w)) True;
       Some (HT_REF hte, w)
     }
   }"

definition choice_pathat :: choice where
  "choice_pathat e sc_number w = Option.bind (load_path e (w_fdarg w 0) (w_arg w 1) False w) (check_path e)"

definition choice_sockpath :: choice where
  "choice_sockpath e sc_number w =
     (if w_arg w 0 \<noteq> 0 then Option.bind (load_path e AT_FDCWD (w_arg w 0) False w) (check_path e)
      else map_option (\<lambda>(hte, w). (HT_REF hte, w)) (w_check e w CHECKSOCKET (dev_bytes (w_arg w 1)) None True))"

definition choice_link :: choice where
  "choice_link e sc_number w = Option.bind (load_path e AT_FDCWD (w_arg w 0) True w) (check_path e)"

definition choice_linkat :: choice where
  "choice_linkat e sc_number w = Option.bind (load_path e (w_fdarg w 0) (w_arg w 1) True w) (check_path e)"

definition choice_unlinkat :: choice where
  "choice_unlinkat e sc_number w =
     Option.bind (load_path e (w_fdarg w 0) (w_arg w 1) (w_arg w 2 AND AT_REMOVEDIR = 0) w) (check_path e)"

definition choice_utimensat :: choice where
  "choice_utimensat e sc_number w =
     (let nofollow = (w_arg w 3 AND AT_SYMLINK_NOFOLLOW \<noteq> 0) in
      Option.bind
        (if w_arg w 1 = 0 then do {
           (p, w) \<leftarrow> utimensat_nullpath e (w_fdarg w 0) nofollow w;
           Some (w_set (\<lambda>pc. pc\<lparr>pc_path := p\<rparr>) w)
         }
         else load_path e (w_fdarg w 0) (w_arg w 1) nofollow w)
        (check_path e))"

definition choice_pl4at :: choice where
  "choice_pl4at e sc_number w =
     Option.bind (load_path e (w_fdarg w 0) (w_arg w 1) (w_arg w 3 AND AT_SYMLINK_NOFOLLOW \<noteq> 0) w) (check_path e)"

definition choice_pl5at :: choice where
  "choice_pl5at e sc_number w =
     Option.bind (load_path e (w_fdarg w 0) (w_arg w 1) (w_arg w 4 AND AT_SYMLINK_NOFOLLOW \<noteq> 0) w) (check_path e)"

text \<open>
  The new name is real: the old one may not be virtual.  The old path is freed; when it is virtual,
  so is the new one, and the call fails.
\<close>

definition check_oldpath :: "wenv \<Rightarrow> int \<Rightarrow> u64 \<Rightarrow> bool \<Rightarrow> wrap \<Rightarrow> wrap option" where
  "check_oldpath e dirfd laddr dontfollowlink w = do {
     (oldpath, oldstat, w) \<leftarrow> um_abspath e dirfd laddr dontfollowlink \<lparr>st_mode = 0, st_rdev = 0\<rparr> w;
     if oldpath = PATH_ERR then Some w
     else do {
       p \<leftarrow> path_str w oldpath;
       (hte, w) \<leftarrow> w_check e w CHECKPATH (cstr p) (Some oldstat) False;
       w \<leftarrow> (if hte \<noteq> None then do {
               w \<leftarrow> path_free (pc_path (w_pc w)) w;
               Some (w_set (\<lambda>pc. pc\<lparr>pc_path := PATH_ERR, pc_erno := E_XDEV\<rparr>) w)
             } else Some w);
       path_free oldpath w
     }
   }"

definition choice_link2 :: choice where
  "choice_link2 e sc_number w = do {
     w \<leftarrow> load_path e AT_FDCWD (w_arg w 1) True w;
     if pc_path (w_pc w) = PATH_ERR then Some (HT_REF None, w)
     else do {
       (r, w) \<leftarrow> check_path e w;
       if r = HT_REF None \<and> sc_number \<noteq> NR_symlink then do {
         w \<leftarrow> check_oldpath e AT_FDCWD (w_arg w 0) True w;
         Some (HT_REF None, w)
       }
       else Some (r, w)
     }
   }"

definition choice_link2at :: choice where
  "choice_link2at e sc_number w = Option.bind (load_path e (w_fdarg w 1) (w_arg w 2) True w) (check_path e)"

definition choice_link3at :: choice where
  "choice_link3at e sc_number w = do {
     w \<leftarrow> load_path e (w_fdarg w 2) (w_arg w 3) True w;
     if pc_path (w_pc w) = PATH_ERR then Some (HT_REF None, w)
     else do {
       (r, w) \<leftarrow> check_path e w;
       if r = HT_REF None then do {
         let nofollow = (if sc_number = NR_linkat then w_arg w 4 AND AT_SYMLINK_FOLLOW = 0 else True);
         w \<leftarrow> check_oldpath e (w_fdarg w 0) (w_arg w 1) nofollow w;
         Some (HT_REF None, w)
       }
       else Some (r, w)
     }
   }"

definition choice_socket :: choice where
  "choice_socket e sc_number w = map_option (\<lambda>(hte, w). (HT_REF hte, w)) (w_check e w CHECKSOCKET (dev_bytes (w_arg w 0)) None True)"

definition choice_mmap :: choice where
  "choice_mmap e sc_number w =
     (if w_arg w 3 AND MAP_ANONYMOUS \<noteq> 0 then Some (HT_REF None, w) else w_fd e w (w_fdarg w 4))"

definition always_null :: choice where
  "always_null e sc_number w = Some (HT_REF None, w)"

end
