(* ===== verification/Sctab_Wrap.thy ===== *)
theory Sctab_Wrap
  imports Sctab_Choice
begin

text \<open>
  Model of the dispatcher of the system calls of \<open>sctab.c\<close>: \<open>dsys_commonwrap\<close> and its instances
  \<open>dsys_megawrap\<close> and \<open>dsys_um_virsc\<close>, and the rows of the table \<open>scmap\<close> for the identities of a
  process.  A row has functions, as in the source; \<open>check_suspend_on\<close> is a parameter.
\<close>

section \<open>Constants\<close>

definition SC_SKIP_CALL :: int where "SC_SKIP_CALL = 0x5"
definition SC_SKIP_EXIT :: int where "SC_SKIP_EXIT = 0x2"
definition SC_SAVEREGS :: int where "SC_SAVEREGS = 0x8"
definition SC_SUSPENDED :: int where "SC_SUSPENDED = 0x10"
definition STD_BEHAVIOR :: int where "STD_BEHAVIOR = SC_SKIP_EXIT"
definition SC_MODICALL :: int where "SC_MODICALL = SC_SKIP_EXIT OR SC_SAVEREGS"
definition SC_FAKE :: int where "SC_FAKE = SC_SKIP_CALL OR SC_SKIP_EXIT OR SC_SAVEREGS"
definition SC_CALLONXIT :: int where "SC_CALLONXIT = SC_SAVEREGS"

lemmas SC_defs = SC_SKIP_CALL_def SC_SKIP_EXIT_def SC_SAVEREGS_def SC_SUSPENDED_def STD_BEHAVIOR_def
  SC_MODICALL_def SC_FAKE_def SC_CALLONXIT_def

definition ALWAYS :: "16 word" where "ALWAYS = 0x8000"

datatype inout = IN | OUT

record sc_map =
  sm_scchoice :: choice
  sm_wrapin :: "int \<Rightarrow> addr option \<Rightarrow> sysfun option \<Rightarrow> wrap \<Rightarrow> (int \<times> wrap) option"
  sm_wrapout :: "int \<Rightarrow> wrap \<Rightarrow> (int \<times> wrap) option"
  sm_flags :: "16 word"
  sm_nargx :: "8 word"

definition ISPATHARG :: "8 word \<Rightarrow> nat" where "ISPATHARG x = unat (drop_bit 3 x AND 0x7)"
definition PATHARG :: "8 word \<Rightarrow> nat" where "PATHARG x = unat (drop_bit 3 x AND 0x7) - 1"

definition WORDALIGN :: "nat \<Rightarrow> nat" where "WORDALIGN x = (x + 8) div 8 * 8"

section \<open>The dispatcher\<close>

definition um_x_rewritepath :: "pathptr \<Rightarrow> nat \<Rightarrow> wrap \<Rightarrow> wrap option" where
  "um_x_rewritepath path arg w = do {
     p \<leftarrow> path_str w path;
     let pathlen = WORDALIGN (length p);
     let pos = w_sp w - of_nat pathlen;
     Some (w_set (\<lambda>pc. pc\<lparr>pc_sysargs := (pc_sysargs pc)[arg := pos]\<rparr>) (w\<lparr>w_log := w_log w @ [Ustoren pos pathlen p]\<rparr>))
   }"

definition putrv :: "int \<Rightarrow> wrap \<Rightarrow> wrap" where
  "putrv rv w = w\<lparr>w_rax := rv\<rparr>"

definition puterrno :: "int \<Rightarrow> wrap \<Rightarrow> wrap" where
  "puterrno er w = (if er \<noteq> 0 \<and> pc_retval (w_pc w) = -1 then w\<lparr>w_rax := - er\<rparr> else w)"

text \<open>The temporary file of the previous call is deleted.\<close>

definition drop_tmpfile :: "wrap \<Rightarrow> wrap" where
  "drop_tmpfile w = (case pc_tmpfile (w_pc w) of None \<Rightarrow> w
     | Some f \<Rightarrow> w_set (\<lambda>pc. pc\<lparr>pc_tmpfile := None\<rparr>) (w\<lparr>w_log := w_log w @ [Unlink_tmp f]\<rparr>))"

definition w_stamp :: "wrap \<Rightarrow> wrap" where
  "w_stamp w = (let now = get_epoch (ht_te (up_ht (w_up w))) in
     w_set (\<lambda>pc. pc\<lparr>pc_tst := (pc_tst pc)\<lparr>tst_epoch := now\<rparr>, pc_nestepoch := now\<rparr>) w)"

text \<open>The call is managed by the element \<open>hte\<close>, or internally when it is NULL.\<close>

definition wrap_managed ::
  "(wrap \<Rightarrow> int \<Rightarrow> nat \<Rightarrow> (int \<times> wrap) option) \<Rightarrow> (ht_tab \<Rightarrow> addr option \<Rightarrow> nat \<Rightarrow> sysfun option option) \<Rightarrow>
     sc_map \<Rightarrow> nat \<Rightarrow> int \<Rightarrow> addr option \<Rightarrow> wrap \<Rightarrow> (int \<times> wrap) option" where
  "wrap_managed check_suspend_on sc row index sc_number hte w = do {
     let howsusp = unat (sm_flags row AND 0x7);
     (what, w) \<leftarrow> (if howsusp \<noteq> 0 then check_suspend_on w (w_fdarg w 0) howsusp else Some (STD_BEHAVIOR, w));
     if what \<noteq> STD_BEHAVIOR then
       if what = SC_CALLONXIT then do {
         w \<leftarrow> path_free (pc_path (w_pc w)) w;
         Some (what, w_set (\<lambda>pc. pc\<lparr>pc_path := PATH_ERR\<rparr>) w)
       }
       else Some (what, w)
     else do {
       um_syscall \<leftarrow> sc (up_ht (w_up w)) hte index;
       sm_wrapin row sc_number hte um_syscall w
     }
   }"

text \<open>Nobody manages the call: the process runs it, with the path rewritten when it is necessary.\<close>

definition wrap_unmanaged :: "sc_map \<Rightarrow> wrap \<Rightarrow> (int \<times> wrap) option" where
  "wrap_unmanaged row w = do {
     w' \<leftarrow> (if pc_needs_path_rewrite (w_pc w) \<and> ISPATHARG (sm_nargx row) \<noteq> 0
            then um_x_rewritepath (pc_path (w_pc w)) (PATHARG (sm_nargx row)) w else Some w);
     w'' \<leftarrow> path_free (pc_path (w_pc w')) w';
     Some (if pc_needs_path_rewrite (w_pc w) then SC_MODICALL else STD_BEHAVIOR, w'')
   }"

definition commonwrap_in ::
  "(wrap \<Rightarrow> int \<Rightarrow> nat \<Rightarrow> (int \<times> wrap) option) \<Rightarrow> wenv \<Rightarrow> int \<Rightarrow> (int \<Rightarrow> wrap \<Rightarrow> wrap option) \<Rightarrow> (int \<Rightarrow> wrap \<Rightarrow> nat) \<Rightarrow>
     (ht_tab \<Rightarrow> addr option \<Rightarrow> nat \<Rightarrow> sysfun option option) \<Rightarrow> (nat \<Rightarrow> sc_map) \<Rightarrow> wrap \<Rightarrow> (int \<times> wrap) option" where
  "commonwrap_in check_suspend_on e sc_number dcpa dcif sc sm w = do {
     w \<leftarrow> dcpa sc_number (w_stamp w);
     let index = dcif sc_number w;
     let row = sm index;
     (r, w) \<leftarrow> sm_scchoice row e sc_number (w_set (\<lambda>pc. pc\<lparr>pc_needs_path_rewrite := False\<rparr>) w);
     let hte = (case r of HT_ERR \<Rightarrow> None | HT_REF h \<Rightarrow> h);
     let w = w_set (\<lambda>pc. pc\<lparr>pc_hte := hte\<rparr>) w;
     if pc_path (w_pc w) = PATH_ERR then Some (SC_FAKE, w_set (\<lambda>pc. pc\<lparr>pc_retval := -1\<rparr>) w)
     else if r = HT_ERR then
       Some (SC_FAKE, w_set (\<lambda>pc. pc\<lparr>pc_path := PATH_ERR, pc_erno := E_BADF, pc_retval := -1\<rparr>) w)
     else if hte \<noteq> None \<or> sm_flags row AND ALWAYS \<noteq> 0 then
       wrap_managed check_suspend_on sc row index sc_number hte w
     else wrap_unmanaged row w
   }"

definition commonwrap_out :: "int \<Rightarrow> (int \<Rightarrow> wrap \<Rightarrow> nat) \<Rightarrow> (nat \<Rightarrow> sc_map) \<Rightarrow> wrap \<Rightarrow> (int \<times> wrap) option" where
  "commonwrap_out sc_number dcif sm w =
     (if pc_path (w_pc w) \<noteq> PATH_ERR then do {
        (retval, w) \<leftarrow> sm_wrapout (sm (dcif sc_number w)) sc_number w;
        w \<leftarrow> (if retval AND SC_SUSPENDED = 0 then path_free (pc_path (w_pc w)) w else Some w);
        Some (retval, w)
      }
      else Some (SC_MODICALL, puterrno (pc_erno (w_pc w)) (putrv (pc_retval (w_pc w)) w)))"

definition dsys_commonwrap ::
  "(wrap \<Rightarrow> int \<Rightarrow> nat \<Rightarrow> (int \<times> wrap) option) \<Rightarrow> wenv \<Rightarrow> int \<Rightarrow> inout \<Rightarrow> (int \<Rightarrow> wrap \<Rightarrow> wrap option) \<Rightarrow> (int \<Rightarrow> wrap \<Rightarrow> nat) \<Rightarrow>
     (ht_tab \<Rightarrow> addr option \<Rightarrow> nat \<Rightarrow> sysfun option option) \<Rightarrow> (nat \<Rightarrow> sc_map) \<Rightarrow> wrap \<Rightarrow> (int \<times> wrap) option" where
  "dsys_commonwrap check_suspend_on e sc_number io dcpa dcif sc sm w = (case io of
       IN \<Rightarrow> commonwrap_in check_suspend_on e sc_number dcpa dcif sc sm (drop_tmpfile w)
     | OUT \<Rightarrow> commonwrap_out sc_number dcif sm (drop_tmpfile w))"

section \<open>System calls and virtual system calls\<close>

text \<open>\<open>private_scno\<close> is only read by the index function of the virtual calls, from the descriptor.\<close>

definition dsys_megawrap_parse_arguments :: "int \<Rightarrow> wrap \<Rightarrow> wrap option" where
  "dsys_megawrap_parse_arguments scno w = Some (w_set (\<lambda>pc. pc\<lparr>pc_private_scno := word_of_int (pc_sysscno pc), pc_path := PATH_NULL\<rparr>) w)"

definition dsys_megawrap ::
  "(wrap \<Rightarrow> int \<Rightarrow> nat \<Rightarrow> (int \<times> wrap) option) \<Rightarrow> wenv \<Rightarrow> (int \<Rightarrow> nat) \<Rightarrow> (nat \<Rightarrow> sc_map) \<Rightarrow> int \<Rightarrow> inout \<Rightarrow> wrap \<Rightarrow> (int \<times> wrap) option" where
  "dsys_megawrap check_suspend_on e uscno scmap sc_number io w =
     dsys_commonwrap check_suspend_on e sc_number io dsys_megawrap_parse_arguments (\<lambda>scno w. uscno scno) ht_syscall scmap w"

definition ESCNO_VIRSC :: "16 word" where "ESCNO_VIRSC = 0x8000"
definition ESCNO_MASK :: "16 word" where "ESCNO_MASK = 0x3fff"

text \<open>\<open>mem\<close> are the words in the memory of the process, \<open>None\<close> where it has none.\<close>

definition dsys_um_virsc_parse_arguments :: "(u64 \<Rightarrow> nat \<Rightarrow> u64 list option) \<Rightarrow> int \<Rightarrow> wrap \<Rightarrow> wrap option" where
  "dsys_um_virsc_parse_arguments mem scno w =
     (let n = unat (w_arg w 1) in
      Some (if w_arg w 0 = 0 \<and> n \<le> 6 then
              w_set (\<lambda>pc. pc\<lparr>pc_private_scno := ucast (w_arg w 2) OR ESCNO_VIRSC,
                pc_sysargs := (case mem (w_arg w 3) n of None \<Rightarrow> pc_sysargs pc | Some ws \<Rightarrow> take n ws @ drop n (pc_sysargs pc))\<rparr>) w
            else w_set (\<lambda>pc. pc\<lparr>pc_private_scno := ESCNO_VIRSC\<rparr>) w))"

definition dsys_um_virsc_index_function :: "int \<Rightarrow> wrap \<Rightarrow> nat" where
  "dsys_um_virsc_index_function scno w = unat (pc_private_scno (w_pc w) AND ESCNO_MASK)"

definition dsys_um_virsc ::
  "(wrap \<Rightarrow> int \<Rightarrow> nat \<Rightarrow> (int \<times> wrap) option) \<Rightarrow> wenv \<Rightarrow> (u64 \<Rightarrow> nat \<Rightarrow> u64 list option) \<Rightarrow> (nat \<Rightarrow> sc_map) \<Rightarrow> int \<Rightarrow> inout \<Rightarrow> wrap \<Rightarrow> (int \<times> wrap) option" where
  "dsys_um_virsc check_suspend_on e mem virscmap sc_number io w =
     dsys_commonwrap check_suspend_on e sc_number io (dsys_um_virsc_parse_arguments mem) dsys_um_virsc_index_function ht_virsyscall virscmap w"


section \<open>The rows of the table for the identities\<close>

definition wrap_out_std :: "int \<Rightarrow> wrap \<Rightarrow> (int \<times> wrap) option" where
  "wrap_out_std sc_number w =
     (let w = putrv (pc_retval (w_pc w)) w;
          w = (if pc_retval (w_pc w) < 0 then puterrno (pc_erno (w_pc w)) w else w)
      in Some (SC_MODICALL, w))"

text \<open>A row whose choice is \<open>choice_sc\<close>, that is always managed and whose wrapper changes the descriptor.\<close>

definition id_row :: "(int \<Rightarrow> pcb \<Rightarrow> addr option \<Rightarrow> sysfun option \<Rightarrow> pcb) \<Rightarrow> 8 word \<Rightarrow> sc_map" where
  "id_row f nargx = \<lparr>sm_scchoice = choice_sc,
     sm_wrapin = (\<lambda>n hte um_syscall w. Some (SC_FAKE, w_set (\<lambda>pc. f n pc hte um_syscall) w)),
     sm_wrapout = wrap_out_std, sm_flags = ALWAYS, sm_nargx = nargx\<rparr>"

text \<open>The rows of \<open>getresuid\<close> and \<open>getresgid\<close>, whose wrappers store into the memory of the process.\<close>

definition id_store_row :: "(int \<Rightarrow> pcb \<Rightarrow> addr option \<Rightarrow> sysfun option \<Rightarrow> pcb \<times> (u64 \<times> nat \<times> 32 word) list) \<Rightarrow> sc_map" where
  "id_store_row f = \<lparr>sm_scchoice = choice_sc,
     sm_wrapin = (\<lambda>n hte um_syscall w. let (pc, st) = f n (w_pc w) hte um_syscall in
        Some (SC_FAKE, w\<lparr>w_pc := pc, w_log := w_log w @ map (\<lambda>(p, k, v). Ustoren_id p k v) st\<rparr>)),
     sm_wrapout = wrap_out_std, sm_flags = ALWAYS, sm_nargx = 3\<rparr>"

text \<open>
  The rows for the 16-bit and then for the 32-bit calls; on x86-64 their numbers are the same.  \<open>us\<close>
  and \<open>ug\<close> are the functions of the modules.  Row 0 is the one of the calls without a row.  Positions
  are those of this part of the table.
\<close>

definition id_rows :: "bool \<Rightarrow> (sysfun option \<Rightarrow> um_set) \<Rightarrow> (sysfun option \<Rightarrow> um_get) \<Rightarrow> (int \<times> sc_map) list" where
  "id_rows secure us ug =
     [(-1, \<lparr>sm_scchoice = always_null, sm_wrapin = (\<lambda>n hte f w. None), sm_wrapout = (\<lambda>n w. None), sm_flags = 0, sm_nargx = 6\<rparr>),
      (NR_getuid, id_row (\<lambda>n pc hte f. wrap_in_getxid16 n pc hte (ug f)) 1),
      (NR_setuid, id_row (\<lambda>n pc hte f. wrap_in_setuid secure n pc hte (us f)) 1),
      (NR_geteuid, id_row (\<lambda>n pc hte f. wrap_in_getxid16 n pc hte (ug f)) 1),
      (NR_setfsuid, id_row (\<lambda>n pc hte f. wrap_in_setuid secure n pc hte (us f)) 1),
      (NR_setreuid, id_row (\<lambda>n pc hte f. wrap_in_setreuid secure n pc hte (us f)) 2),
      (NR_getresuid, id_store_row (\<lambda>n pc hte f. wrap_in_getresuid n pc hte (ug f))),
      (NR_setresuid, id_row (\<lambda>n pc hte f. wrap_in_setresuid secure n pc hte (us f)) 3),
      (NR_getgid, id_row (\<lambda>n pc hte f. wrap_in_getxid16 n pc hte (ug f)) 1),
      (NR_setgid, id_row (\<lambda>n pc hte f. wrap_in_setgid secure n pc hte (us f)) 1),
      (NR_getegid, id_row (\<lambda>n pc hte f. wrap_in_getxid16 n pc hte (ug f)) 1),
      (NR_setfsgid, id_row (\<lambda>n pc hte f. wrap_in_setgid secure n pc hte (us f)) 1),
      (NR_setregid, id_row (\<lambda>n pc hte f. wrap_in_setregid secure n pc hte (us f)) 2),
      (NR_getresgid, id_store_row (\<lambda>n pc hte f. wrap_in_getresgid n pc hte (ug f))),
      (NR_setresgid, id_row (\<lambda>n pc hte f. wrap_in_setresgid secure n pc hte (us f)) 3),
      (NR_getuid, id_row (\<lambda>n pc hte f. wrap_in_getxid n pc hte (ug f)) 1),
      (NR_setuid, id_row (\<lambda>n pc hte f. wrap_in_setuid secure n pc hte (us f)) 1),
      (NR_geteuid, id_row (\<lambda>n pc hte f. wrap_in_getxid n pc hte (ug f)) 1),
      (NR_setfsuid, id_row (\<lambda>n pc hte f. wrap_in_setuid secure n pc hte (us f)) 1),
      (NR_setreuid, id_row (\<lambda>n pc hte f. wrap_in_setreuid secure n pc hte (us f)) 2),
      (NR_getresuid, id_store_row (\<lambda>n pc hte f. wrap_in_getresuid n pc hte (ug f))),
      (NR_setresuid, id_row (\<lambda>n pc hte f. wrap_in_setresuid secure n pc hte (us f)) 3),
      (NR_getgid, id_row (\<lambda>n pc hte f. wrap_in_getxid n pc hte (ug f)) 1),
      (NR_setgid, id_row (\<lambda>n pc hte f. wrap_in_setgid secure n pc hte (us f)) 1),
      (NR_getegid, id_row (\<lambda>n pc hte f. wrap_in_getxid n pc hte (ug f)) 1),
      (NR_setfsgid, id_row (\<lambda>n pc hte f. wrap_in_setgid secure n pc hte (us f)) 1),
      (NR_setregid, id_row (\<lambda>n pc hte f. wrap_in_setregid secure n pc hte (us f)) 2),
      (NR_getresgid, id_store_row (\<lambda>n pc hte f. wrap_in_getresgid n pc hte (ug f))),
      (NR_setresgid, id_row (\<lambda>n pc hte f. wrap_in_setresgid secure n pc hte (us f)) 3)]"

text \<open>\<open>init_scmap\<close>: the last row of a number counts.  \<open>N\<close> is \<open>_UM_NR_syscalls\<close>.\<close>

definition scremap :: "(int \<times> 'a) list \<Rightarrow> int \<Rightarrow> nat" where
  "scremap rows scno = fold (\<lambda>i r. if fst (rows ! i) = scno then i else r) [0..<length rows] 0"

definition uscno :: "nat \<Rightarrow> (int \<times> 'a) list \<Rightarrow> int \<Rightarrow> nat" where
  "uscno N rows scno = (if 0 \<le> scno \<and> scno < int N then scremap rows scno else 0)"

definition sc_rows :: "(int \<times> sc_map) list \<Rightarrow> nat \<Rightarrow> sc_map" where
  "sc_rows rows i = snd (rows ! (if i < length rows then i else 0))"

section \<open>The rows of the virtual system calls\<close>

definition wrap_out_umservice :: "int \<Rightarrow> wrap \<Rightarrow> (int \<times> wrap) option" where
  "wrap_out_umservice sc_number w =
     (let w = putrv (pc_retval (w_pc w)) w in Some (SC_MODICALL, puterrno (pc_erno (w_pc w)) w))"

definition NALWAYS :: "16 word" where "NALWAYS = 0x4000"

text \<open>The wrappers of the two calls, and the exit of a socket call, are parameters.\<close>

definition virscmap ::
  "(int \<Rightarrow> addr option \<Rightarrow> sysfun option \<Rightarrow> wrap \<Rightarrow> (int \<times> wrap) option) \<Rightarrow>
   (int \<Rightarrow> addr option \<Rightarrow> sysfun option \<Rightarrow> wrap \<Rightarrow> (int \<times> wrap) option) \<Rightarrow> (int \<Rightarrow> wrap \<Rightarrow> (int \<times> wrap) option) \<Rightarrow> (int \<times> sc_map) list" where
  "virscmap wrap_in_umservice wrap_in_msocket wrap_out_socket =
     [(-1, \<lparr>sm_scchoice = always_null, sm_wrapin = (\<lambda>n hte f w. None), sm_wrapout = (\<lambda>n w. None), sm_flags = 0, sm_nargx = 0\<rparr>),
      (1, \<lparr>sm_scchoice = always_null, sm_wrapin = wrap_in_umservice, sm_wrapout = wrap_out_umservice, sm_flags = ALWAYS, sm_nargx = 1\<rparr>),
      (2, \<lparr>sm_scchoice = choice_sockpath, sm_wrapin = wrap_in_msocket, sm_wrapout = wrap_out_socket, sm_flags = ALWAYS OR NALWAYS, sm_nargx = 4\<rparr>)]"

end
