(* ===== verification/Wrap_Paths.thy ===== *)
theory Wrap_Paths
  imports Sctab_Wrap
begin

text \<open>
  The paths that the dispatcher of the system calls allocates and frees: while a call is managed the
  heap has the path of the descriptor and nothing else, and between two calls it is empty.  A call
  without a path has nothing to rewrite.
\<close>

section \<open>Invariant\<close>

definition path_ok :: "wrap \<Rightarrow> bool" where
  "path_ok w \<longleftrightarrow> (\<forall>a \<ge> w_brk w. w_heap w a = None) \<and>
     (case pc_path (w_pc w) of
         PATH a \<Rightarrow> dom (w_heap w) = {a}
       | PATH_NULL \<Rightarrow> w_heap w = Map.empty \<and> \<not> pc_needs_path_rewrite (w_pc w)
       | PATH_ERR \<Rightarrow> w_heap w = Map.empty)"

definition idle :: "wrap \<Rightarrow> bool" where
  "idle w \<longleftrightarrow> w_heap w = Map.empty"

text \<open>Two states with the same path and the same heap.\<close>

definition same_path :: "wrap \<Rightarrow> wrap \<Rightarrow> bool" where
  "same_path w w' \<longleftrightarrow> w_heap w' = w_heap w \<and> w_brk w' = w_brk w \<and> pc_path (w_pc w') = pc_path (w_pc w) \<and>
     pc_needs_path_rewrite (w_pc w') = pc_needs_path_rewrite (w_pc w)"

lemma same_path_refl [simp]: "same_path w w"
  by (simp add: same_path_def)

lemma same_path_trans: "same_path w w' \<Longrightarrow> same_path w' w'' \<Longrightarrow> same_path w w''"
  by (simp add: same_path_def)

lemma path_ok_same: "same_path w w' \<Longrightarrow> path_ok w' = path_ok w"
  by (simp add: same_path_def path_ok_def cong: pathptr.case_cong)

lemma path_ok_brk:
  assumes "path_ok w" "w_heap w' = w_heap w" "w_brk w \<le> w_brk w'" "pc_path (w_pc w') = pc_path (w_pc w)" "pc_path (w_pc w) \<noteq> PATH_NULL"
  shows "path_ok w'"
  using assms(1,3,5) unfolding path_ok_def assms(2,4) by (cases "pc_path (w_pc w)") auto

lemma idle_same: "same_path w w' \<Longrightarrow> idle w' = idle w"
  by (simp add: same_path_def idle_def)

lemma with_ctx_path [simp]: "pc_path (with_ctx cx pc) = pc_path pc" "pc_needs_path_rewrite (with_ctx cx pc) = pc_needs_path_rewrite pc"
  by (simp_all add: with_ctx_def)

lemma w_check_path: "w_check e w type arg st se = Some (h, w') \<Longrightarrow> same_path w w'"
  by (auto simp: w_check_def same_path_def bind_eq_Some_conv)

lemma w_fd_path: "w_fd e w fd = Some (r, w') \<Longrightarrow> same_path w w'"
  by (auto simp: w_fd_def same_path_def bind_eq_Some_conv)

lemma rec_alias_path: "rec_alias e type al n w = Some (x, w') \<Longrightarrow> same_path w w'"
proof (induction n arbitrary: al w)
  case 0
  then show ?case by (subst (asm) rec_alias.simps) (auto simp: bind_eq_Some_conv split: option.splits dest: w_check_path)
next
  case (Suc n)
  from Suc.prems show ?case
    by (subst (asm) rec_alias.simps)
      (auto simp: bind_eq_Some_conv split: option.splits dest!: w_check_path Suc.IH intro: same_path_trans)
qed

section \<open>Paths that become absolute\<close>

text \<open>A new string at the end of the heap, or a mistake and the same heap.\<close>

definition abspath_eff :: "wrap \<Rightarrow> pathptr \<Rightarrow> wrap \<Rightarrow> bool" where
  "abspath_eff w p w' \<longleftrightarrow> pc_path (w_pc w') = pc_path (w_pc w) \<and>
     (p = PATH_ERR \<and> w_heap w' = w_heap w \<and> w_brk w' = w_brk w \<or>
      (\<exists>x. p = PATH (w_brk w) \<and> w_heap w' = (w_heap w)(w_brk w \<mapsto> x) \<and> w_brk w' = w_brk w + 1))"

lemma abspath_result_eff: "abspath_result e path r w = Some (p, st, w') \<Longrightarrow> abspath_eff w p w'"
  by (cases r; cases "we_found e path"; cases "fst r") (auto simp: abspath_result_def abspath_eff_def w_set_def strdup_def Let_def split: if_splits)

lemma um_abspath_eff: "um_abspath e dirfd laddr nf pst w = Some (p, st, w') \<Longrightarrow> abspath_eff w p w'"
  by (auto simp: um_abspath_def bind_eq_Some_conv split: option.splits dest: abspath_result_eff)
    (auto simp: abspath_eff_def w_set_def)

lemma strdup_eff: "strdup x w = (p, w') \<Longrightarrow> abspath_eff w p w'"
  unfolding abspath_eff_def strdup_def by (intro conjI disjI2 exI [of _ x]) auto

lemma error_eff: "abspath_eff w PATH_ERR (w_set (\<lambda>pc. pc\<lparr>pc_erno := er\<rparr>) w)"
  by (simp add: abspath_eff_def w_set_def)

lemma nullpath_eff: "utimensat_nullpath e dirfd nf w = Some (p, w') \<Longrightarrow> abspath_eff w p w'"
  by (auto simp: utimensat_nullpath_def bind_eq_Some_conv split: option.splits if_splits dest: strdup_eff intro: error_eff)

lemma set_path_ok:
  assumes "abspath_eff w p w'" "w_heap w = Map.empty"
  shows "path_ok (w_set (\<lambda>pc. pc\<lparr>pc_path := p\<rparr>) (w'\<lparr>w_pathstat := st\<rparr>))" "path_ok (w_set (\<lambda>pc. pc\<lparr>pc_path := p\<rparr>) w')"
  using assms by (auto simp: abspath_eff_def path_ok_def w_set_def)

lemma load_path_ok: "load_path e dirfd laddr nf w = Some w' \<Longrightarrow> w_heap w = Map.empty \<Longrightarrow> path_ok w'"
  by (auto simp: load_path_def bind_eq_Some_conv dest!: um_abspath_eff intro!: set_path_ok(1))

lemma check_path_same: "check_path e w = Some (r, w') \<Longrightarrow> same_path w w'"
  by (auto simp: check_path_def bind_eq_Some_conv split: if_splits dest: w_check_path)

lemma check_path_ok: "check_path e w = Some (r, w') \<Longrightarrow> path_ok w \<Longrightarrow> path_ok w'"
  using check_path_same path_ok_same by blast

text \<open>The old path of a link or of a rename is freed again, and with it the new one when the call fails.\<close>

lemma check_oldpath_ok:
  assumes r: "check_oldpath e dirfd laddr nf w = Some w'" and ok: "path_ok w" and nn: "pc_path (w_pc w) \<noteq> PATH_NULL"
  shows "path_ok w'"
proof -
  obtain old st w1 where a: "um_abspath e dirfd laddr nf \<lparr>st_mode = 0, st_rdev = 0\<rparr> w = Some (old, st, w1)"
    using r by (auto simp: check_oldpath_def bind_eq_Some_conv)
  note eff = um_abspath_eff [OF a]
  show ?thesis
  proof (cases "old = PATH_ERR")
    case True
    then have "w' = w1" using r a by (simp add: check_oldpath_def)
    moreover have "path_ok w1" using eff True by (intro path_ok_brk [OF ok]) (simp_all add: abspath_eff_def nn)
    ultimately show ?thesis by blast
  next
    case False
    let ?b = "w_brk w"
    obtain x where x: "old = PATH ?b" "w_heap w1 = (w_heap w)(?b \<mapsto> x)" "w_brk w1 = ?b + 1" "pc_path (w_pc w1) = pc_path (w_pc w)"
      using eff False by (auto simp: abspath_eff_def)
    obtain hte w2 where c: "w_check e w1 CHECKPATH (cstr x) (Some st) False = Some (hte, w2)"
      and w': "Option.bind (if hte \<noteq> None then Option.bind (path_free (pc_path (w_pc w2)) w2)
          (\<lambda>w. Some (w_set (\<lambda>pc. pc\<lparr>pc_path := PATH_ERR, pc_erno := E_XDEV\<rparr>) w)) else Some w2) (path_free old) = Some w'"
      using r a x by (auto simp: check_oldpath_def path_str_def bind_eq_Some_conv)
    have s2: "w_heap w2 = (w_heap w)(?b \<mapsto> x)" "w_brk w2 = ?b + 1" "pc_path (w_pc w2) = pc_path (w_pc w)"
      using w_check_path [OF c] x by (simp_all add: same_path_def)
    have fresh: "w_heap w ?b = None" "\<And>a. ?b \<le> a \<Longrightarrow> w_heap w a = None" using ok by (simp_all add: path_ok_def)
    show ?thesis
    proof (cases "hte = None")
      case True
      then have "w_heap w' = w_heap w" "w_brk w' = ?b + 1" "pc_path (w_pc w') = pc_path (w_pc w)"
        using w' s2 x(1) fresh(1) by (auto simp: path_free_def fun_upd_idem)
      then show ?thesis using path_ok_brk [OF ok] nn by simp
    next
      case hte: False
      show ?thesis
      proof (cases "pc_path (w_pc w)")
        case (PATH a)
        then have d: "dom (w_heap w) = {a}" "a \<noteq> ?b" using ok fresh(1) by (auto simp: path_ok_def)
        then have "(w_heap w)(a := None) = Map.empty" by (auto simp: fun_eq_iff dom_def)
        then have "((w_heap w)(?b \<mapsto> x))(a := None, ?b := None) = Map.empty" using d(2) by (auto simp: fun_eq_iff split: if_splits)
        then show ?thesis using w' hte s2 x(1) PATH d fresh
          by (auto simp: path_free_def path_ok_def w_set_def split: if_splits)
      qed (use w' hte s2 x(1) fresh ok nn in \<open>auto simp: path_free_def path_ok_def w_set_def fun_upd_idem split: if_splits\<close>)
    qed
  qed
qed

section \<open>The choice functions\<close>

definition choices :: "choice list" where
  "choices = [choice_fd, choice_sc, choice_mount, choice_path, choice_path_exact, choice_pathat, choice_sockpath,
     choice_link, choice_linkat, choice_unlinkat, choice_utimensat, choice_pl4at, choice_pl5at, choice_link2,
     choice_link2at, choice_link3at, choice_socket, choice_mmap, always_null]"

lemmas choice_plain_defs = choice_path_def choice_pathat_def choice_link_def choice_linkat_def choice_unlinkat_def
  choice_pl4at_def choice_pl5at_def choice_link2at_def

text \<open>What a choice function does with the path: it loads it or leaves it, and a mistaken descriptor has none.\<close>

definition choice_keeps :: "choice \<Rightarrow> bool" where
  "choice_keeps c \<longleftrightarrow> (\<forall>e n w r w'. c e n w = Some (r, w') \<longrightarrow> path_ok w \<longrightarrow> pc_path (w_pc w) = PATH_NULL \<longrightarrow>
     path_ok w' \<and> (r = HT_ERR \<longrightarrow> w_heap w' = Map.empty))"

lemma keepsI:
  assumes "\<And>e n w r w'. c e n w = Some (r, w') \<Longrightarrow> path_ok w \<Longrightarrow> w_heap w = Map.empty \<Longrightarrow> pc_path (w_pc w) = PATH_NULL \<Longrightarrow>
    path_ok w' \<and> (r = HT_ERR \<longrightarrow> w_heap w' = Map.empty)"
  shows "choice_keeps c"
  unfolding choice_keeps_def
proof (intro allI impI)
  fix e n w r w' assume "c e n w = Some (r, w')" "path_ok w" "pc_path (w_pc w) = PATH_NULL"
  then show "path_ok w' \<and> (r = HT_ERR \<longrightarrow> w_heap w' = Map.empty)" by (intro assms [of e n w]) (simp_all add: path_ok_def)
qed

lemma load_path_nn: "load_path e dirfd laddr nf w = Some w' \<Longrightarrow> pc_path (w_pc w') \<noteq> PATH_NULL"
  by (auto simp: load_path_def bind_eq_Some_conv abspath_eff_def w_set_def dest!: um_abspath_eff)

lemma check_path_ref: "check_path e w = Some (r, w') \<Longrightarrow> r \<noteq> HT_ERR"
  by (auto simp: check_path_def bind_eq_Some_conv split: if_splits)

text \<open>The path is loaded and looked up.\<close>

lemma load_check_ok:
  assumes "Option.bind (load_path e d l nf w) (check_path e) = Some (r, w')" "w_heap w = Map.empty"
  shows "path_ok w' \<and> (r = HT_ERR \<longrightarrow> w_heap w' = Map.empty)"
  using assms by (auto simp: bind_eq_Some_conv intro: check_path_ok load_path_ok dest: check_path_ref)

lemma choice_plain_ok:
  "choice_keeps choice_path" "choice_keeps choice_pathat" "choice_keeps choice_link" "choice_keeps choice_linkat"
  "choice_keeps choice_unlinkat" "choice_keeps choice_pl4at" "choice_keeps choice_pl5at" "choice_keeps choice_link2at"
  unfolding choice_plain_defs by (rule keepsI, erule load_check_ok, assumption)+

lemma choice_utimensat_ok: "choice_keeps choice_utimensat"
proof (rule keepsI)
  fix e n w r w' assume c: "choice_utimensat e n w = Some (r, w')" and h: "w_heap w = Map.empty"
  show "path_ok w' \<and> (r = HT_ERR \<longrightarrow> w_heap w' = Map.empty)"
  proof (cases "w_arg w 1 = 0")
    case True
    then obtain p w1 where p: "utimensat_nullpath e (w_fdarg w 0) (w_arg w 3 AND AT_SYMLINK_NOFOLLOW \<noteq> 0) w = Some (p, w1)"
        "check_path e (w_set (\<lambda>pc. pc\<lparr>pc_path := p\<rparr>) w1) = Some (r, w')"
      using c by (auto simp: choice_utimensat_def Let_def bind_eq_Some_conv)
    then show ?thesis using check_path_ok [OF p(2) set_path_ok(2) [OF nullpath_eff [OF p(1)] h]] check_path_ref [OF p(2)] by simp
  next
    case False
    then show ?thesis using c h load_check_ok by (auto simp: choice_utimensat_def Let_def)
  qed
qed

lemma choice_mount_ok: "choice_keeps choice_mount"
proof (rule keepsI)
  fix e n w r w' assume c: "choice_mount e n w = Some (r, w')" and h: "w_heap w = Map.empty"
  obtain w1 where l: "load_path e AT_FDCWD (w_arg w 1) False w = Some w1" using c by (auto simp: choice_mount_def bind_eq_Some_conv)
  then have "path_ok w1" using load_path_ok h by blast
  moreover have "same_path w1 w' \<and> r \<noteq> HT_ERR"
    using c l by (auto simp: choice_mount_def get_alias_def bind_eq_Some_conv split: if_splits option.splits
        dest!: rec_alias_path w_check_path intro: same_path_trans)
  ultimately show "path_ok w' \<and> (r = HT_ERR \<longrightarrow> w_heap w' = Map.empty)" using path_ok_same by blast
qed

lemma choice_exact_ok: "choice_keeps choice_path_exact"
  by (rule keepsI) (auto simp: choice_path_exact_def bind_eq_Some_conv split: if_splits dest!: w_check_path load_path_ok simp: path_ok_same)

lemma choice_link2_ok: "choice_keeps choice_link2"
proof (rule keepsI)
  fix e n w r w' assume c: "choice_link2 e n w = Some (r, w')" and h: "w_heap w = Map.empty"
  obtain w1 where l: "load_path e AT_FDCWD (w_arg w 1) True w = Some w1" using c by (auto simp: choice_link2_def bind_eq_Some_conv)
  note ok = load_path_ok [OF l h] load_path_nn [OF l]
  have "path_ok w2 \<and> pc_path (w_pc w2) \<noteq> PATH_NULL \<and> s \<noteq> HT_ERR" if "check_path e w1 = Some (s, w2)" for s w2
    using check_path_same [OF that] check_path_ok [OF that ok(1)] check_path_ref [OF that] ok(2) by (simp add: same_path_def)
  then show "path_ok w' \<and> (r = HT_ERR \<longrightarrow> w_heap w' = Map.empty)"
    using c l ok by (auto simp: choice_link2_def bind_eq_Some_conv split: if_splits intro: check_oldpath_ok)
qed

lemma choice_link3at_ok: "choice_keeps choice_link3at"
proof (rule keepsI)
  fix e n w r w' assume c: "choice_link3at e n w = Some (r, w')" and h: "w_heap w = Map.empty"
  obtain w1 where l: "load_path e (w_fdarg w 2) (w_arg w 3) True w = Some w1" using c by (auto simp: choice_link3at_def bind_eq_Some_conv)
  note ok = load_path_ok [OF l h] load_path_nn [OF l]
  have "path_ok w2 \<and> pc_path (w_pc w2) \<noteq> PATH_NULL \<and> s \<noteq> HT_ERR" if "check_path e w1 = Some (s, w2)" for s w2
    using check_path_same [OF that] check_path_ok [OF that ok(1)] check_path_ref [OF that] ok(2) by (simp add: same_path_def)
  then show "path_ok w' \<and> (r = HT_ERR \<longrightarrow> w_heap w' = Map.empty)"
    using c l ok by (auto simp: choice_link3at_def bind_eq_Some_conv Let_def split: if_splits intro: check_oldpath_ok)
qed

lemma same_ok: "same_path w w' \<Longrightarrow> path_ok w \<Longrightarrow> w_heap w = Map.empty \<Longrightarrow> path_ok w' \<and> (r = HT_ERR \<longrightarrow> w_heap w' = Map.empty)"
  using path_ok_same [of w w'] by (simp add: same_path_def)

lemma choice_fd_ok: "choice_keeps choice_fd"
  by (rule keepsI) (auto simp: choice_fd_def dest!: w_fd_path dest: same_ok)

lemma choice_sc_ok: "choice_keeps choice_sc"
  by (rule keepsI) (auto simp: choice_sc_def dest!: w_check_path dest: same_ok)

lemma choice_socket_ok: "choice_keeps choice_socket"
  by (rule keepsI) (auto simp: choice_socket_def dest!: w_check_path dest: same_ok)

lemma choice_mmap_ok: "choice_keeps choice_mmap"
  by (rule keepsI) (auto simp: choice_mmap_def split: if_splits dest!: w_fd_path dest: same_ok)

lemma always_null_ok: "choice_keeps always_null"
  by (rule keepsI) (auto simp: always_null_def)

lemma choice_sockpath_ok: "choice_keeps choice_sockpath"
proof (rule keepsI)
  fix e n w r w' assume c: "choice_sockpath e n w = Some (r, w')" and ok: "path_ok w" and h: "w_heap w = Map.empty"
  show "path_ok w' \<and> (r = HT_ERR \<longrightarrow> w_heap w' = Map.empty)"
  proof (cases "w_arg w 0 = 0")
    case True
    then show ?thesis using c ok h by (auto simp: choice_sockpath_def dest!: w_check_path dest: same_ok)
  next
    case False
    then show ?thesis using c h load_check_ok by (simp add: choice_sockpath_def)
  qed
qed

lemma choices_ok: "c \<in> set choices \<Longrightarrow> choice_keeps c"
  unfolding choices_def using choice_plain_ok choice_utimensat_ok choice_mount_ok choice_exact_ok choice_link2_ok choice_link3at_ok
    choice_fd_ok choice_sc_ok choice_socket_ok choice_mmap_ok always_null_ok choice_sockpath_ok
  by auto

end
