(* ===== verification/Wrap_Table.thy ===== *)
theory Wrap_Table
  imports Wrap_Paths
begin

text \<open>
  What the dispatcher of the system calls guarantees: the path of a call is freed once, whatever
  the functions of the table do within their contract.
\<close>

section \<open>The contract of a table\<close>

text \<open>The state in which the choice function is called.\<close>

definition w_ready :: "wrap \<Rightarrow> wrap" where
  "w_ready w = w_set (\<lambda>pc. pc\<lparr>pc_needs_path_rewrite := False\<rparr>)
     (w_set (\<lambda>pc. pc\<lparr>pc_private_scno := word_of_int (pc_sysscno pc), pc_path := PATH_NULL\<rparr>) (w_stamp (drop_tmpfile w)))"

lemma drop_tmpfile_path: "same_path w (drop_tmpfile w)"
  by (auto simp: drop_tmpfile_def w_set_def same_path_def split: option.splits)

lemma w_ready_ok: "idle w \<Longrightarrow> path_ok (w_ready w)" "pc_path (w_pc (w_ready w)) = PATH_NULL"
  using drop_tmpfile_path [of w] by (simp_all add: w_ready_def w_stamp_def w_set_def Let_def same_path_def idle_def path_ok_def)

lemma path_free_ok:
  assumes ok: "path_ok w" and ne: "pc_path (w_pc w) \<noteq> PATH_ERR"
  shows "\<exists>w'. path_free (pc_path (w_pc w)) w = Some w' \<and> idle w'"
proof (cases "pc_path (w_pc w)")
  case (PATH a)
  then have d: "dom (w_heap w) = {a}" using ok by (simp add: path_ok_def)
  then have "(w_heap w)(a := None) = Map.empty" by (auto simp: fun_eq_iff dom_def)
  moreover have "w_heap w a \<noteq> None" using d by auto
  ultimately show ?thesis using PATH by (simp add: path_free_def idle_def)
qed (use ok ne in \<open>simp_all add: path_free_def path_ok_def idle_def\<close>)

lemma idle_path_err: "idle w \<Longrightarrow> path_ok (w_set (\<lambda>pc. pc\<lparr>pc_path := PATH_ERR, pc_erno := x, pc_retval := y\<rparr>) w)"
  "idle w \<Longrightarrow> path_ok (w_set (\<lambda>pc. pc\<lparr>pc_path := PATH_ERR\<rparr>) w)"
  by (simp_all add: path_ok_def idle_def w_set_def)

lemma rewritepath_same: "path_str w p \<noteq> None \<Longrightarrow> \<exists>w'. um_x_rewritepath p a w = Some w' \<and> same_path w w'"
  by (auto simp: um_x_rewritepath_def Let_def same_path_def w_set_def)

locale sc_table =
  fixes sm :: "nat \<Rightarrow> sc_map" and suspend :: "wrap \<Rightarrow> int \<Rightarrow> nat \<Rightarrow> (int \<times> wrap) option"
  assumes choice_in: "sm_scchoice (sm i) \<in> set choices"
    and wrapin_path: "path_ok w \<Longrightarrow> pc_path (w_pc w) \<noteq> PATH_ERR \<Longrightarrow> hte \<noteq> None \<and> sm_scchoice (sm i) \<noteq> always_null \<or> sm_flags (sm i) AND ALWAYS \<noteq> 0 \<Longrightarrow>
      \<exists>rv w'. sm_wrapin (sm i) n hte f w = Some (rv, w') \<and> path_ok w'"
    and wrapout_path: "path_ok w \<Longrightarrow> pc_path (w_pc w) \<noteq> PATH_ERR \<Longrightarrow> sm_wrapout (sm i) n w = Some (rv, w') \<Longrightarrow>
      path_ok w' \<and> pc_path (w_pc w') \<noteq> PATH_ERR"
    and suspend_path: "\<exists>what w'. suspend w fd how = Some (what, w') \<and> same_path w w' \<and> up_ht (w_up w') = up_ht (w_up w)"
begin

lemma managed_ok:
  assumes ok: "path_ok w" "pc_path (w_pc w) \<noteq> PATH_ERR" and m: "hte \<noteq> None \<and> sm_scchoice (sm i) \<noteq> always_null \<or> sm_flags (sm i) AND ALWAYS \<noteq> 0"
    and sc: "ht_syscall (up_ht (w_up w)) hte i \<noteq> None"
  shows "\<exists>rv w'. wrap_managed suspend ht_syscall (sm i) i n hte w = Some (rv, w') \<and> path_ok w'"
proof -
  define how where "how = unat (sm_flags (sm i) AND 0x7)"
  obtain what w1 where w1: "(if how \<noteq> 0 then suspend w (w_fdarg w 0) how else Some (STD_BEHAVIOR, w)) = Some (what, w1)"
      "same_path w w1" "up_ht (w_up w1) = up_ht (w_up w)"
    using suspend_path [of w "w_fdarg w 0" how] by (cases "how = 0") auto
  have "path_ok w1" using path_ok_same [OF w1(2)] ok by simp
  moreover have "pc_path (w_pc w1) \<noteq> PATH_ERR" using w1(2) ok by (simp add: same_path_def)
  ultimately have ok1: "path_ok w1" "pc_path (w_pc w1) \<noteq> PATH_ERR" by blast+
  obtain f where f: "ht_syscall (up_ht (w_up w1)) hte i = Some f" using sc w1(3) by auto
  obtain w2 where w2: "path_free (pc_path (w_pc w1)) w1 = Some w2" "idle w2" using path_free_ok [OF ok1] by blast
  obtain rv w3 where w3: "sm_wrapin (sm i) n hte f w1 = Some (rv, w3)" "path_ok w3" using wrapin_path [OF ok1 m] by blast
  have run: "wrap_managed suspend ht_syscall (sm i) i n hte w =
     (if what = STD_BEHAVIOR then Some (rv, w3) else if what = SC_CALLONXIT then Some (what, w_set (\<lambda>pc. pc\<lparr>pc_path := PATH_ERR\<rparr>) w2)
      else Some (what, w1))"
    using w1(1) f w2(1) w3(1) by (simp add: wrap_managed_def how_def [symmetric])
  show ?thesis using w3(2) idle_path_err(2) [OF w2(2)] ok1(1) unfolding run by auto
qed

lemma unmanaged_ok:
  assumes ok: "path_ok w" "pc_path (w_pc w) \<noteq> PATH_ERR"
  shows "\<exists>rv w'. wrap_unmanaged (sm i) w = Some (rv, w') \<and> idle w' \<and> rv \<in> {SC_MODICALL, STD_BEHAVIOR}"
proof -
  have "path_str w (pc_path (w_pc w)) \<noteq> None" if "pc_needs_path_rewrite (w_pc w)"
    using that ok by (cases "pc_path (w_pc w)") (auto simp: path_ok_def path_str_def)
  then obtain w1 where w1: "(if pc_needs_path_rewrite (w_pc w) \<and> ISPATHARG (sm_nargx (sm i)) \<noteq> 0
            then um_x_rewritepath (pc_path (w_pc w)) (PATHARG (sm_nargx (sm i))) w else Some w) = Some w1" "same_path w w1"
    using rewritepath_same [of w "pc_path (w_pc w)" "PATHARG (sm_nargx (sm i))"]
    by (cases "pc_needs_path_rewrite (w_pc w) \<and> ISPATHARG (sm_nargx (sm i)) \<noteq> 0") auto
  have "path_ok w1" using path_ok_same [OF w1(2)] ok by simp
  moreover have "pc_path (w_pc w1) \<noteq> PATH_ERR" using w1(2) ok by (simp add: same_path_def)
  ultimately obtain w2 where "path_free (pc_path (w_pc w1)) w1 = Some w2" "idle w2" using path_free_ok by blast
  with w1(1) show ?thesis by (simp add: wrap_unmanaged_def)
qed

text \<open>The entry of a call leaves the path of the descriptor in the heap, or nothing when nobody manages it.\<close>

lemma megawrap_in:
  assumes i: "idle w" and c: "sm_scchoice (sm (u n)) e n (w_ready w) = Some (r, w1)"
    and sv: "\<And>h. r = HT_REF (Some h) \<Longrightarrow> ht_service_of (up_ht (w_up w1)) h \<noteq> None"
  shows "\<exists>rv w'. dsys_megawrap suspend e u sm n IN w = Some (rv, w') \<and> (path_ok w' \<or> idle w' \<and> rv \<in> {SC_MODICALL, STD_BEHAVIOR})"
proof -
  define hte where "hte = (case r of HT_ERR \<Rightarrow> None | HT_REF h \<Rightarrow> h)"
  define w2 where "w2 = w_set (\<lambda>pc. pc\<lparr>pc_hte := hte\<rparr>) w1"
  have k: "path_ok w1" "r = HT_ERR \<Longrightarrow> w_heap w1 = Map.empty"
    using choices_ok [OF choice_in] c w_ready_ok(1) [OF i] w_ready_ok(2) unfolding choice_keeps_def by blast+
  have s2: "same_path w1 w2" "up_ht (w_up w2) = up_ht (w_up w1)"
    by (simp_all add: w2_def same_path_def w_set_def)
  have ok2: "path_ok w2" using k(1) path_ok_same [OF s2(1)] by blast
  have run: "dsys_megawrap suspend e u sm n IN w =
     (if pc_path (w_pc w2) = PATH_ERR then Some (SC_FAKE, w_set (\<lambda>pc. pc\<lparr>pc_retval := -1\<rparr>) w2)
      else if r = HT_ERR then Some (SC_FAKE, w_set (\<lambda>pc. pc\<lparr>pc_path := PATH_ERR, pc_erno := E_BADF, pc_retval := -1\<rparr>) w2)
      else if hte \<noteq> None \<or> sm_flags (sm (u n)) AND ALWAYS \<noteq> 0 then wrap_managed suspend ht_syscall (sm (u n)) (u n) n hte w2
      else wrap_unmanaged (sm (u n)) w2)"
    using c by (simp add: dsys_megawrap_def dsys_commonwrap_def commonwrap_in_def dsys_megawrap_parse_arguments_def
        w_ready_def Let_def hte_def w2_def)
  show ?thesis
  proof (cases "pc_path (w_pc w2) = PATH_ERR")
    case True
    have "path_ok (w_set (\<lambda>pc. pc\<lparr>pc_retval := -1\<rparr>) w2)"
      by (rule path_ok_same [THEN iffD2, OF _ ok2]) (simp add: same_path_def w_set_def)
    then show ?thesis using True run by simp
  next
    case ne: False
    show ?thesis
    proof (cases "r = HT_ERR")
      case True
      then have "idle w2" using k(2) s2(1) by (simp add: same_path_def idle_def)
      then show ?thesis using True ne run idle_path_err(1) by simp
    next
      case r: False
      show ?thesis
      proof (cases "hte \<noteq> None \<or> sm_flags (sm (u n)) AND ALWAYS \<noteq> 0")
        case True
        have "ht_syscall (up_ht (w_up w2)) hte (u n) \<noteq> None"
          using r sv s2(2) by (cases r) (auto simp: ht_syscall_def hte_def bind_eq_None_conv split: option.splits)
        moreover have "hte \<noteq> None \<and> sm_scchoice (sm (u n)) \<noteq> always_null \<or> sm_flags (sm (u n)) AND ALWAYS \<noteq> 0"
          using True c by (auto simp: always_null_def hte_def)
        ultimately show ?thesis using managed_ok [OF ok2 ne, of hte "u n" n] run ne r True by auto
      next
        case False
        then show ?thesis using unmanaged_ok [OF ok2 ne, of "u n"] run ne r by auto
      qed
    qed
  qed
qed

text \<open>The exit of a call that is not suspended frees it.\<close>

lemma megawrap_out:
  assumes ok: "path_ok w" and w: "\<And>w. \<exists>r. sm_wrapout (sm (u n)) n w = Some r"
  shows "\<exists>rv w'. dsys_megawrap suspend e u sm n OUT w = Some (rv, w') \<and> (if rv AND SC_SUSPENDED = 0 then idle w' else path_ok w')"
proof -
  define w1 where "w1 = drop_tmpfile w"
  have s1: "same_path w w1" unfolding w1_def by (rule drop_tmpfile_path)
  then have ok1: "path_ok w1" using path_ok_same [OF s1] ok by simp
  have run: "dsys_megawrap suspend e u sm n OUT w = commonwrap_out n (\<lambda>scno w. u scno) sm w1"
    by (simp add: dsys_megawrap_def dsys_commonwrap_def w1_def)
  show ?thesis
  proof (cases "pc_path (w_pc w1) = PATH_ERR")
    case True
    then show ?thesis using ok1 unfolding run commonwrap_out_def
      by (simp add: puterrno_def putrv_def SC_defs idle_def path_ok_def)
  next
    case False
    obtain rv w2 where w2: "sm_wrapout (sm (u n)) n w1 = Some (rv, w2)" using w [of w1] by auto
    have ok2: "path_ok w2" "pc_path (w_pc w2) \<noteq> PATH_ERR" using wrapout_path [OF ok1 False w2] by blast+
    obtain w3 where w3: "path_free (pc_path (w_pc w2)) w2 = Some w3" "idle w3" using path_free_ok [OF ok2] by blast
    then show ?thesis using False w2 w3 ok2 unfolding run commonwrap_out_def by simp
  qed
qed

end

section \<open>The calls on the identities\<close>

lemma rows_choice: "sm_scchoice (sc_rows (id_rows secure us ug) i) \<in> set choices"
proof -
  have "\<forall>r \<in> set (id_rows secure us ug). sm_scchoice (snd r) \<in> {choice_sc, always_null}"
    by (simp add: id_rows_def id_row_def id_store_row_def)
  moreover have "sc_rows (id_rows secure us ug) i \<in> snd ` set (id_rows secure us ug)"
    unfolding sc_rows_def by (rule imageI, rule nth_mem) (simp add: id_rows_def)
  ultimately show ?thesis by (auto simp: choices_def)
qed

text \<open>What the wrappers of the identities keep of a descriptor.\<close>

definition only_ids :: "pcb \<Rightarrow> pcb \<Rightarrow> bool" where
  "only_ids pc pc' \<longleftrightarrow> pc_path pc' = pc_path pc \<and> pc_needs_path_rewrite pc' = pc_needs_path_rewrite pc \<and> pc_tmpfile pc' = pc_tmpfile pc"

lemma um_call_ids:
  assumes "\<And>a pc. only_ids pc (snd (snd (us a pc)))"
  shows "only_ids pc (um_call us args pc)"
  using assms [of pc args] by (simp add: um_call_def only_ids_def Let_def split_beta)

lemma only_ids_simps [simp]:
  "only_ids pc pc" "only_ids pc (eperm pc') = only_ids pc pc'" "only_ids pc (done_ok pc') = only_ids pc pc'"
  "only_ids pc (if b then pc' else pc'') = (if b then only_ids pc pc' else only_ids pc pc'')"
  "only_ids pc (pc'\<lparr>pc_ruid := u\<rparr>) = only_ids pc pc'" "only_ids pc (pc'\<lparr>pc_euid := u\<rparr>) = only_ids pc pc'" "only_ids pc (pc'\<lparr>pc_suid := u\<rparr>) = only_ids pc pc'" "only_ids pc (pc'\<lparr>pc_fsuid := u\<rparr>) = only_ids pc pc'"
  "only_ids pc (pc'\<lparr>pc_rgid := u\<rparr>) = only_ids pc pc'" "only_ids pc (pc'\<lparr>pc_egid := u\<rparr>) = only_ids pc pc'" "only_ids pc (pc'\<lparr>pc_sgid := u\<rparr>) = only_ids pc pc'" "only_ids pc (pc'\<lparr>pc_fsgid := u\<rparr>) = only_ids pc pc'"
  "only_ids pc (pc'\<lparr>pc_retval := x\<rparr>) = only_ids pc pc'" "only_ids pc (pc'\<lparr>pc_erno := x\<rparr>) = only_ids pc pc'"
  by (simp_all add: only_ids_def eperm_def done_ok_def)

lemma only_ids_set:
  assumes "hte \<noteq> None \<Longrightarrow> \<forall>args pc. only_ids pc (snd (snd (us args pc)))"
  shows "only_ids pc (wrap_in_setuid secure n pc hte us)" "only_ids pc (wrap_in_setreuid secure n pc hte us)"
    "only_ids pc (wrap_in_setresuid secure n pc hte us)" "only_ids pc (wrap_in_setgid secure n pc hte us)"
    "only_ids pc (wrap_in_setregid secure n pc hte us)" "only_ids pc (wrap_in_setresgid secure n pc hte us)"
proof -
  have c: "only_ids pc (um_call us args pc)" if "hte \<noteq> None" for args using assms that by (intro um_call_ids) simp
  show "only_ids pc (wrap_in_setuid secure n pc hte us)" using c by (simp add: wrap_in_setuid_def Let_def)
  show "only_ids pc (wrap_in_setreuid secure n pc hte us)" using c by (simp add: wrap_in_setreuid_def Let_def)
  show "only_ids pc (wrap_in_setresuid secure n pc hte us)" using c by (simp add: wrap_in_setresuid_def Let_def)
  show "only_ids pc (wrap_in_setgid secure n pc hte us)" using c by (simp add: wrap_in_setgid_def Let_def)
  show "only_ids pc (wrap_in_setregid secure n pc hte us)" using c by (simp add: wrap_in_setregid_def Let_def)
  show "only_ids pc (wrap_in_setresgid secure n pc hte us)" using c by (simp add: wrap_in_setresgid_def Let_def)
qed

lemma only_ids_get:
  assumes "hte \<noteq> None \<Longrightarrow> \<forall>pc. only_ids pc (snd (snd (snd (ug pc))))"
  shows "only_ids pc (wrap_in_getxid n pc hte ug)" "only_ids pc (wrap_in_getxid16 n pc hte ug)"
    "only_ids pc (fst (wrap_in_getresuid n pc hte ug))" "only_ids pc (fst (wrap_in_getresgid n pc hte ug))"
proof -
  have c: "only_ids pc (snd (snd (snd (ug pc))))" if "hte \<noteq> None" using assms that by blast
  show g: "only_ids pc (wrap_in_getxid n pc hte ug)" using c by (simp add: wrap_in_getxid_def Let_def split_beta)
  then show "only_ids pc (wrap_in_getxid16 n pc hte ug)" by (simp add: wrap_in_getxid16_def Let_def)
  show "only_ids pc (fst (wrap_in_getresuid n pc hte ug))" using c
    by (cases "hte = None") (simp_all add: wrap_in_getresuid_def Let_def split_beta if_distrib [of fst])
  show "only_ids pc (fst (wrap_in_getresgid n pc hte ug))" using c
    by (cases "hte = None") (simp_all add: wrap_in_getresgid_def Let_def split_beta if_distrib [of fst])
qed

text \<open>A row that keeps the path.\<close>

definition row_keeps :: "sc_map \<Rightarrow> bool" where
  "row_keeps m \<longleftrightarrow> (\<forall>n hte f w rv w'. sm_wrapin m n hte f w = Some (rv, w') \<longrightarrow> same_path w w') \<and>
     (\<forall>n w rv w'. sm_wrapout m n w = Some (rv, w') \<longrightarrow> same_path w w')"

lemma puterrno_simps [simp]: "w_pc (puterrno er w) = w_pc w" "w_heap (puterrno er w) = w_heap w" "w_brk (puterrno er w) = w_brk w"
  "w_pc (putrv v w) = w_pc w" "w_heap (putrv v w) = w_heap w" "w_brk (putrv v w) = w_brk w"
  by (simp_all add: puterrno_def putrv_def)

lemma out_std_path: "wrap_out_std n w = Some (rv, w') \<Longrightarrow> same_path w w'"
  by (auto simp: wrap_out_std_def Let_def same_path_def split: if_splits)

lemma id_row_keeps: "(\<And>n pc hte f. only_ids pc (g n pc hte f)) \<Longrightarrow> row_keeps (id_row g k)"
  by (auto simp: row_keeps_def id_row_def same_path_def only_ids_def w_set_def dest: out_std_path)

lemma id_store_row_keeps: "(\<And>n pc hte f. only_ids pc (fst (g n pc hte f))) \<Longrightarrow> row_keeps (id_store_row g)"
  by (auto simp: row_keeps_def id_store_row_def same_path_def only_ids_def w_set_def split_beta Let_def dest: out_std_path)

text \<open>The modules change only identities and results of a descriptor.\<close>

locale id_modules =
  fixes us :: "sysfun option \<Rightarrow> um_set" and ug :: "sysfun option \<Rightarrow> um_get" and secure :: bool
  assumes us_ids: "only_ids pc (snd (snd (us f args pc)))" and ug_ids: "only_ids pc (snd (snd (snd (ug f pc))))"
begin

lemma rows_keep: "r \<in> set (id_rows secure us ug) \<Longrightarrow> row_keeps (snd r)"
  unfolding id_rows_def using us_ids ug_ids
  by (auto intro!: id_row_keeps id_store_row_keeps only_ids_set only_ids_get) (simp add: row_keeps_def)

lemma row_in: "i < length (id_rows secure us ug) \<Longrightarrow> row_keeps (sc_rows (id_rows secure us ug) i)"
  using rows_keep by (simp add: sc_rows_def)

end

lemma rows_returns:
  assumes "sm_flags (sc_rows (id_rows secure us ug) i) AND ALWAYS \<noteq> 0 \<or> sm_scchoice (sc_rows (id_rows secure us ug) i) \<noteq> always_null"
  shows "\<exists>rv w'. sm_wrapin (sc_rows (id_rows secure us ug) i) n hte f w = Some (rv, w')"
proof -
  have "\<forall>r \<in> set (id_rows secure us ug). (sm_flags (snd r) AND ALWAYS \<noteq> 0 \<or> sm_scchoice (snd r) \<noteq> always_null) \<longrightarrow>
      (\<exists>rv w'. sm_wrapin (snd r) n hte f w = Some (rv, w'))"
    by (simp add: id_rows_def id_row_def id_store_row_def split_beta Let_def)
  moreover have "\<exists>r \<in> set (id_rows secure us ug). sc_rows (id_rows secure us ug) i = snd r"
    unfolding sc_rows_def by (rule bexI [OF refl nth_mem]) (simp add: id_rows_def)
  ultimately show ?thesis using assms by metis
qed

sublocale id_modules \<subseteq> tab: sc_table "sc_rows (id_rows secure us ug)" "\<lambda>w fd how. Some (STD_BEHAVIOR, w)"
proof unfold_locales
  have k: "row_keeps (sc_rows (id_rows secure us ug) i)" for i
    using rows_keep [OF nth_mem, of 0] row_in [of i] by (cases "i < length (id_rows secure us ug)") (simp_all add: sc_rows_def id_rows_def)
  show "sm_scchoice (sc_rows (id_rows secure us ug) i) \<in> set choices" for i by (rule rows_choice)
  show "\<exists>rv w'. sm_wrapin (sc_rows (id_rows secure us ug) i) n hte f w = Some (rv, w') \<and> path_ok w'"
    if "path_ok w" "hte \<noteq> None \<and> sm_scchoice (sc_rows (id_rows secure us ug) i) \<noteq> always_null \<or>
      sm_flags (sc_rows (id_rows secure us ug) i) AND ALWAYS \<noteq> 0" for w i n hte f
    using rows_returns [of secure us ug i n hte f w] that k [of i] path_ok_same unfolding row_keeps_def by blast
  show "path_ok w' \<and> pc_path (w_pc w') \<noteq> PATH_ERR"
    if "path_ok w" "pc_path (w_pc w) \<noteq> PATH_ERR" "sm_wrapout (sc_rows (id_rows secure us ug) i) n w = Some (rv, w')" for w i n rv w'
  proof -
    have s: "same_path w w'" using that(3) k [of i] unfolding row_keeps_def by blast
    then show ?thesis using path_ok_same [OF s] that(1,2) by (simp add: same_path_def)
  qed
  show "\<exists>what w'. Some (STD_BEHAVIOR, w) = Some (what, w') \<and> same_path w w' \<and> up_ht (w_up w') = up_ht (w_up w)" for w :: wrap
    by simp
qed

text \<open>Modules that use the functions of the monitor for the identities.\<close>

definition mod_set :: "sysfun option \<Rightarrow> um_set" where
  "mod_set f args pc = (case args of
       [r, e, s] \<Rightarrow> (case um_mod_setresuid (word_of_int r) (word_of_int e) (word_of_int s) (Some pc) of
           (rv, Some pc) \<Rightarrow> (rv, 0, pc) | (rv, None) \<Rightarrow> (rv, 0, pc))
     | _ \<Rightarrow> (-1, 22, pc))"

definition mod_get :: "sysfun option \<Rightarrow> um_get" where
  "mod_get f pc = (case um_mod_getresuid (Some pc) of (rv, Some ids) \<Rightarrow> (rv, 0, ids, pc) | (rv, None) \<Rightarrow> (rv, 22, (0, 0, 0), pc))"

interpretation idm: id_modules mod_set mod_get secure for secure
  by unfold_locales (auto simp: mod_set_def mod_get_def um_mod_setresuid_def um_mod_getresuid_def Let_def split: list.splits)

end
