(* ===== verification/Wrap_Props.thy ===== *)
theory Wrap_Props
  imports Wrap_Table Umproc_Props Canonicalize_Props
begin

text \<open>
  Properties of the dispatcher of the system calls.
\<close>

section \<open>An empty table\<close>









section \<open>A process that runs calls\<close>






section \<open>Properties\<close>







section \<open>A call on the identities\<close>








section \<open>Virtual calls\<close>

text \<open>
  A virtual call does not reset the path: after a call that nobody manages, whose path is freed and
  stays in the descriptor, the exit of \<open>umservice\<close> frees it again.
\<close>

theorem virsc_double_free:
  assumes "idle w" "pc_path (w_pc w) = PATH a" "pc_sysargs (w_pc w) ! 0 = 0" "pc_sysargs (w_pc w) ! 1 = 0" "pc_sysargs (w_pc w) ! 2 = 1"
    "\<And>v hte f. \<exists>v'. wi n hte f v = Some (SC_FAKE, v') \<and> same_path v v' \<and> pc_private_scno (w_pc v') = pc_private_scno (w_pc v)"
  shows "\<exists>w'. dsys_um_virsc suspend e mem (sc_rows (virscmap wi ms wo)) n IN w = Some (SC_FAKE, w') \<and>
     dsys_um_virsc suspend e mem (sc_rows (virscmap wi ms wo)) n OUT w' = None"
proof -
  define v where "v = w_stamp (drop_tmpfile w)"
  have v: "same_path w v" "pc_sysargs (w_pc v) = pc_sysargs (w_pc w)"
    using drop_tmpfile_path [of w] by (auto simp: v_def w_stamp_def drop_tmpfile_def w_set_def Let_def same_path_def split: option.splits)
  obtain x where x: "dsys_um_virsc_parse_arguments mem n v = Some x" by (auto simp: dsys_um_virsc_parse_arguments_def Let_def)
  then have xp: "w_heap x = w_heap v" "pc_path (w_pc x) = pc_path (w_pc v)" "pc_private_scno (w_pc x) = ucast (1 :: u64) OR ESCNO_VIRSC"
    using v(2) assms(3-5) by (auto simp: dsys_um_virsc_parse_arguments_def w_arg_def w_set_def Let_def)
  have idx: "dsys_um_virsc_index_function n y = 1" if "pc_private_scno (w_pc y) = ucast (1 :: u64) OR ESCNO_VIRSC" for y
    by (simp add: dsys_um_virsc_index_function_def that ESCNO_VIRSC_def ESCNO_MASK_def)
  let ?row = "sc_rows (virscmap wi ms wo) 1"
  have row: "sm_scchoice ?row = always_null" "sm_flags ?row = ALWAYS" "sm_wrapin ?row = wi" "sm_wrapout ?row = wrap_out_umservice"
    by (simp_all add: sc_rows_def virscmap_def)
  let ?y = "w_set (\<lambda>pc. pc\<lparr>pc_hte := None\<rparr>) (w_set (\<lambda>pc. pc\<lparr>pc_needs_path_rewrite := False\<rparr>) x)"
  have p: "pc_path (w_pc ?y) = PATH a" "w_heap ?y a = None" "pc_private_scno (w_pc ?y) = ucast (1 :: u64) OR ESCNO_VIRSC"
    using xp v(1) assms(1,2) by (simp_all add: w_set_def same_path_def idle_def)
  obtain z where z: "wi n None None ?y = Some (SC_FAKE, z)" "same_path ?y z" "pc_private_scno (w_pc z) = pc_private_scno (w_pc ?y)"
    using assms(6) by blast
  have "dsys_um_virsc suspend e mem (sc_rows (virscmap wi ms wo)) n IN w = Some (SC_FAKE, z)"
    using x z(1) p(1) idx [OF xp(3)] row
    by (simp add: dsys_um_virsc_def dsys_commonwrap_def commonwrap_in_def v_def [symmetric] Let_def always_null_def wrap_managed_def ALWAYS_def
        ht_virsyscall_def)
  moreover have "dsys_um_virsc suspend e mem (sc_rows (virscmap wi ms wo)) n OUT z = None"
  proof -
    have z': "pc_path (w_pc (drop_tmpfile z)) = PATH a" "w_heap (drop_tmpfile z) a = None"
        "pc_private_scno (w_pc (drop_tmpfile z)) = ucast (1 :: u64) OR ESCNO_VIRSC"
      using z(2,3) p drop_tmpfile_path [of z] by (auto simp: same_path_def) (auto simp: drop_tmpfile_def w_set_def split: option.splits)
    show ?thesis using z'(1,2) idx [OF z'(3)] row
      by (simp add: dsys_um_virsc_def dsys_commonwrap_def commonwrap_out_def wrap_out_umservice_def Let_def path_free_def SC_defs)
  qed
  ultimately show ?thesis by blast
qed

end
